(* ===== verification/Go_Prelude.thy ===== *)
theory Go_Prelude
  imports Main "HOL-Library.Char_ord" "HOL-Library.List_Lexorder" "HOL-Library.Sublist"
begin

text \<open>
  The shared ground of the development: errors and results, the functions of Go's
  \<open>strings\<close>, \<open>strconv\<close> and \<open>fmt\<close> packages that the controller calls, and
  the string sets of \<open>k8s.io/apimachinery/pkg/util/sets\<close>. Go strings are byte sequences
  and are modelled as \<open>string\<close> (a list of 8-bit characters); Go's order on strings is the
  lexicographic byte order, which is the order of \<open>HOL-Library.List_Lexorder\<close> over
  \<open>HOL-Library.Char_ord\<close>. An \<open>int64\<close> is an \<open>int\<close> with its range written
  out where the code depends on it (\<open>strconv.ParseInt\<close>).
\<close>

named_theorems go_string \<open>rewrite rules of the string functions\<close>
named_theorems go_defs \<open>definitions a component proof unfolds\<close>

section \<open>Errors and results\<close>

text \<open>
  A Go error value is an \<open>error\<close>: \<open>Errorf\<close> is a message built by
  \<open>fmt.Errorf\<close>, \<open>Wrap\<close> a message with an underlying cause (the \<open>%v\<close> of the
  cause), \<open>External\<close> an error that code outside the model returned, and \<open>NotFound\<close>
  the API server's not-found status. \<open>Panic\<close> is a run-time panic: the call does not
  return, so a site that handles an error must let a panic pass.
\<close>

datatype panic = NilDereference | IndexOutOfRange | TypeAssertion | NilMapWrite

datatype error =
  Errorf string | Wrap string error | External string | NotFound string | AlreadyExists string
| BadRequest string | Panic panic

type_synonym 'a res = "error + 'a"

fun is_panic :: "error \<Rightarrow> bool" where
  "is_panic (Panic p) = True"
| "is_panic e = False"

text \<open>\<open>fmt.Errorf("...: %v", err)\<close>; a panic of the callee is not wrapped, it passes through.\<close>

definition wrap :: "string \<Rightarrow> error \<Rightarrow> error" where
  "wrap msg e = (if is_panic e then e else Wrap msg e)"

text \<open>\<open>errors.IsNotFound\<close>; it looks at the status of an API error and not into a wrapped one.\<close>

fun IsNotFound :: "error \<Rightarrow> bool" where
  "IsNotFound (NotFound n) = True"
| "IsNotFound e = False"

abbreviation panics :: "'a res \<Rightarrow> bool" where
  "panics r \<equiv> (\<exists>p. r = Inl (Panic p))"

section \<open>Loops\<close>

text \<open>A \<open>for ... range\<close> loop that updates \<open>acc\<close> and may return early with an error.\<close>

fun for_each :: "('a \<Rightarrow> 'b \<Rightarrow> 'b res) \<Rightarrow> 'a list \<Rightarrow> 'b \<Rightarrow> 'b res" where
  "for_each body [] acc = Inr acc"
| "for_each body (x # xs) acc =
     (case body x acc of Inl err \<Rightarrow> Inl err | Inr acc' \<Rightarrow> for_each body xs acc')"

lemma for_each_append:
  "for_each body (xs @ ys) acc =
     (case for_each body xs acc of Inl err \<Rightarrow> Inl err | Inr acc' \<Rightarrow> for_each body ys acc')"
  by (induction xs arbitrary: acc) (auto split: sum.splits)

text \<open>The same loop over a state that is changed even when it returns early.\<close>

fun for_each_state :: "('a \<Rightarrow> 's \<Rightarrow> error option \<times> 's) \<Rightarrow> 'a list \<Rightarrow> 's \<Rightarrow> error option \<times> 's" where
  "for_each_state body [] s = (None, s)"
| "for_each_state body (x # xs) s =
     (case body x s of (Some err, s') \<Rightarrow> (Some err, s') | (None, s') \<Rightarrow> for_each_state body xs s')"

lemma for_each_ok:
  assumes "\<And>x acc. x \<in> set xs \<Longrightarrow> body x acc = Inr (f x acc)"
  shows "for_each body xs acc = Inr (foldl (\<lambda>acc x. f x acc) acc xs)"
  using assms by (induction xs arbitrary: acc) simp_all

section \<open>Package strings\<close>

definition HasPrefix :: "string \<Rightarrow> string \<Rightarrow> bool" where
  "HasPrefix s p \<longleftrightarrow> length p \<le> length s \<and> take (length p) s = p"

definition HasSuffix :: "string \<Rightarrow> string \<Rightarrow> bool" where
  "HasSuffix s p \<longleftrightarrow> length p \<le> length s \<and> drop (length s - length p) s = p"

definition TrimPrefix :: "string \<Rightarrow> string \<Rightarrow> string" where
  "TrimPrefix s p = (if HasPrefix s p then drop (length p) s else s)"

definition TrimSuffix :: "string \<Rightarrow> string \<Rightarrow> string" where
  "TrimSuffix s p = (if HasSuffix s p then take (length s - length p) s else s)"

fun Contains :: "string \<Rightarrow> string \<Rightarrow> bool" where
  "Contains [] p \<longleftrightarrow> p = []"
| "Contains (c # s) p \<longleftrightarrow> HasPrefix (c # s) p \<or> Contains s p"

text \<open>\<open>strings.Split(s, sep)\<close> for a separator of one byte, as every caller here has.\<close>

fun Split :: "string \<Rightarrow> char \<Rightarrow> string list" where
  "Split [] sep = [[]]"
| "Split (c # s) sep =
     (if c = sep then [] # Split s sep
      else (case Split s sep of [] \<Rightarrow> [[c]] | p # ps \<Rightarrow> (c # p) # ps))"

fun Join :: "string list \<Rightarrow> string \<Rightarrow> string" where
  "Join [] sep = []"
| "Join [p] sep = p"
| "Join (p # q # ps) sep = p @ sep @ Join (q # ps) sep"

lemma HasPrefix_append [simp, go_string]: "HasPrefix (p @ s) p"
  by (simp add: HasPrefix_def)

lemma HasSuffix_append [simp, go_string]: "HasSuffix (s @ p) p"
  by (simp add: HasSuffix_def)

lemma HasPrefix_iff: "HasPrefix s p \<longleftrightarrow> (\<exists>t. s = p @ t)"
proof
  assume "HasPrefix s p"
  then have "s = p @ drop (length p) s"
    by (metis HasPrefix_def append_take_drop_id)
  then show "\<exists>t. s = p @ t" by blast
qed auto

lemma HasSuffix_iff: "HasSuffix s p \<longleftrightarrow> (\<exists>t. s = t @ p)"
proof
  assume "HasSuffix s p"
  then have "s = take (length s - length p) s @ p"
    by (metis HasSuffix_def append_take_drop_id)
  then show "\<exists>t. s = t @ p" by blast
qed auto

lemma TrimPrefix_append [simp, go_string]: "TrimPrefix (p @ s) p = s"
  by (simp add: TrimPrefix_def)

lemma TrimSuffix_append [simp, go_string]: "TrimSuffix (s @ p) p = s"
  by (simp add: TrimSuffix_def)

lemma TrimSuffix_id [go_string]: "\<not> HasSuffix s p \<Longrightarrow> TrimSuffix s p = s"
  by (simp add: TrimSuffix_def)

lemma HasSuffix_singleton: "HasSuffix s [c] \<longleftrightarrow> s \<noteq> [] \<and> last s = c"
  by (auto simp: HasSuffix_iff) (metis append_butlast_last_id)

lemma TrimSuffix_singleton:
  "TrimSuffix s [c] = (if s \<noteq> [] \<and> last s = c then butlast s else s)"
  by (auto simp: TrimSuffix_def HasSuffix_singleton butlast_conv_take)

lemma Contains_iff: "Contains s p \<longleftrightarrow> (\<exists>u v. s = u @ p @ v)"
proof (induction s)
  case (Cons c s)
  show ?case
  proof
    assume "Contains (c # s) p"
    then consider t where "c # s = p @ t" | "Contains s p"
      by (auto simp: HasPrefix_iff)
    then show "\<exists>u v. c # s = u @ p @ v"
    proof cases
      case 1
      then show ?thesis by (intro exI [of _ "[]"] exI [of _ t]) simp
    next
      case 2
      with Cons.IH obtain u v where "s = u @ p @ v" by blast
      then have "c # s = (c # u) @ p @ v" by simp
      then show ?thesis by blast
    qed
  next
    assume "\<exists>u v. c # s = u @ p @ v"
    then obtain u v where uv: "c # s = u @ p @ v" by blast
    show "Contains (c # s) p"
    proof (cases u)
      case Nil
      with uv have "HasPrefix (c # s) p" by (auto simp: HasPrefix_iff)
      then show ?thesis by simp
    next
      case (Cons a u')
      with uv have "s = u' @ p @ v" by simp
      with Cons.IH show ?thesis by auto
    qed
  qed
qed simp

lemma Contains_char: "Contains s [c] \<longleftrightarrow> c \<in> set s"
  by (auto simp: Contains_iff in_set_conv_decomp)

lemma Contains_suffix: "HasSuffix s p \<Longrightarrow> Contains s p"
  by (metis Contains_iff HasSuffix_iff append_Nil2)

lemma Split_nonempty [simp]: "Split s sep \<noteq> []"
  by (cases s) (auto split: list.splits)

lemma Split_no_sep [go_string]: "sep \<notin> set s \<Longrightarrow> Split s sep = [s]"
  by (induction s) auto

lemma Split_append_sep [go_string]:
  "sep \<notin> set p \<Longrightarrow> Split (p @ sep # s) sep = p # Split s sep"
  by (induction p) auto

lemma Split_parts: "p \<in> set (Split s sep) \<Longrightarrow> sep \<notin> set p"
proof (induction s arbitrary: p)
  case (Cons c s)
  then show ?case
    by (cases "Split s sep") (auto split: if_splits)
qed simp

lemma length_Split: "length (Split s sep) = Suc (count_list s sep)"
proof (induction s)
  case (Cons c s)
  then show ?case by (cases "Split s sep") auto
qed simp

text \<open>The round trip between a joined value and its parts, in both directions.\<close>

lemma Join_Cons: "ps \<noteq> [] \<Longrightarrow> Join (p # ps) sep = p @ sep @ Join ps sep"
  by (cases ps) auto

lemma Join_Split [simp, go_string]: "Join (Split s sep) [sep] = s"
proof (induction s)
  case (Cons c s)
  show ?case
  proof (cases "Split s sep")
    case Nil
    then show ?thesis by simp
  next
    case (Cons p ps)
    with \<open>Join (Split s sep) [sep] = s\<close> show ?thesis
      by (cases ps) auto
  qed
qed simp

lemma Split_Join [go_string]:
  "ps \<noteq> [] \<Longrightarrow> (\<forall>p \<in> set ps. sep \<notin> set p) \<Longrightarrow> Split (Join ps [sep]) sep = ps"
proof (induction ps)
  case (Cons p ps)
  show ?case
  proof (cases ps)
    case Nil
    with Cons.prems show ?thesis by (simp add: Split_no_sep)
  next
    case (Cons q qs)
    with Cons.IH Cons.prems show ?thesis
      by (simp add: Join_Cons Split_append_sep)
  qed
qed simp

lemma set_Join: "set (Join ps sep) \<subseteq> (\<Union>p \<in> set ps. set p) \<union> set sep"
  by (induction ps sep rule: Join.induct) auto

section \<open>Package strconv\<close>

definition digit :: "nat \<Rightarrow> char" where
  "digit n = char_of (48 + n)"

fun Uitoa :: "nat \<Rightarrow> string" where
  "Uitoa n = (if n < 10 then [digit n] else Uitoa (n div 10) @ [digit (n mod 10)])"

declare Uitoa.simps [simp del]

definition FormatInt :: "int \<Rightarrow> string" where
  "FormatInt i = (if i < 0 then CHR ''-'' # Uitoa (nat (- i)) else Uitoa (nat i))"

definition Itoa :: "nat \<Rightarrow> string" where
  "Itoa n = FormatInt (int n)"

definition is_digit :: "char \<Rightarrow> bool" where
  "is_digit c \<longleftrightarrow> 48 \<le> (of_char c :: nat) \<and> (of_char c :: nat) \<le> 57"

fun digits_val :: "nat \<Rightarrow> string \<Rightarrow> nat option" where
  "digits_val n [] = Some n"
| "digits_val n (c # s) =
     (if is_digit c then digits_val (10 * n + (of_char c - 48)) s else None)"

definition ParseUint :: "string \<Rightarrow> nat option" where
  "ParseUint s = (if s = [] then None else digits_val 0 s)"

text \<open>\<open>strconv.ParseInt(s, 10, 64)\<close>: \<open>None\<close> for a syntax or a range error.\<close>

definition ParseInt :: "string \<Rightarrow> int option" where
  "ParseInt s =
     (case s of [] \<Rightarrow> None
      | c # t \<Rightarrow>
          (let neg = (c = CHR ''-'');
               u = (if c = CHR ''-'' \<or> c = CHR ''+'' then t else s)
           in case ParseUint u of None \<Rightarrow> None
              | Some n \<Rightarrow>
                  if neg then (if n \<le> 2 ^ 63 then Some (- int n) else None)
                  else (if n < 2 ^ 63 then Some (int n) else None)))"

lemma of_char_digit [simp]: "n < 10 \<Longrightarrow> (of_char (digit n) :: nat) = 48 + n"
  by (simp add: digit_def)

lemma is_digit_digit [simp]: "n < 10 \<Longrightarrow> is_digit (digit n)"
  by (simp add: is_digit_def)

lemma digits_val_append:
  "digits_val n (s @ t) = (case digits_val n s of None \<Rightarrow> None | Some m \<Rightarrow> digits_val m t)"
  by (induction n s rule: digits_val.induct) auto

lemma Uitoa_nonempty [simp]: "Uitoa n \<noteq> []"
  by (subst Uitoa.simps) simp

lemma digits_val_Uitoa [simp]: "digits_val 0 (Uitoa n) = Some n"
proof (induction n rule: Uitoa.induct)
  case (1 n)
  show ?case
  proof (cases "n < 10")
    case True
    then show ?thesis by (subst Uitoa.simps) simp
  next
    case False
    with "1.IH" have "digits_val 0 (Uitoa (n div 10)) = Some (n div 10)" by simp
    with False show ?thesis
      by (subst Uitoa.simps) (simp add: digits_val_append)
  qed
qed

lemma Uitoa_digits: "c \<in> set (Uitoa n) \<Longrightarrow> is_digit c"
proof (induction n rule: Uitoa.induct)
  case (1 n)
  then show ?case
    by (cases "n < 10") (auto simp: Uitoa.simps [of n])
qed

lemma is_digit_not_sign: "is_digit c \<Longrightarrow> c \<noteq> CHR ''-'' \<and> c \<noteq> CHR ''+''"
  by (auto simp: is_digit_def)

lemma Uitoa_ParseUint [simp]: "ParseUint (Uitoa n) = Some n"
  by (simp add: ParseUint_def)

lemma ParseInt_Uitoa: "n < 2 ^ 63 \<Longrightarrow> ParseInt (Uitoa n) = Some (int n)"
proof (cases "Uitoa n")
  case (Cons c t)
  assume "n < 2 ^ 63"
  moreover from Cons have "is_digit c" using Uitoa_digits [of c n] by simp
  then have "c \<noteq> CHR ''-''" and "c \<noteq> CHR ''+''" using is_digit_not_sign by blast+
  moreover from Cons have "ParseUint (c # t) = Some n"
    by (metis Uitoa_ParseUint)
  ultimately show ?thesis
    by (simp add: ParseInt_def Cons Let_def)
qed simp

text \<open>Formatting and parsing a 64-bit integer is the identity on its range.\<close>

lemma ParseInt_FormatInt [go_string]:
  assumes "- (2 ^ 63) \<le> i" and "i < 2 ^ 63"
  shows "ParseInt (FormatInt i) = Some i"
proof (cases "i < 0")
  case True
  with assms(1) have "nat (- i) \<le> 2 ^ 63" by (simp add: nat_le_iff)
  with True show ?thesis
    by (simp add: FormatInt_def ParseInt_def Let_def)
next
  case False
  with assms(2) have "nat i < 2 ^ 63" by (simp add: nat_less_iff)
  with False show ?thesis
    by (simp add: FormatInt_def ParseInt_Uitoa)
qed

lemma FormatInt_digits: "0 \<le> i \<Longrightarrow> c \<in> set (FormatInt i) \<Longrightarrow> is_digit c"
  by (auto simp: FormatInt_def dest: Uitoa_digits)

lemma FormatInt_nonempty [simp]: "FormatInt i \<noteq> []"
  by (simp add: FormatInt_def)

text \<open>A time to live that is a non-negative \<open>int64\<close>.\<close>

definition ttl_ok :: "int \<Rightarrow> bool" where
  "ttl_ok t \<longleftrightarrow> 0 \<le> t \<and> t < 2 ^ 63"

section \<open>Package sets: sets of strings\<close>

text \<open>
  \<open>sets.String\<close> is a map with empty values, that is a set; \<open>List\<close> returns its
  elements sorted.
\<close>

type_synonym string_set = "string set"

definition NewString :: "string list \<Rightarrow> string_set" where
  "NewString items = set items"

definition Union_sets :: "string_set \<Rightarrow> string_set \<Rightarrow> string_set" where
  "Union_sets s1 s2 = s1 \<union> s2"

definition List_set :: "string_set \<Rightarrow> string list" where
  "List_set s = sorted_list_of_set s"

lemma List_set_set [simp]: "finite s \<Longrightarrow> set (List_set s) = s"
  by (simp add: List_set_def)

lemma List_set_distinct [simp]: "distinct (List_set s)"
  by (simp add: List_set_def)

lemma List_set_sorted [simp]: "sorted (List_set s)"
  by (simp add: List_set_def)

lemma List_set_Nil_iff [simp]: "finite s \<Longrightarrow> List_set s = [] \<longleftrightarrow> s = {}"
  by (simp add: List_set_def)

lemma List_set_exec: "List_set (set xs) = sort (remdups xs)"
  by (simp add: List_set_def sorted_list_of_set_sort_remdups)

section \<open>Association lists standing for Go maps\<close>

text \<open>
  A Go map that the code iterates over is an association list: its order is one order in
  which \<open>range\<close> may visit the entries. Insertion under a key that is present replaces
  the value, deletion drops the entry.
\<close>

fun map_put :: "'k \<Rightarrow> 'v \<Rightarrow> ('k \<times> 'v) list \<Rightarrow> ('k \<times> 'v) list" where
  "map_put k v [] = [(k, v)]"
| "map_put k v ((k', v') # m) = (if k = k' then (k, v) # m else (k', v') # map_put k v m)"

definition map_del :: "'k \<Rightarrow> ('k \<times> 'v) list \<Rightarrow> ('k \<times> 'v) list" where
  "map_del k m = filter (\<lambda>e. fst e \<noteq> k) m"

abbreviation keys_distinct :: "('k \<times> 'v) list \<Rightarrow> bool" where
  "keys_distinct m \<equiv> distinct (map fst m)"

lemma map_of_map_put [simp]: "map_of (map_put k v m) = (map_of m)(k \<mapsto> v)"
  by (induction k v m rule: map_put.induct) auto

lemma map_of_map_del [simp]: "map_of (map_del k m) = (map_of m)(k := None)"
  by (induction m) (auto simp: map_del_def)

lemma fst_set_map_put [simp]: "fst ` set (map_put k v m) = insert k (fst ` set m)"
  by (induction k v m rule: map_put.induct) auto

lemma keys_distinct_put [simp]: "keys_distinct m \<Longrightarrow> keys_distinct (map_put k v m)"
  by (induction k v m rule: map_put.induct) auto

lemma keys_distinct_del [simp]: "keys_distinct m \<Longrightarrow> keys_distinct (map_del k m)"
  by (auto simp: map_del_def distinct_map intro: inj_on_subset)

lemma set_map_putD: "e \<in> set (map_put k v m) \<Longrightarrow> e = (k, v) \<or> e \<in> set m"
  by (induction k v m rule: map_put.induct) (auto split: if_splits)

lemma set_map_put_fresh: "k \<notin> fst ` set m \<Longrightarrow> set (map_put k v m) = insert (k, v) (set m)"
  by (induction k v m rule: map_put.induct) auto

lemma set_map_del [simp]: "set (map_del k m) = {e \<in> set m. fst e \<noteq> k}"
  by (auto simp: map_del_def)

end
