(* ===== verification/Kube_Types.thy ===== *)
theory Kube_Types
  imports Go_Prelude
begin

text \<open>
  The API objects both controllers work on (ingresses, clusters, config maps), with the
  fields the code reads, copies or compares, and the metadata functions of
  \<open>federation-controller/util/meta.go\<close>. A Go map is an association list with distinct
  keys; its order is an order in which \<open>range\<close> visits it. Where the code cannot tell a
  nil map from an empty one (labels, annotations) both are the empty list; where it can
  (the data of a config map, the zones of a cluster) the field is an option.
\<close>

section \<open>Metadata\<close>

type_synonym str_map = "(string \<times> string) list"

record ObjectMeta =
  omName :: string
  omGenerateName :: string
  omNamespace :: string
  omSelfLink :: string
  omUID :: string
  omResourceVersion :: string
  omGeneration :: int
  omCreationTimestamp :: string
  omDeletionTimestamp :: "string option"
  omDeletionGracePeriodSeconds :: "int option"
  omLabels :: str_map
  omAnnotations :: str_map
  omOwnerReferences :: "string list"
  omInitializers :: "string option"
  omFinalizers :: "string list"
  omClusterName :: string

definition zeroMeta :: ObjectMeta where
  "zeroMeta =
     \<lparr>omName = [], omGenerateName = [], omNamespace = [], omSelfLink = [], omUID = [],
      omResourceVersion = [], omGeneration = 0, omCreationTimestamp = [],
      omDeletionTimestamp = None, omDeletionGracePeriodSeconds = None, omLabels = [],
      omAnnotations = [], omOwnerReferences = [], omInitializers = None, omFinalizers = [],
      omClusterName = []\<rparr>"

text \<open>\<open>types.NamespacedName\<close> and its rendering, the key of the stores and deliverers.\<close>

record NamespacedName =
  nnNamespace :: string
  nnName :: string

definition nnString :: "NamespacedName \<Rightarrow> string" where
  "nnString n = nnNamespace n @ ''/'' @ nnName n"

definition nsName :: "ObjectMeta \<Rightarrow> NamespacedName" where
  "nsName m = \<lparr>nnNamespace = omNamespace m, nnName = omName m\<rparr>"

section \<open>Ingresses\<close>

record LoadBalancerIngress =
  lbIP :: string
  lbHostname :: string

record LoadBalancerStatus =
  lbsIngress :: "LoadBalancerIngress list"

datatype IntOrString = IntPort int | StrPort string

record IngressBackend =
  beServiceName :: string
  beServicePort :: IntOrString

record IngressTLS =
  tlsHosts :: "string list"
  tlsSecretName :: string

record HTTPIngressPath =
  hpPath :: string
  hpBackend :: IngressBackend

record IngressRule =
  irHost :: string
  irHTTP :: "HTTPIngressPath list option"

record IngressSpec =
  isBackend :: "IngressBackend option"
  isTLS :: "IngressTLS list"
  isRules :: "IngressRule list"

definition zeroSpec :: IngressSpec where
  "zeroSpec = \<lparr>isBackend = None, isTLS = [], isRules = []\<rparr>"

record Ingress =
  inMeta :: ObjectMeta
  inSpec :: IngressSpec
  inStatus :: LoadBalancerStatus

definition zeroIngress :: Ingress where
  "zeroIngress = \<lparr>inMeta = zeroMeta, inSpec = zeroSpec, inStatus = \<lparr>lbsIngress = []\<rparr>\<rparr>"

section \<open>Clusters and config maps\<close>

record ClusterCondition =
  ccType :: string
  ccStatus :: string

record ClusterSpec =
  csServerAddresses :: "(string \<times> string) list"
  csSecretRef :: "string option"

record Cluster =
  clMeta :: ObjectMeta
  clSpec :: ClusterSpec
  clConditions :: "ClusterCondition list"
  clZones :: "string list option"
  clRegion :: string

record ConfigMap =
  cmMeta :: ObjectMeta
  cmData :: "str_map option"

section \<open>Maps of strings\<close>

text \<open>\<open>reflect.DeepEqual\<close> on two maps, and the loop that copies one map over another.\<close>

definition map_eq :: "str_map \<Rightarrow> str_map \<Rightarrow> bool" where
  "map_eq a b \<longleftrightarrow> list_all (\<lambda>k. map_of a k = map_of b k) (map fst a @ map fst b)"

definition map_merge :: "str_map \<Rightarrow> str_map \<Rightarrow> str_map" where
  "map_merge dst src = foldl (\<lambda>m (k, v). map_put k v m) dst src"

lemma map_eq_iff: "map_eq a b \<longleftrightarrow> map_of a = map_of b"
proof
  assume eq: "map_eq a b"
  show "map_of a = map_of b"
  proof
    fix k
    show "map_of a k = map_of b k"
    proof (cases "k \<in> fst ` set a \<union> fst ` set b")
      case True
      with eq show ?thesis by (auto simp: map_eq_def list_all_iff)
    next
      case False
      then show ?thesis by (simp add: map_of_eq_None_iff [THEN iffD2])
    qed
  qed
qed (simp add: map_eq_def list_all_iff)

lemma map_of_map_merge:
  "keys_distinct src \<Longrightarrow> map_of (map_merge dst src) = map_of dst ++ map_of src"
proof (induction src arbitrary: dst)
  case (Cons e src)
  obtain k v where "e = (k, v)" by fastforce
  moreover from this Cons.prems have "k \<notin> dom (map_of src)" by (auto simp: dom_map_of_conv_image_fst)
  moreover have "map_merge dst (e # src) = map_merge (map_put (fst e) (snd e) dst) src"
    by (simp add: map_merge_def split_beta)
  ultimately show ?case
    using Cons by (auto simp: fun_eq_iff map_add_def dom_def split: option.splits)
qed (simp add: map_merge_def)

lemma keys_distinct_map_merge: "keys_distinct dst \<Longrightarrow> keys_distinct (map_merge dst src)"
proof (induction src arbitrary: dst)
  case (Cons e src)
  then show ?case
    using keys_distinct_put [of dst "fst e" "snd e"] by (auto simp: map_merge_def split_beta)
qed (simp add: map_merge_def)

section \<open>federation-controller/util/meta.go\<close>

definition copyObjectMeta :: "ObjectMeta \<Rightarrow> ObjectMeta" where
  "copyObjectMeta obj =
     zeroMeta\<lparr>omName := omName obj, omNamespace := omNamespace obj, omLabels := omLabels obj,
       omAnnotations := omAnnotations obj\<rparr>"

definition DeepCopyRelevantObjectMeta :: "ObjectMeta \<Rightarrow> ObjectMeta" where
  "DeepCopyRelevantObjectMeta obj =
     (copyObjectMeta obj)\<lparr>omLabels := map_merge [] (omLabels obj),
       omAnnotations := map_merge [] (omAnnotations obj)\<rparr>"

definition ObjectMetaEquivalent :: "ObjectMeta \<Rightarrow> ObjectMeta \<Rightarrow> bool" where
  "ObjectMetaEquivalent a b \<longleftrightarrow>
     (if omName a \<noteq> omName b then False
      else if omNamespace a \<noteq> omNamespace b then False
      else if \<not> map_eq (omLabels a) (omLabels b) \<and>
        (length (omLabels a) \<noteq> 0 \<or> length (omLabels b) \<noteq> 0) then False
      else if \<not> map_eq (omAnnotations a) (omAnnotations b) \<and>
        (length (omAnnotations a) \<noteq> 0 \<or> length (omAnnotations b) \<noteq> 0) then False
      else True)"

definition ObjectMetaAndSpecEquivalent :: "Ingress \<Rightarrow> Ingress \<Rightarrow> bool" where
  "ObjectMetaAndSpecEquivalent a b \<longleftrightarrow>
     ObjectMetaEquivalent (inMeta a) (inMeta b) \<and> inSpec a = inSpec b"

text \<open>The user's view of metadata; two objects are equivalent when they agree on it.\<close>

definition user_meta ::
  "ObjectMeta \<Rightarrow> string \<times> string \<times> (string \<rightharpoonup> string) \<times> (string \<rightharpoonup> string)" where
  "user_meta m = (omName m, omNamespace m, map_of (omLabels m), map_of (omAnnotations m))"

lemma ObjectMetaEquivalent_iff: "ObjectMetaEquivalent a b \<longleftrightarrow> user_meta a = user_meta b"
  by (auto simp: ObjectMetaEquivalent_def user_meta_def map_eq_iff)

lemma DeepCopyRelevantObjectMeta_user:
  assumes "keys_distinct (omLabels m)" and "keys_distinct (omAnnotations m)"
  shows "user_meta (DeepCopyRelevantObjectMeta m) = user_meta m"
  using assms
  by (simp add: user_meta_def DeepCopyRelevantObjectMeta_def copyObjectMeta_def map_of_map_merge)

lemma DeepCopyRelevantObjectMeta_server:
  "omUID (DeepCopyRelevantObjectMeta m) = [] \<and> omResourceVersion (DeepCopyRelevantObjectMeta m) = []
   \<and> omFinalizers (DeepCopyRelevantObjectMeta m) = []
   \<and> omDeletionTimestamp (DeepCopyRelevantObjectMeta m) = None"
  by (simp add: DeepCopyRelevantObjectMeta_def copyObjectMeta_def zeroMeta_def)

section \<open>Keys\<close>

text \<open>The key of an object in a store (\<open>MetaNamespaceKeyFunc\<close>).\<close>

definition MetaNamespaceKey :: "ObjectMeta \<Rightarrow> string" where
  "MetaNamespaceKey m =
     (if length (omNamespace m) > 0 then omNamespace m @ ''/'' @ omName m else omName m)"

lemma MetaNamespaceKey_nsName:
  "omNamespace m \<noteq> [] \<Longrightarrow> MetaNamespaceKey m = nnString (nsName m)"
  by (simp add: MetaNamespaceKey_def nnString_def nsName_def)

text \<open>The key of a namespaced name determines it: namespaces hold no slash.\<close>

lemma nnString_inj:
  assumes "CHR ''/'' \<notin> set (nnNamespace a)" and "CHR ''/'' \<notin> set (nnNamespace b)"
    and "nnString a = nnString b"
  shows "nnNamespace a = nnNamespace b \<and> nnName a = nnName b"
proof -
  have "takeWhile (\<lambda>c. c \<noteq> CHR ''/'') (nnString n) = nnNamespace n"
    if "CHR ''/'' \<notin> set (nnNamespace n)" for n
    using that by (auto simp: nnString_def takeWhile_append)
  with assms have "nnNamespace a = nnNamespace b" by metis
  with assms(3) show ?thesis by (simp add: nnString_def)
qed

end
