(* ===== verification/Federated_Informer.thy ===== *)
theory Federated_Informer
  imports Kube_Types
begin

text \<open>
  The federated informer of \<open>federation-controller/util/federated_informer.go\<close>: a store of
  the clusters of the federation and, for each ready cluster, an informer that mirrors the
  objects of one kind in it. The stores are what the controllers read instead of the API
  servers. The client of a cluster and the informer created for it are arguments
  (\<open>clientFactory\<close>, \<open>targetInformerFactory\<close>), as they are in the code. Every method takes the
  lock of the informer for its whole body, so a method is one step.
\<close>

section \<open>State\<close>

record 'o informer =
  infStore :: "(string \<times> 'o) list"
  infHasSynced :: bool

record ('c, 'o) federatedInformer =
  clusterStore :: "(string \<times> Cluster) list"
  clusterHasSynced :: bool
  targetInformerFactory :: "Cluster \<Rightarrow> 'c \<Rightarrow> 'o informer"
  targetInformers :: "(string \<times> 'o informer) list"
  clientFactory :: "Cluster \<Rightarrow> 'c res"

abbreviation clName :: "Cluster \<Rightarrow> string" where
  "clName c \<equiv> omName (clMeta c)"

definition isClusterReady :: "Cluster \<Rightarrow> bool" where
  "isClusterReady cluster \<longleftrightarrow>
     list_ex (\<lambda>condition. ccType condition = ''Ready'' \<and> ccStatus condition = ''True'') (clConditions cluster)"

section \<open>The view of the federation\<close>

text \<open>
  The cluster store holds clusters only, so the error that the code returns for an item of
  another type does not occur; the callers handle it all the same.
\<close>

definition GetUnreadyClusters :: "('c, 'o) federatedInformer \<Rightarrow> Cluster list res" where
  "GetUnreadyClusters f = Inr (filter (\<lambda>c. \<not> isClusterReady c) (map snd (clusterStore f)))"

definition GetReadyClusters :: "('c, 'o) federatedInformer \<Rightarrow> Cluster list res" where
  "GetReadyClusters f = Inr (filter isClusterReady (map snd (clusterStore f)))"

definition GetReadyCluster :: "('c, 'o) federatedInformer \<Rightarrow> string \<Rightarrow> Cluster option res" where
  "GetReadyCluster f name =
     (case map_of (clusterStore f) name of
        Some cluster \<Rightarrow> Inr (if isClusterReady cluster then Some cluster else None)
      | None \<Rightarrow> Inr None)"

definition GetClientsetForCluster :: "('c, 'o) federatedInformer \<Rightarrow> string \<Rightarrow> 'c res" where
  "GetClientsetForCluster f clusterName =
     (case GetReadyCluster f clusterName of
        Inl err \<Rightarrow> Inl err
      | Inr (Some cluster) \<Rightarrow> clientFactory f cluster
      | Inr None \<Rightarrow> Inl (Errorf (''cluster '' @ clusterName @ '' not found'')))"

definition addCluster :: "Cluster \<Rightarrow> ('c, 'o) federatedInformer \<Rightarrow> ('c, 'o) federatedInformer" where
  "addCluster cluster f =
     (let name = clName cluster in
      case GetClientsetForCluster f name of
        Inr client \<Rightarrow>
          f\<lparr>targetInformers := map_put name (targetInformerFactory f cluster client) (targetInformers f)\<rparr>
      | Inl err \<Rightarrow> f)"

definition deleteCluster :: "Cluster \<Rightarrow> ('c, 'o) federatedInformer \<Rightarrow> ('c, 'o) federatedInformer" where
  "deleteCluster cluster f = f\<lparr>targetInformers := map_del (clName cluster) (targetInformers f)\<rparr>"

definition stopInformer :: "('c, 'o) federatedInformer \<Rightarrow> ('c, 'o) federatedInformer" where
  "stopInformer f = f\<lparr>targetInformers := []\<rparr>"

section \<open>The store over all clusters\<close>

definition listTargets :: "('c, 'o) federatedInformer \<Rightarrow> (string \<times> 'o) list" where
  "listTargets f =
     concat (map (\<lambda>(clusterName, tinf). map (\<lambda>(k, value). (clusterName, value)) (infStore tinf)) (targetInformers f))"

definition ListFromCluster :: "('c, 'o) federatedInformer \<Rightarrow> string \<Rightarrow> 'o list" where
  "ListFromCluster f clusterName =
     (case map_of (targetInformers f) clusterName of
        Some tinf \<Rightarrow> map snd (infStore tinf)
      | None \<Rightarrow> [])"

definition GetByKey :: "('c, 'o) federatedInformer \<Rightarrow> string \<Rightarrow> string \<Rightarrow> 'o option res" where
  "GetByKey f clusterName key =
     (case map_of (targetInformers f) clusterName of
        Some tinf \<Rightarrow> Inr (map_of (infStore tinf) key)
      | None \<Rightarrow> Inr None)"

definition GetFromAllClusters :: "('c, 'o) federatedInformer \<Rightarrow> string \<Rightarrow> (string \<times> 'o) list res" where
  "GetFromAllClusters f key =
     Inr (List.map_filter
       (\<lambda>(clusterName, tinf). map_option (\<lambda>value. (clusterName, value)) (map_of (infStore tinf) key))
       (targetInformers f))"

fun informersToCheck :: "('c, 'o) federatedInformer \<Rightarrow> Cluster list \<Rightarrow> 'o informer list option" where
  "informersToCheck f [] = Some []"
| "informersToCheck f (cluster # clusters) =
     (case map_of (targetInformers f) (clName cluster) of
        Some tinf \<Rightarrow> map_option (Cons tinf) (informersToCheck f clusters)
      | None \<Rightarrow> None)"

definition ClustersSynced :: "('c, 'o) federatedInformer \<Rightarrow> Cluster list \<Rightarrow> bool" where
  "ClustersSynced f clusters \<longleftrightarrow>
     (if length (targetInformers f) \<noteq> length clusters then False
      else case informersToCheck f clusters of
        None \<Rightarrow> False
      | Some infs \<Rightarrow> list_all infHasSynced infs)"

section \<open>Cluster events\<close>

text \<open>
  A change of a cluster reaches the informer as a delta. A deletion that was missed by the
  watch is reported by a \<open>DeletedFinalStateUnknown\<close> object, which is not a cluster. The store
  is updated before the handler runs (\<open>cache.NewInformer\<close>). The callbacks of the owner of the
  informer act on its state \<open>'s\<close>; one of them may be nil.
\<close>

datatype 'o deleted = Deleted 'o | DeletedFinalStateUnknown string "'o option"

datatype 'o delta = Sync 'o | Removed "'o deleted"

record ('o, 's) ClusterLifecycleHandlerFuncs =
  ClusterAvailable :: "(Cluster \<Rightarrow> 's \<Rightarrow> 's) option"
  ClusterUnavailable :: "(Cluster \<Rightarrow> 'o list \<Rightarrow> 's \<Rightarrow> 's) option"

definition notifyAvailable ::
  "('o, 's) ClusterLifecycleHandlerFuncs \<Rightarrow> Cluster \<Rightarrow> 's \<Rightarrow> 's" where
  "notifyAvailable h cluster s = (case ClusterAvailable h of None \<Rightarrow> s | Some callback \<Rightarrow> callback cluster s)"

definition removeAndNotify ::
  "('o, 's) ClusterLifecycleHandlerFuncs \<Rightarrow> Cluster \<Rightarrow> ('c, 'o) federatedInformer \<times> 's
   \<Rightarrow> ('c, 'o) federatedInformer \<times> 's" where
  "removeAndNotify h oldCluster = (\<lambda>(f, s).
     let oldData = ListFromCluster f (clName oldCluster);
         f' = deleteCluster oldCluster f
     in (f', case ClusterUnavailable h of None \<Rightarrow> s | Some callback \<Rightarrow> callback oldCluster oldData s))"

definition addAndNotify ::
  "('o, 's) ClusterLifecycleHandlerFuncs \<Rightarrow> Cluster \<Rightarrow> ('c, 'o) federatedInformer \<times> 's
   \<Rightarrow> ('c, 'o) federatedInformer \<times> 's" where
  "addAndNotify h curCluster = (\<lambda>(f, s). (addCluster curCluster f, notifyAvailable h curCluster s))"

definition clusterDeleteFunc ::
  "('o, 's) ClusterLifecycleHandlerFuncs \<Rightarrow> Cluster deleted \<Rightarrow> ('c, 'o) federatedInformer \<times> 's
   \<Rightarrow> ('c, 'o) federatedInformer \<times> 's" where
  "clusterDeleteFunc h old fs =
     (case old of Deleted oldCluster \<Rightarrow> removeAndNotify h oldCluster fs | DeletedFinalStateUnknown k v \<Rightarrow> fs)"

definition clusterAddFunc ::
  "('o, 's) ClusterLifecycleHandlerFuncs \<Rightarrow> Cluster \<Rightarrow> ('c, 'o) federatedInformer \<times> 's
   \<Rightarrow> ('c, 'o) federatedInformer \<times> 's" where
  "clusterAddFunc h curCluster fs = (if isClusterReady curCluster then addAndNotify h curCluster fs else fs)"

definition clusterUpdateFunc ::
  "('o, 's) ClusterLifecycleHandlerFuncs \<Rightarrow> Cluster \<Rightarrow> Cluster \<Rightarrow> ('c, 'o) federatedInformer \<times> 's
   \<Rightarrow> ('c, 'o) federatedInformer \<times> 's" where
  "clusterUpdateFunc h oldCluster curCluster fs =
     (if isClusterReady oldCluster \<noteq> isClusterReady curCluster \<or> clSpec oldCluster \<noteq> clSpec curCluster \<or>
         \<not> map_eq (omAnnotations (clMeta oldCluster)) (omAnnotations (clMeta curCluster))
      then
        let fs' = removeAndNotify h oldCluster fs
        in if isClusterReady curCluster then addAndNotify h curCluster fs' else fs'
      else fs)"

definition processClusterDelta ::
  "('o, 's) ClusterLifecycleHandlerFuncs \<Rightarrow> Cluster delta \<Rightarrow> ('c, 'o) federatedInformer \<times> 's
   \<Rightarrow> ('c, 'o) federatedInformer \<times> 's" where
  "processClusterDelta h d = (\<lambda>(f, s).
     case d of
       Sync cluster \<Rightarrow>
         let f' = f\<lparr>clusterStore := map_put (clName cluster) cluster (clusterStore f)\<rparr>
         in (case map_of (clusterStore f) (clName cluster) of
               Some old \<Rightarrow> clusterUpdateFunc h old cluster (f', s)
             | None \<Rightarrow> clusterAddFunc h cluster (f', s))
     | Removed old \<Rightarrow>
         let k = (case old of Deleted c \<Rightarrow> clName c | DeletedFinalStateUnknown k v \<Rightarrow> k)
         in clusterDeleteFunc h old (f\<lparr>clusterStore := map_del k (clusterStore f)\<rparr>, s))"

text \<open>A change of an object in a member cluster, as the informer of that cluster stores it.\<close>

definition targetSync ::
  "string \<Rightarrow> string \<Rightarrow> 'o option \<Rightarrow> ('c, 'o) federatedInformer \<Rightarrow> ('c, 'o) federatedInformer" where
  "targetSync clusterName key obj f =
     (case map_of (targetInformers f) clusterName of
        None \<Rightarrow> f
      | Some tinf \<Rightarrow>
          f\<lparr>targetInformers := map_put clusterName
            (tinf\<lparr>infStore := (case obj of Some v \<Rightarrow> map_put key v (infStore tinf) | None \<Rightarrow> map_del key (infStore tinf))\<rparr>)
            (targetInformers f)\<rparr>)"

section \<open>The informers follow the ready clusters\<close>

definition inf_wf :: "('c, 'o) federatedInformer \<Rightarrow> bool" where
  "inf_wf f \<longleftrightarrow> keys_distinct (clusterStore f) \<and> keys_distinct (targetInformers f) \<and>
     (\<forall>(name, c) \<in> set (clusterStore f). clName c = name)"

abbreviation readyList :: "('c, 'o) federatedInformer \<Rightarrow> Cluster list" where
  "readyList f \<equiv> filter isClusterReady (map snd (clusterStore f))"

text \<open>The clusters that should have an informer: ready ones for which there is a client.\<close>

definition served :: "('c, 'o) federatedInformer \<Rightarrow> string set" where
  "served f = {name. \<exists>c cl. map_of (clusterStore f) name = Some c \<and> isClusterReady c \<and> clientFactory f c = Inr cl}"

definition inf_inv :: "('c, 'o) federatedInformer \<Rightarrow> bool" where
  "inf_inv f \<longleftrightarrow> inf_wf f \<and> fst ` set (targetInformers f) = served f"

text \<open>Whether a client can be built for a cluster depends on the cluster's specification.\<close>

definition client_by_spec :: "('c, 'o) federatedInformer \<Rightarrow> bool" where
  "client_by_spec f \<longleftrightarrow> (\<forall>c c'. clSpec c = clSpec c' \<longrightarrow> isl (clientFactory f c) = isl (clientFactory f c'))"

lemma isl_iff: "isl r \<longleftrightarrow> (\<nexists>v. r = Inr v)"
  by (cases r) auto

lemma map_of_eq_mem: "keys_distinct m \<Longrightarrow> map_of m k = Some v \<longleftrightarrow> (k, v) \<in> set m"
  by (auto dest: map_of_SomeD)

lemma readyList_names:
  assumes "inf_wf f"
  shows "distinct (map clName (readyList f))"
    and "clName ` set (readyList f) = {name. \<exists>c. map_of (clusterStore f) name = Some c \<and> isClusterReady c}"
proof -
  have names: "\<forall>e \<in> set (clusterStore f). clName (snd e) = fst e"
    and d: "keys_distinct (clusterStore f)" using assms by (auto simp: inf_wf_def)
  have "map clName (readyList f) = map fst (filter (isClusterReady \<circ> snd) (clusterStore f))"
    using names by (simp add: filter_map)
  moreover have "distinct (map fst (filter (isClusterReady \<circ> snd) (clusterStore f)))"
    using d by (rule distinct_map_filter)
  ultimately show "distinct (map clName (readyList f))" by simp
  show "clName ` set (readyList f) = {name. \<exists>c. map_of (clusterStore f) name = Some c \<and> isClusterReady c}"
    using names d by (force simp: map_of_eq_mem image_iff)
qed

lemma informersToCheck_eq:
  "informersToCheck f clusters =
     (if set (map clName clusters) \<subseteq> fst ` set (targetInformers f)
      then Some (map (\<lambda>c. the (map_of (targetInformers f) (clName c))) clusters) else None)"
proof (induction clusters)
  case (Cons c clusters)
  show ?case
  proof (cases "map_of (targetInformers f) (clName c)")
    case None
    moreover from this have "clName c \<notin> fst ` set (targetInformers f)" by (simp add: map_of_eq_None_iff)
    ultimately show ?thesis by simp
  next
    case (Some i)
    moreover from this have "clName c \<in> fst ` set (targetInformers f)"
      by (metis map_of_eq_None_iff option.distinct(1))
    ultimately show ?thesis using Cons.IH by simp
  qed
qed simp

text \<open>
  The stores count as synced when there is an informer for exactly the given clusters and all
  of these have synced.
\<close>

lemma ClustersSynced_iff:
  assumes "keys_distinct (targetInformers f)" and "distinct (map clName clusters)"
  shows "ClustersSynced f clusters \<longleftrightarrow>
    clName ` set clusters = fst ` set (targetInformers f) \<and>
    (\<forall>(name, i) \<in> set (targetInformers f). infHasSynced i)"
proof -
  let ?T = "fst ` set (targetInformers f)" and ?C = "clName ` set clusters"
  have lens: "length (targetInformers f) = card ?T" "length clusters = card ?C"
    using assms by (metis distinct_card length_map list.set_map)+
  have sub: "?C \<subseteq> ?T \<and> card ?T = card ?C \<longleftrightarrow> ?C = ?T"
    by (metis List.finite_set card_subset_eq finite_imageI order_refl)
  have synced: "list_all infHasSynced (map (\<lambda>c. the (map_of (targetInformers f) (clName c))) clusters) \<longleftrightarrow>
      (\<forall>(name, i) \<in> set (targetInformers f). infHasSynced i)" if "?C = ?T"
  proof -
    have "\<forall>name \<in> ?T. \<exists>i. map_of (targetInformers f) name = Some i"
      by (metis map_of_eq_None_iff not_None_eq)
    then have "(\<forall>(name, i) \<in> set (targetInformers f). infHasSynced i) \<longleftrightarrow>
        (\<forall>name \<in> ?T. infHasSynced (the (map_of (targetInformers f) name)))"
      using assms(1) by (force simp: map_of_eq_mem)
    then show ?thesis unfolding that [symmetric] by (simp add: list_all_iff)
  qed
  show ?thesis
  proof (cases "?C = ?T")
    case True
    then show ?thesis using lens synced [OF True] by (simp add: ClustersSynced_def informersToCheck_eq)
  next
    case False
    then show ?thesis using lens sub by (auto simp: ClustersSynced_def informersToCheck_eq split: if_splits)
  qed
qed

section \<open>Sequences of cluster events\<close>

definition processClusterDeltas ::
  "('o, 's) ClusterLifecycleHandlerFuncs \<Rightarrow> Cluster delta list \<Rightarrow> ('c, 'o) federatedInformer \<times> 's
   \<Rightarrow> ('c, 'o) federatedInformer \<times> 's" where
  "processClusterDeltas h ds fs = foldl (\<lambda>fs d. processClusterDelta h d fs) fs ds"

fun deltaKey :: "Cluster delta \<Rightarrow> string" where
  "deltaKey (Sync c) = clName c"
| "deltaKey (Removed (Deleted c)) = clName c"
| "deltaKey (Removed (DeletedFinalStateUnknown k v)) = k"

fun observed :: "Cluster delta \<Rightarrow> bool" where
  "observed (Removed (DeletedFinalStateUnknown k v)) = False"
| "observed d = True"

text \<open>What one event does to the informer, without the callbacks.\<close>

definition stepInformer :: "Cluster delta \<Rightarrow> ('c, 'o) federatedInformer \<Rightarrow> ('c, 'o) federatedInformer" where
  "stepInformer d f = fst (processClusterDelta \<lparr>ClusterAvailable = None, ClusterUnavailable = None\<rparr> d (f, ()))"

lemma fst_processClusterDelta: "fst (processClusterDelta h d (f, s)) = stepInformer d f"
  by (cases d)
    (auto simp: stepInformer_def processClusterDelta_def clusterUpdateFunc_def clusterAddFunc_def
      clusterDeleteFunc_def removeAndNotify_def addAndNotify_def Let_def split: option.splits deleted.splits)

lemma fst_processClusterDeltas:
  "fst (processClusterDeltas h ds (f, s)) = foldl (\<lambda>f d. stepInformer d f) f ds"
proof (induction ds arbitrary: f s)
  case (Cons d ds)
  obtain f' s' where "processClusterDelta h d (f, s) = (f', s')" by fastforce
  moreover from this have "f' = stepInformer d f" by (metis fst_conv fst_processClusterDelta)
  ultimately show ?case using Cons.IH by (simp add: processClusterDeltas_def)
qed (simp add: processClusterDeltas_def)

lemma stepInformer_Sync:
  "stepInformer (Sync c) f =
     (let f' = f\<lparr>clusterStore := map_put (clName c) c (clusterStore f)\<rparr> in
      case map_of (clusterStore f) (clName c) of
        None \<Rightarrow> if isClusterReady c then addCluster c f' else f'
      | Some old \<Rightarrow>
          if isClusterReady old \<noteq> isClusterReady c \<or> clSpec old \<noteq> clSpec c \<or>
            \<not> map_eq (omAnnotations (clMeta old)) (omAnnotations (clMeta c))
          then if isClusterReady c then addCluster c (deleteCluster old f') else deleteCluster old f'
          else f')"
  by (simp add: stepInformer_def processClusterDelta_def clusterUpdateFunc_def clusterAddFunc_def
      removeAndNotify_def addAndNotify_def Let_def split: option.splits)

lemma stepInformer_Removed:
  "stepInformer (Removed (Deleted c)) f =
     deleteCluster c (f\<lparr>clusterStore := map_del (clName c) (clusterStore f)\<rparr>)"
  "stepInformer (Removed (DeletedFinalStateUnknown k v)) f = f\<lparr>clusterStore := map_del k (clusterStore f)\<rparr>"
  by (simp_all add: stepInformer_def processClusterDelta_def clusterDeleteFunc_def removeAndNotify_def)

lemma addCluster_targets:
  assumes "map_of (clusterStore f) (clName c) = Some c" and "isClusterReady c"
  shows "addCluster c f = (case clientFactory f c of
     Inr client \<Rightarrow> f\<lparr>targetInformers := map_put (clName c) (targetInformerFactory f c client) (targetInformers f)\<rparr>
   | Inl err \<Rightarrow> f)"
  using assms by (simp add: addCluster_def GetClientsetForCluster_def GetReadyCluster_def split: sum.splits)

lemma clientFactory_step [simp]: "clientFactory (stepInformer d f) = clientFactory f"
proof (cases d)
  case (Sync c)
  then show ?thesis
    by (auto simp: stepInformer_Sync addCluster_def deleteCluster_def Let_def split: option.splits sum.splits)
next
  case (Removed old)
  then show ?thesis by (cases old) (simp_all add: stepInformer_Removed deleteCluster_def)
qed

lemma clusterStore_step:
  "clusterStore (stepInformer d f) =
     (case d of Sync c \<Rightarrow> map_put (clName c) c (clusterStore f) | Removed _ \<Rightarrow> map_del (deltaKey d) (clusterStore f))"
proof (cases d)
  case (Sync c)
  then show ?thesis
    by (auto simp: stepInformer_Sync addCluster_def deleteCluster_def Let_def split: option.splits sum.splits)
next
  case (Removed old)
  then show ?thesis by (cases old) (simp_all add: stepInformer_Removed deleteCluster_def)
qed

lemma targets_step_distinct:
  "keys_distinct (targetInformers f) \<Longrightarrow> keys_distinct (targetInformers (stepInformer d f))"
proof (cases d)
  case (Sync c)
  assume "keys_distinct (targetInformers f)"
  with Sync show ?thesis
    by (auto simp: stepInformer_Sync addCluster_def deleteCluster_def Let_def split: option.splits sum.splits)
next
  case (Removed old)
  assume "keys_distinct (targetInformers f)"
  with Removed show ?thesis by (cases old) (simp_all add: stepInformer_Removed deleteCluster_def)
qed

lemma inf_wf_step:
  assumes "inf_wf f"
  shows "inf_wf (stepInformer d f)"
proof -
  have "keys_distinct (clusterStore (stepInformer d f))"
    using assms by (cases d) (simp_all add: clusterStore_step inf_wf_def)
  moreover have "\<forall>e \<in> set (clusterStore (stepInformer d f)). clName (snd e) = fst e"
    using assms set_map_putD by (cases d) (fastforce simp: clusterStore_step inf_wf_def)+
  ultimately show ?thesis
    using assms targets_step_distinct by (auto simp: inf_wf_def)
qed

lemma inf_wf_put:
  assumes "inf_wf f"
  shows "inf_wf (f\<lparr>targetInformers := map_put name tinf (targetInformers f)\<rparr>)"
  using assms by (simp add: inf_wf_def)

lemma inf_wf_targetSync: "inf_wf f \<Longrightarrow> inf_wf (targetSync name key obj f)"
  by (auto simp: targetSync_def intro: inf_wf_put split: option.split)

definition has_client :: "('c, 'o) federatedInformer \<Rightarrow> Cluster \<Rightarrow> bool" where
  "has_client f c \<longleftrightarrow> \<not> isl (clientFactory f c)"

lemma served_iff:
  "name \<in> served f \<longleftrightarrow> (\<exists>c. map_of (clusterStore f) name = Some c \<and> isClusterReady c \<and> has_client f c)"
  by (auto simp: served_def has_client_def isl_iff)

lemma fst_filter_neq: "fst ` {e \<in> set m. fst e \<noteq> k} = fst ` set m - {k}"
  by force

lemma target_names_add:
  assumes "map_of (clusterStore f) (clName c) = Some c" and "isClusterReady c"
  shows "fst ` set (targetInformers (addCluster c f)) =
    fst ` set (targetInformers f) \<union> (if has_client f c then {clName c} else {})"
  using assms by (cases "clientFactory f c") (simp_all add: addCluster_targets has_client_def)

lemma target_names_Sync:
  assumes "inf_wf f" and spec: "client_by_spec f" and inv: "fst ` set (targetInformers f) = served f"
  shows "fst ` set (targetInformers (stepInformer (Sync c) f)) =
    served f - {clName c} \<union> (if isClusterReady c \<and> has_client f c then {clName c} else {})"
proof (cases "map_of (clusterStore f) (clName c)")
  case None
  then have "clName c \<notin> served f" by (simp add: served_iff)
  moreover let ?f = "f\<lparr>clusterStore := map_put (clName c) c (clusterStore f)\<rparr>"
  have "has_client ?f c = has_client f c" by (simp add: has_client_def)
  ultimately show ?thesis
    using None inv target_names_add [of ?f c] by (simp add: stepInformer_Sync Let_def)
next
  case (Some old)
  then have name: "clName old = clName c" using assms(1) by (auto simp: inf_wf_def dest: map_of_SomeD)
  let ?f = "deleteCluster old (f\<lparr>clusterStore := map_put (clName c) c (clusterStore f)\<rparr>)"
  have f: "fst ` set (targetInformers ?f) = served f - {clName c}" "has_client ?f c = has_client f c"
      "map_of (clusterStore ?f) (clName c) = Some c"
    using inv name by (simp_all add: deleteCluster_def has_client_def fst_filter_neq)
  show ?thesis
  proof (cases "isClusterReady old \<noteq> isClusterReady c \<or> clSpec old \<noteq> clSpec c \<or>
      \<not> map_eq (omAnnotations (clMeta old)) (omAnnotations (clMeta c))")
    case True
    then show ?thesis
      using Some f target_names_add [of ?f c] by (simp add: stepInformer_Sync Let_def)
  next
    case False
    then have "has_client f old = has_client f c" using spec unfolding client_by_spec_def has_client_def by blast
    then have "clName c \<in> served f \<longleftrightarrow> isClusterReady c \<and> has_client f c"
      using False Some by (simp add: served_iff)
    moreover have "targetInformers (stepInformer (Sync c) f) = targetInformers f"
      using False Some by (simp add: stepInformer_Sync Let_def)
    ultimately show ?thesis using inv by auto
  qed
qed

lemma has_client_step [simp]: "has_client (stepInformer d f) c = has_client f c"
  by (simp add: has_client_def)

lemma inf_inv_step:
  assumes "inf_inv f" and "client_by_spec f" and "observed d"
  shows "inf_inv (stepInformer d f)"
proof -
  have wf: "inf_wf f" and inv: "fst ` set (targetInformers f) = served f" using assms(1) by (auto simp: inf_inv_def)
  have "fst ` set (targetInformers (stepInformer d f)) = served (stepInformer d f)"
  proof (cases d)
    case (Sync c)
    have "served (stepInformer d f) =
        served f - {clName c} \<union> (if isClusterReady c \<and> has_client f c then {clName c} else {})"
      by (auto simp: set_eq_iff served_iff Sync clusterStore_step)
    then show ?thesis using target_names_Sync [OF wf assms(2) inv] Sync by simp
  next
    case (Removed old)
    with assms(3) obtain c where d: "d = Removed (Deleted c)" by (cases old) auto
    have "served (stepInformer d f) = served f - {clName c}"
      by (auto simp: set_eq_iff served_iff d clusterStore_step)
    moreover have "fst ` set (targetInformers (stepInformer d f)) = fst ` set (targetInformers f) - {clName c}"
      unfolding d by (simp add: stepInformer_Removed deleteCluster_def fst_filter_neq)
    ultimately show ?thesis using inv by simp
  qed
  then show ?thesis using inf_wf_step [OF wf] by (simp add: inf_inv_def)
qed

lemma inf_inv_steps:
  assumes "inf_inv f" and "client_by_spec f" and "list_all observed ds"
  shows "inf_inv (foldl (\<lambda>f d. stepInformer d f) f ds)"
  using assms
proof (induction ds arbitrary: f)
  case (Cons d ds)
  have "client_by_spec (stepInformer d f)"
    using Cons.prems(2) unfolding client_by_spec_def clientFactory_step .
  moreover have "inf_inv (stepInformer d f)" using inf_inv_step [of f d] Cons.prems by simp
  ultimately show ?case using Cons.IH [of "stepInformer d f"] Cons.prems(3) by simp
qed simp

lemma foldl_client [simp]: "clientFactory (foldl (\<lambda>f d. stepInformer d f) f ds) = clientFactory f"
  by (induction ds arbitrary: f) simp_all

lemma ClustersSynced_ready:
  assumes "inf_inv f"
  shows "ClustersSynced f (readyList f) \<longleftrightarrow>
    (\<forall>c \<in> set (readyList f). has_client f c) \<and> (\<forall>(name, i) \<in> set (targetInformers f). infHasSynced i)"
proof -
  have wf: "inf_wf f" using assms by (simp add: inf_inv_def)
  have "clName ` set (readyList f) = fst ` set (targetInformers f) \<longleftrightarrow> (\<forall>c \<in> set (readyList f). has_client f c)"
  proof -
    have "(\<forall>c \<in> set (readyList f). has_client f c) \<longleftrightarrow>
        (\<forall>name c. map_of (clusterStore f) name = Some c \<longrightarrow> isClusterReady c \<longrightarrow> has_client f c)"
      using wf by (auto simp: map_of_eq_mem inf_wf_def)
    moreover have "fst ` set (targetInformers f) = served f" using assms by (simp add: inf_inv_def)
    ultimately show ?thesis
      unfolding readyList_names(2) [OF wf] set_eq_iff mem_Collect_eq by (metis served_iff option.inject)
  qed
  moreover have "keys_distinct (targetInformers f)" using wf by (simp add: inf_wf_def)
  ultimately show ?thesis using ClustersSynced_iff [of f, OF _ readyList_names(1) [OF wf]] by simp
qed

text \<open>An event about one cluster keeps the informers of the other clusters.\<close>

lemma informer_names_kept:
  assumes "inf_wf f" and "name \<in> fst ` set (targetInformers f)" and "deltaKey d \<noteq> name"
  shows "name \<in> fst ` set (targetInformers (stepInformer d f))"
proof (cases d)
  case (Removed old)
  then show ?thesis
    using assms(2,3) by (cases old) (simp_all add: stepInformer_Removed deleteCluster_def fst_filter_neq)
next
  case (Sync c)
  have add: "name \<in> fst ` set (targetInformers (addCluster c g))" if "name \<in> fst ` set (targetInformers g)" for g
    using that by (simp add: addCluster_def Let_def split: sum.splits)
  show ?thesis
  proof (cases "map_of (clusterStore f) (clName c)")
    case None
    then show ?thesis using assms(2) Sync by (simp add: stepInformer_Sync Let_def add)
  next
    case (Some old)
    then have "clName old = clName c" using assms(1) by (auto simp: inf_wf_def dest: map_of_SomeD)
    then have "name \<in> fst ` set (targetInformers (deleteCluster old (f\<lparr>clusterStore := m\<rparr>)))" for m
      using assms(2,3) Sync by (simp add: deleteCluster_def fst_filter_neq)
    then show ?thesis using assms(2) Sync Some by (simp add: stepInformer_Sync Let_def add)
  qed
qed

section \<open>Properties\<close>

abbreviation newInformer :: "(Cluster \<Rightarrow> 'c \<Rightarrow> 'o informer) \<Rightarrow> (Cluster \<Rightarrow> 'c res) \<Rightarrow> ('c, 'o) federatedInformer" where
  "newInformer factory client \<equiv>
     \<lparr>clusterStore = [], clusterHasSynced = False, targetInformerFactory = factory,
      targetInformers = [], clientFactory = client\<rparr>"

lemma inf_inv_new: "inf_inv (newInformer factory client)"
  by (simp add: inf_inv_def inf_wf_def served_def)


text \<open>
  A deletion that the watch missed is reported by a \<open>DeletedFinalStateUnknown\<close> object, which the
  handler ignores: the informer of the cluster stays although the cluster is gone, and until the
  cluster comes back the target store never counts as synced, whatever happens to other clusters.
\<close>

theorem missed_deletion_stalls:
  assumes "inf_inv f" and "name \<in> fst ` set (targetInformers f)"
    and "name \<notin> deltaKey ` set ds"
    and "f' = fst (processClusterDeltas h (Removed (DeletedFinalStateUnknown name c) # ds) (f, s))"
  shows "\<not> ClustersSynced f' (readyList f')"
proof -
  define stuck where "stuck g \<longleftrightarrow> inf_wf g \<and> name \<in> fst ` set (targetInformers g) \<and>
    name \<notin> fst ` set (clusterStore g)" for g :: "('a, 'b) federatedInformer"
  have step: "stuck (stepInformer d g)" if "stuck g" "deltaKey d \<noteq> name" for d g
  proof -
    have "name \<notin> fst ` set (clusterStore (stepInformer d g))"
      using that by (cases d) (simp_all add: stuck_def clusterStore_step fst_filter_neq)
    moreover have "name \<in> fst ` set (targetInformers (stepInformer d g))"
      using that stuck_def informer_names_kept by metis
    ultimately show ?thesis using that(1) inf_wf_step unfolding stuck_def by blast
  qed
  have "stuck (foldl (\<lambda>f d. stepInformer d f) g ds)" if "stuck g" for g
    using that assms(3)
  proof (induction ds arbitrary: g)
    case (Cons d ds)
    then have "deltaKey d \<noteq> name" "name \<notin> deltaKey ` set ds" by auto
    with Cons show ?case using step [of g d] by simp
  qed simp
  moreover have "stuck (stepInformer (Removed (DeletedFinalStateUnknown name c)) f)"
    using assms(1,2) inf_wf_step [of f "Removed (DeletedFinalStateUnknown name c)"]
    by (simp add: stuck_def inf_inv_def stepInformer_Removed fst_filter_neq)
  ultimately have "stuck f'" using assms(4) by (simp add: fst_processClusterDeltas)
  then have f': "inf_wf f'" "name \<in> fst ` set (targetInformers f')" "map_of (clusterStore f') name = None"
    by (simp_all add: stuck_def map_of_eq_None_iff)
  then have "name \<notin> clName ` set (readyList f')" unfolding readyList_names(2) [OF f'(1)] by simp
  moreover have "keys_distinct (targetInformers f')" using f'(1) by (simp add: inf_wf_def)
  ultimately show ?thesis
    using ClustersSynced_iff [of f', OF _ readyList_names(1) [OF f'(1)]] f'(2) by metis
qed

section \<open>Examples\<close>

definition exampleCluster :: "string \<Rightarrow> Cluster" where
  "exampleCluster name =
     \<lparr>clMeta = zeroMeta\<lparr>omName := name\<rparr>, clSpec = \<lparr>csServerAddresses = [], csSecretRef = None\<rparr>,
      clConditions = [\<lparr>ccType = ''Ready'', ccStatus = ''True''\<rparr>], clZones = None, clRegion = []\<rparr>"

definition exampleInformer :: "(string, nat) federatedInformer" where
  "exampleInformer = newInformer (\<lambda>c client. \<lparr>infStore = [], infHasSynced = True\<rparr>) (\<lambda>c. Inr [])"

definition exampleHandlers :: "(nat, nat) ClusterLifecycleHandlerFuncs" where
  "exampleHandlers = \<lparr>ClusterAvailable = Some (\<lambda>c n. n + 1), ClusterUnavailable = Some (\<lambda>c objs n. n + 1)\<rparr>"

lemmas example_simps = exampleCluster_def exampleInformer_def exampleHandlers_def processClusterDeltas_def
  processClusterDelta_def clusterAddFunc_def clusterDeleteFunc_def addAndNotify_def addCluster_def
  GetClientsetForCluster_def GetReadyCluster_def isClusterReady_def notifyAvailable_def zeroMeta_def Let_def


lemma missed_deletion_stalls_witness:
  "\<not> ClustersSynced
      (fst (processClusterDeltas exampleHandlers
         [Removed (DeletedFinalStateUnknown ''a'' (Some (exampleCluster ''a''))), Sync (exampleCluster ''b'')]
         (stepInformer (Sync (exampleCluster ''a'')) exampleInformer, 0)))
      (readyList (fst (processClusterDeltas exampleHandlers
         [Removed (DeletedFinalStateUnknown ''a'' (Some (exampleCluster ''a''))), Sync (exampleCluster ''b'')]
         (stepInformer (Sync (exampleCluster ''a'')) exampleInformer, 0))))"
proof -
  let ?f = "stepInformer (Sync (exampleCluster ''a'')) exampleInformer"
  have "client_by_spec exampleInformer" by (simp add: client_by_spec_def exampleInformer_def)
  moreover have "inf_inv exampleInformer" by (simp add: exampleInformer_def inf_inv_new)
  ultimately have "inf_inv ?f" by (simp add: inf_inv_step)
  moreover have "''a'' \<in> fst ` set (targetInformers ?f)" by (simp add: stepInformer_def example_simps)
  moreover have "''a'' \<notin> deltaKey ` set [Sync (exampleCluster ''b'')]" by (simp add: exampleCluster_def)
  ultimately show ?thesis by (intro missed_deletion_stalls [OF _ _ _ refl])
qed

end
