(* ===== verification/Object_Tracker.thy ===== *)
theory Object_Tracker
  imports Kube_Types
begin

text \<open>
  An API server that keeps objects by namespace and name: the interface the updaters and the
  controller rely on, as a locale, and the implementation that the clients for tests use, the
  object tracker of \<open>client-go/testing/fixture.go\<close>. The kind of the objects is given by the
  accessor of their metadata, as \<open>meta.Accessor\<close> does.
\<close>

section \<open>The tracker\<close>

record 'o kind =
  kdMeta :: "'o \<Rightarrow> ObjectMeta"
  kdSetNamespace :: "string \<Rightarrow> 'o \<Rightarrow> 'o"
  kdNamespaced :: bool

definition sameObject :: "'o kind \<Rightarrow> string \<Rightarrow> string \<Rightarrow> 'o \<Rightarrow> bool" where
  "sameObject k ns name existing \<longleftrightarrow>
     omNamespace (kdMeta k existing) = ns \<and> omName (kdMeta k existing) = name"

fun addLoop :: "'o kind \<Rightarrow> 'o \<Rightarrow> bool \<Rightarrow> 'o list \<Rightarrow> error option \<times> 'o list" where
  "addLoop k obj replaceExisting [] =
     (if replaceExisting then (Some (NotFound (omName (kdMeta k obj))), []) else (None, [obj]))"
| "addLoop k obj replaceExisting (existing # objs) =
     (if sameObject k (omNamespace (kdMeta k obj)) (omName (kdMeta k obj)) existing
      then if replaceExisting then (None, obj # objs)
           else (Some (AlreadyExists (omName (kdMeta k obj))), existing # objs)
      else let (err, objs') = addLoop k obj replaceExisting objs in (err, existing # objs'))"

definition trackerAdd :: "'o kind \<Rightarrow> 'o \<Rightarrow> string \<Rightarrow> bool \<Rightarrow> 'o list \<Rightarrow> error option \<times> 'o list" where
  "trackerAdd k obj ns replaceExisting objs =
     (let newObj = (if length (omNamespace (kdMeta k obj)) = 0 then kdSetNamespace k ns obj else obj)
      in if ns \<noteq> omNamespace (kdMeta k newObj)
         then (Some (BadRequest ''request namespace does not match object namespace''), objs)
         else addLoop k newObj replaceExisting objs)"

definition trackerCreate :: "'o kind \<Rightarrow> 'o \<Rightarrow> string \<Rightarrow> 'o list \<Rightarrow> error option \<times> 'o list" where
  "trackerCreate k obj ns = trackerAdd k obj ns False"

definition trackerUpdate :: "'o kind \<Rightarrow> 'o \<Rightarrow> string \<Rightarrow> 'o list \<Rightarrow> error option \<times> 'o list" where
  "trackerUpdate k obj ns = trackerAdd k obj ns True"

text \<open>An empty namespace or name matches every object.\<close>

definition filterByNamespaceAndName :: "'o kind \<Rightarrow> 'o list \<Rightarrow> string \<Rightarrow> string \<Rightarrow> 'o list" where
  "filterByNamespaceAndName k objs ns name =
     filter (\<lambda>obj. \<not> (ns \<noteq> [] \<and> omNamespace (kdMeta k obj) \<noteq> ns) \<and> \<not> (name \<noteq> [] \<and> omName (kdMeta k obj) \<noteq> name)) objs"

definition trackerList :: "'o kind \<Rightarrow> string \<Rightarrow> 'o list \<Rightarrow> 'o list" where
  "trackerList k ns objs = filterByNamespaceAndName k objs ns []"

definition trackerGet :: "'o kind \<Rightarrow> string \<Rightarrow> string \<Rightarrow> 'o list \<Rightarrow> 'o res" where
  "trackerGet k ns name objs =
     (case filterByNamespaceAndName k objs ns name of
        [] \<Rightarrow> Inl (NotFound name)
      | [obj] \<Rightarrow> Inr obj
      | _ \<Rightarrow> Inl (Errorf ''more than one object matched''))"

fun trackerDelete :: "'o kind \<Rightarrow> string \<Rightarrow> string \<Rightarrow> 'o list \<Rightarrow> error option \<times> 'o list" where
  "trackerDelete k ns name [] = (Some (NotFound name), [])"
| "trackerDelete k ns name (existing # objs) =
     (if sameObject k ns name existing then (None, objs)
      else let (err, objs') = trackerDelete k ns name objs in (err, existing # objs'))"

section \<open>The interface\<close>

text \<open>
  What a client may rely on: the objects form a map from namespace and name; creation fails on a
  present object, update and deletion on an absent one, and a failed request changes nothing.
  \<open>keyOf\<close> is the namespace and the name of an object, \<open>look\<close> the map, \<open>wf\<close> the states of the server,
  and \<open>valid\<close> says which objects can be created.
\<close>

locale object_store =
  fixes create :: "'o \<Rightarrow> 's \<Rightarrow> error option \<times> 's"
    and update :: "'o \<Rightarrow> 's \<Rightarrow> error option \<times> 's"
    and delete :: "string \<times> string \<Rightarrow> 's \<Rightarrow> error option \<times> 's"
    and keyOf :: "'o \<Rightarrow> string \<times> string"
    and look :: "'s \<Rightarrow> string \<times> string \<rightharpoonup> 'o"
    and wf :: "'s \<Rightarrow> bool"
    and valid :: "'o \<Rightarrow> bool"
  assumes create_new: "wf s \<Longrightarrow> valid obj \<Longrightarrow> look s (keyOf obj) = None \<Longrightarrow>
      \<exists>s'. create obj s = (None, s') \<and> wf s' \<and> look s' = (look s)(keyOf obj \<mapsto> obj)"
    and create_old: "wf s \<Longrightarrow> look s (keyOf obj) = Some v \<Longrightarrow>
      \<exists>name. create obj s = (Some (AlreadyExists name), s)"
    and update_old: "wf s \<Longrightarrow> look s (keyOf obj) = Some v \<Longrightarrow>
      \<exists>s'. update obj s = (None, s') \<and> wf s' \<and> look s' = (look s)(keyOf obj \<mapsto> obj)"
    and update_new: "wf s \<Longrightarrow> look s (keyOf obj) = None \<Longrightarrow>
      \<exists>name. update obj s = (Some (NotFound name), s)"
    and delete_old: "wf s \<Longrightarrow> look s k = Some v \<Longrightarrow>
      \<exists>s'. delete k s = (None, s') \<and> wf s' \<and> look s' = (look s)(k := None)"
    and delete_new: "wf s \<Longrightarrow> look s k = None \<Longrightarrow> \<exists>name. delete k s = (Some (NotFound name), s)"
begin

lemma create_cases:
  assumes "wf s" and "valid obj" and "create obj s = (err, s')"
  shows "wf s' \<and> (if look s (keyOf obj) = None then err = None \<and> look s' = (look s)(keyOf obj \<mapsto> obj)
    else s' = s \<and> (\<exists>name. err = Some (AlreadyExists name)))"
  using assms create_new [of s obj] create_old [of s obj] by (cases "look s (keyOf obj)") auto

lemma update_cases:
  assumes "wf s" and "update obj s = (err, s')"
  shows "wf s' \<and> (if look s (keyOf obj) = None then s' = s \<and> (\<exists>name. err = Some (NotFound name))
    else err = None \<and> look s' = (look s)(keyOf obj \<mapsto> obj))"
  using assms update_new [of s obj] update_old [of s obj] by (cases "look s (keyOf obj)") auto

text \<open>Deletion leaves no object whether or not there was one.\<close>

lemma delete_cases:
  assumes "wf s" and "delete k s = (err, s')"
  shows "wf s' \<and> look s' = (look s)(k := None) \<and> (err = None \<or> (\<exists>name. err = Some (NotFound name)))"
  using assms delete_new [of s k] delete_old [of s k] by (cases "look s k") auto

end

section \<open>The tracker implements the interface\<close>

definition objKey :: "'o kind \<Rightarrow> 'o \<Rightarrow> string \<times> string" where
  "objKey k obj = (omNamespace (kdMeta k obj), omName (kdMeta k obj))"

definition trackerMap :: "'o kind \<Rightarrow> 'o list \<Rightarrow> string \<times> string \<rightharpoonup> 'o" where
  "trackerMap k objs = map_of (map (\<lambda>obj. (objKey k obj, obj)) objs)"

text \<open>
  Objects have a name, and a namespace exactly if their kind is namespaced: the names that
  requests can address.
\<close>

definition addressable :: "'o kind \<Rightarrow> string \<times> string \<Rightarrow> bool" where
  "addressable k key \<longleftrightarrow> snd key \<noteq> [] \<and> (fst key \<noteq> [] \<longleftrightarrow> kdNamespaced k)"

definition validObj :: "'o kind \<Rightarrow> 'o \<Rightarrow> bool" where
  "validObj k obj \<longleftrightarrow> addressable k (objKey k obj)"

definition trackerWf :: "'o kind \<Rightarrow> 'o list \<Rightarrow> bool" where
  "trackerWf k objs \<longleftrightarrow> distinct (map (objKey k) objs) \<and> list_all (addressable k) (map (objKey k) objs)"

lemma sameObject_iff: "sameObject k ns name obj \<longleftrightarrow> objKey k obj = (ns, name)"
  by (simp add: sameObject_def objKey_def)

lemma trackerMap_Nil [simp]: "trackerMap k [] = Map.empty"
  by (simp add: trackerMap_def)

lemma trackerMap_Cons [simp]: "trackerMap k (obj # objs) = (trackerMap k objs)(objKey k obj \<mapsto> obj)"
  by (simp add: trackerMap_def)

lemma trackerMap_None: "trackerMap k objs key = None \<longleftrightarrow> key \<notin> objKey k ` set objs"
  by (induction objs) auto

lemma addLoop_create:
  "addLoop k obj False objs =
     (if trackerMap k objs (objKey k obj) = None then (None, objs @ [obj])
      else (Some (AlreadyExists (omName (kdMeta k obj))), objs))"
  by (induction objs) (auto simp: sameObject_def objKey_def)

lemma addLoop_update:
  assumes "trackerWf k objs"
  shows "\<exists>objs'. addLoop k obj True objs =
     (if trackerMap k objs (objKey k obj) = None then (Some (NotFound (omName (kdMeta k obj))), objs)
      else (None, objs')) \<and> map (objKey k) objs' = map (objKey k) objs \<and>
     (trackerMap k objs (objKey k obj) \<noteq> None \<longrightarrow> trackerMap k objs' = (trackerMap k objs)(objKey k obj \<mapsto> obj))"
  using assms
proof (induction objs)
  case (Cons e objs)
  then have "trackerWf k objs" by (simp add: trackerWf_def)
  then obtain objs' where IH: "addLoop k obj True objs =
     (if trackerMap k objs (objKey k obj) = None then (Some (NotFound (omName (kdMeta k obj))), objs)
      else (None, objs'))" "map (objKey k) objs' = map (objKey k) objs"
     "trackerMap k objs (objKey k obj) \<noteq> None \<longrightarrow> trackerMap k objs' = (trackerMap k objs)(objKey k obj \<mapsto> obj)"
    using Cons.IH by blast
  show ?case
  proof (cases "objKey k e = objKey k obj")
    case True
    then have "sameObject k (omNamespace (kdMeta k obj)) (omName (kdMeta k obj)) e"
      by (simp add: sameObject_iff objKey_def)
    then show ?thesis using True by (intro exI [of _ "obj # objs"]) (simp add: fun_eq_iff)
  next
    case False
    then have "\<not> sameObject k (omNamespace (kdMeta k obj)) (omName (kdMeta k obj)) e"
      by (simp add: sameObject_iff objKey_def)
    then show ?thesis using False IH
      by (intro exI [of _ "e # objs'"]) (auto simp: fun_upd_twist)
  qed
qed simp

lemma trackerDelete_spec:
  assumes "trackerWf k objs"
  shows "\<exists>objs'. trackerDelete k ns name objs =
     (if trackerMap k objs (ns, name) = None then (Some (NotFound name), objs) else (None, objs')) \<and>
     (trackerMap k objs (ns, name) \<noteq> None \<longrightarrow>
        trackerWf k objs' \<and> trackerMap k objs' = (trackerMap k objs)((ns, name) := None) \<and>
        set (map (objKey k) objs') \<subseteq> set (map (objKey k) objs))"
  using assms
proof (induction objs)
  case (Cons e objs)
  have wf: "trackerWf k objs" "objKey k e \<notin> objKey k ` set objs" using Cons.prems by (auto simp: trackerWf_def)
  then obtain objs' where IH: "trackerDelete k ns name objs =
     (if trackerMap k objs (ns, name) = None then (Some (NotFound name), objs) else (None, objs'))"
     "trackerMap k objs (ns, name) \<noteq> None \<longrightarrow> trackerWf k objs' \<and>
        trackerMap k objs' = (trackerMap k objs)((ns, name) := None) \<and>
        set (map (objKey k) objs') \<subseteq> set (map (objKey k) objs)"
    using Cons.IH by blast
  show ?case
  proof (cases "objKey k e = (ns, name)")
    case True
    then have "trackerMap k objs (ns, name) = None" using wf(2) by (simp add: trackerMap_None)
    then have "trackerMap k objs = (trackerMap k (e # objs))((ns, name) := None)" using True by auto
    moreover have "trackerDelete k ns name (e # objs) = (None, objs)" using True by (simp add: sameObject_iff)
    moreover have "trackerMap k (e # objs) (ns, name) \<noteq> None" using True by simp
    ultimately show ?thesis
      using wf(1) by (intro exI [of _ objs]) (simp del: trackerMap_Cons trackerDelete.simps, auto)
  next
    case False
    moreover have "addressable k (objKey k e)" using Cons.prems by (simp add: trackerWf_def)
    ultimately show ?thesis using IH wf
      by (intro exI [of _ "e # objs'"]) (auto simp: sameObject_iff trackerWf_def fun_upd_twist)
  qed
qed simp

text \<open>Requests made in the namespace of their object, as the clients make them.\<close>

definition trackerCreateOwn :: "'o kind \<Rightarrow> 'o \<Rightarrow> 'o list \<Rightarrow> error option \<times> 'o list" where
  "trackerCreateOwn k obj objs = trackerCreate k obj (omNamespace (kdMeta k obj)) objs"

definition trackerUpdateOwn :: "'o kind \<Rightarrow> 'o \<Rightarrow> 'o list \<Rightarrow> error option \<times> 'o list" where
  "trackerUpdateOwn k obj objs = trackerUpdate k obj (omNamespace (kdMeta k obj)) objs"

definition trackerDeleteKey :: "'o kind \<Rightarrow> string \<times> string \<Rightarrow> 'o list \<Rightarrow> error option \<times> 'o list" where
  "trackerDeleteKey k key objs = trackerDelete k (fst key) (snd key) objs"

text \<open>Setting the namespace of an object to the one it has changes nothing.\<close>

definition kind_ok :: "'o kind \<Rightarrow> bool" where
  "kind_ok k \<longleftrightarrow> (\<forall>obj. kdSetNamespace k (omNamespace (kdMeta k obj)) obj = obj)"

lemma own_add:
  assumes "kind_ok k"
  shows "trackerCreateOwn k obj objs = addLoop k obj False objs"
    and "trackerUpdateOwn k obj objs = addLoop k obj True objs"
proof -
  have "kdSetNamespace k [] obj = obj" if "omNamespace (kdMeta k obj) = []"
    using assms that unfolding kind_ok_def by metis
  then show "trackerCreateOwn k obj objs = addLoop k obj False objs"
    and "trackerUpdateOwn k obj objs = addLoop k obj True objs"
    by (simp_all add: trackerCreateOwn_def trackerUpdateOwn_def trackerCreate_def trackerUpdate_def
        trackerAdd_def Let_def)
qed

lemma tracker_store:
  assumes "kind_ok k"
  shows "object_store (trackerCreateOwn k) (trackerUpdateOwn k) (trackerDeleteKey k) (objKey k) (trackerMap k) (trackerWf k) (validObj k)"
proof
  fix objs obj assume wf: "trackerWf k objs"
  show "\<exists>s'. trackerCreateOwn k obj objs = (None, s') \<and> trackerWf k s' \<and>
      trackerMap k s' = (trackerMap k objs)(objKey k obj \<mapsto> obj)"
    if valid: "validObj k obj" and none: "trackerMap k objs (objKey k obj) = None"
  proof -
    have "trackerMap k (objs @ [obj]) = (trackerMap k objs)(objKey k obj \<mapsto> obj)"
      using none by (induction objs) (auto simp: fun_upd_twist split: if_splits)
    moreover have "trackerWf k (objs @ [obj])" using none wf valid by (auto simp: trackerWf_def trackerMap_None validObj_def)
    ultimately show ?thesis using none by (simp add: own_add [OF assms] addLoop_create)
  qed
  show "\<exists>name. trackerCreateOwn k obj objs = (Some (AlreadyExists name), objs)"
    if "trackerMap k objs (objKey k obj) = Some v" for v
    using that by (simp add: own_add [OF assms] addLoop_create)
  show "\<exists>s'. trackerUpdateOwn k obj objs = (None, s') \<and> trackerWf k s' \<and>
      trackerMap k s' = (trackerMap k objs)(objKey k obj \<mapsto> obj)"
    if "trackerMap k objs (objKey k obj) = Some v" for v
    using that addLoop_update [OF wf, of obj] wf by (auto simp: own_add [OF assms] trackerWf_def)
  show "\<exists>name. trackerUpdateOwn k obj objs = (Some (NotFound name), objs)"
    if "trackerMap k objs (objKey k obj) = None"
    using that addLoop_update [OF wf, of obj] by (auto simp: own_add [OF assms])
next
  fix objs key assume wf: "trackerWf k objs"
  show "\<exists>s'. trackerDeleteKey k key objs = (None, s') \<and> trackerWf k s' \<and>
      trackerMap k s' = (trackerMap k objs)(key := None)"
    if "trackerMap k objs key = Some v" for v
    using that trackerDelete_spec [OF wf, of "fst key" "snd key"] by (auto simp: trackerDeleteKey_def)
  show "\<exists>name. trackerDeleteKey k key objs = (Some (NotFound name), objs)"
    if "trackerMap k objs key = None"
    using that trackerDelete_spec [OF wf, of "fst key" "snd key"] by (auto simp: trackerDeleteKey_def)
qed

text \<open>A read of a name that can be addressed finds the object with that name.\<close>

lemma filter_addressable:
  assumes "trackerWf k objs" and "addressable k (ns, name)"
  shows "filterByNamespaceAndName k objs ns name = filter (sameObject k ns name) objs"
  unfolding filterByNamespaceAndName_def
  by (rule filter_cong [OF refl])
    (use assms in \<open>auto simp: trackerWf_def addressable_def sameObject_def objKey_def list_all_iff\<close>)

lemma trackerGet_iff:
  assumes "trackerWf k objs" and "addressable k (ns, name)"
  shows "trackerGet k ns name objs =
    (case trackerMap k objs (ns, name) of None \<Rightarrow> Inl (NotFound name) | Some obj \<Rightarrow> Inr obj)"
proof -
  have "(case filter (sameObject k ns name) objs of [] \<Rightarrow> Inl (NotFound name) | [obj] \<Rightarrow> Inr obj
      | _ \<Rightarrow> Inl (Errorf ''more than one object matched'')) =
    (case trackerMap k objs (ns, name) of None \<Rightarrow> Inl (NotFound name) | Some obj \<Rightarrow> Inr obj)"
    using assms(1)
  proof (induction objs)
    case (Cons e objs)
    then have wf: "trackerWf k objs" "objKey k e \<notin> objKey k ` set objs" by (auto simp: trackerWf_def)
    show ?case
    proof (cases "objKey k e = (ns, name)")
      case True
      then have "\<forall>obj \<in> set objs. \<not> sameObject k ns name obj"
        using wf(2) by (metis imageI sameObject_iff)
      then show ?thesis using True by (simp add: sameObject_iff filter_empty_conv)
    next
      case False
      then show ?thesis using Cons.IH [OF wf(1)] by (simp add: sameObject_iff)
    qed
  qed simp
  then show ?thesis by (simp add: trackerGet_def filter_addressable [OF assms])
qed

text \<open>A list over all namespaces, which the informers ask for, returns every object; a list of a namespace its objects.\<close>

lemma trackerList_all [simp]: "trackerList k [] objs = objs"
  by (simp add: trackerList_def filterByNamespaceAndName_def)

lemma trackerList_namespace:
  assumes "trackerWf k objs" and "ns \<noteq> []" and "name \<noteq> []"
  shows "trackerMap k (trackerList k ns objs) (ns', name) = (if ns' = ns then trackerMap k objs (ns, name) else None)"
  using assms by (induction objs) (auto simp: trackerList_def filterByNamespaceAndName_def trackerWf_def objKey_def trackerMap_None)

section \<open>The kinds of the controllers\<close>

definition ingressKind :: "Ingress kind" where
  "ingressKind = \<lparr>kdMeta = inMeta, kdSetNamespace = (\<lambda>ns i. i\<lparr>inMeta := (inMeta i)\<lparr>omNamespace := ns\<rparr>\<rparr>), kdNamespaced = True\<rparr>"

definition configMapKind :: "ConfigMap kind" where
  "configMapKind = \<lparr>kdMeta = cmMeta, kdSetNamespace = (\<lambda>ns c. c\<lparr>cmMeta := (cmMeta c)\<lparr>omNamespace := ns\<rparr>\<rparr>), kdNamespaced = True\<rparr>"

definition clusterKind :: "Cluster kind" where
  "clusterKind = \<lparr>kdMeta = clMeta, kdSetNamespace = (\<lambda>ns c. c\<lparr>clMeta := (clMeta c)\<lparr>omNamespace := ns\<rparr>\<rparr>), kdNamespaced = False\<rparr>"

lemma kinds_ok [simp]: "kind_ok ingressKind" "kind_ok configMapKind" "kind_ok clusterKind"
  by (simp_all add: kind_ok_def ingressKind_def configMapKind_def clusterKind_def)

interpretation ingress_tracker: object_store "trackerCreateOwn ingressKind" "trackerUpdateOwn ingressKind"
  "trackerDeleteKey ingressKind" "objKey ingressKind" "trackerMap ingressKind" "trackerWf ingressKind" "validObj ingressKind"
  by (rule tracker_store) simp

interpretation configmap_tracker: object_store "trackerCreateOwn configMapKind" "trackerUpdateOwn configMapKind"
  "trackerDeleteKey configMapKind" "objKey configMapKind" "trackerMap configMapKind" "trackerWf configMapKind" "validObj configMapKind"
  by (rule tracker_store) simp

interpretation cluster_tracker: object_store "trackerCreateOwn clusterKind" "trackerUpdateOwn clusterKind"
  "trackerDeleteKey clusterKind" "objKey clusterKind" "trackerMap clusterKind" "trackerWf clusterKind" "validObj clusterKind"
  by (rule tracker_store) simp

end
