(* ===== verification/Federated_Updater.thy ===== *)
theory Federated_Updater
  imports Federated_Informer Object_Tracker
begin

text \<open>
  The federated updater of \<open>federation-controller/util/federated_updater.go\<close>: it runs a list of
  operations on the member clusters, one goroutine each, and waits for them until a timeout.
  An operation is atomic (one request to the API server of one cluster). What the goroutines did
  when \<open>Update\<close> returns is given by a schedule: the indices of the operations that have finished,
  in the order of finishing. Events sent to the event recorder are left out.
\<close>

section \<open>Operations\<close>

datatype FederatedOperationType = OperationTypeAdd | OperationTypeUpdate | OperationTypeDelete

record 'o FederatedOperation =
  foType :: FederatedOperationType
  foClusterName :: string
  foObj :: 'o
  foKey :: string

type_synonym ('c, 'o, 'w) FederatedOperationHandler = "'c \<Rightarrow> 'o \<Rightarrow> 'w \<Rightarrow> error option \<times> 'w"

record ('c, 'o, 'w) federatedUpdater =
  addFunction :: "('c, 'o, 'w) FederatedOperationHandler"
  updateFunction :: "('c, 'o, 'w) FederatedOperationHandler"
  deleteFunction :: "('c, 'o, 'w) FederatedOperationHandler"

definition runOperation ::
  "('c, 'o, 'w) federatedUpdater \<Rightarrow> (string \<Rightarrow> 'c res) \<Rightarrow> 'o FederatedOperation \<Rightarrow> 'w \<Rightarrow> error option \<times> 'w" where
  "runOperation fu getClient op w =
     (case getClient (foClusterName op) of
        Inl err \<Rightarrow> (Some err, w)
      | Inr clientset \<Rightarrow>
          (case foType op of
             OperationTypeAdd \<Rightarrow> addFunction fu clientset (foObj op) w
           | OperationTypeUpdate \<Rightarrow> updateFunction fu clientset (foObj op) w
           | OperationTypeDelete \<Rightarrow>
               (case deleteFunction fu clientset (foObj op) w of
                  (Some err, w') \<Rightarrow> (if IsNotFound err then None else Some err, w')
                | (None, w') \<Rightarrow> (None, w'))))"

fun runOperations ::
  "('c, 'o, 'w) federatedUpdater \<Rightarrow> (string \<Rightarrow> 'c res) \<Rightarrow> 'o FederatedOperation list \<Rightarrow> 'w
   \<Rightarrow> error option list \<times> 'w" where
  "runOperations fu getClient [] w = ([], w)"
| "runOperations fu getClient (op # ops) w =
     (let (err, w') = runOperation fu getClient op w;
          (errs, w'') = runOperations fu getClient ops w'
      in (err # errs, w''))"

text \<open>The loop that reads the \<open>done\<close> channel until \<open>n\<close> results have come or the timeout is reached.\<close>

fun awaitResults :: "nat \<Rightarrow> error option list \<Rightarrow> error option" where
  "awaitResults 0 results = None"
| "awaitResults (Suc n) [] = Some (Errorf ''failed to finish all operations'')"
| "awaitResults (Suc n) (Some err # results) = Some err"
| "awaitResults (Suc n) (None # results) = awaitResults n results"

definition fuUpdate ::
  "('c, 'o, 'w) federatedUpdater \<Rightarrow> (string \<Rightarrow> 'c res) \<Rightarrow> nat list \<Rightarrow> 'o FederatedOperation list \<Rightarrow> 'w
   \<Rightarrow> error option \<times> 'w" where
  "fuUpdate fu getClient finished ops w =
     (let (results, w') = runOperations fu getClient (map (\<lambda>i. ops ! i) finished) w
      in (awaitResults (length ops) results, w'))"

definition schedule :: "nat list \<Rightarrow> nat \<Rightarrow> bool" where
  "schedule finished n \<longleftrightarrow> distinct finished \<and> set finished \<subseteq> {..<n}"

section \<open>Results\<close>

lemma length_runOperations: "length (fst (runOperations fu getClient ops w)) = length ops"
  by (induction ops arbitrary: w) (simp_all add: split_beta Let_def)

lemma awaitResults_None:
  assumes "length results \<le> n"
  shows "awaitResults n results = None \<longleftrightarrow> length results = n \<and> set results \<subseteq> {None}"
  using assms by (induction n results rule: awaitResults.induct) auto

lemma nth_image_all: "(!) xs ` {..<length xs} = set xs"
  by (metis atLeast0LessThan atLeast_upt lessThan_atLeast0 list.set_map map_nth)

lemma schedule_length:
  assumes "schedule finished n"
  shows "length finished \<le> n" and "length finished = n \<longleftrightarrow> set finished = {..<n}"
proof -
  have c: "card (set finished) = length finished" "set finished \<subseteq> {..<n}" "card {..<n} = n"
    using assms by (simp_all add: schedule_def distinct_card)
  then show "length finished \<le> n" by (metis card_mono finite_lessThan)
  show "length finished = n \<longleftrightarrow> set finished = {..<n}"
    using c by (metis card_subset_eq finite_lessThan)
qed

text \<open>\<open>Update\<close> reports success only when every operation has finished without an error.\<close>

lemma fuUpdate_None:
  assumes "schedule finished (length ops)" and "fuUpdate fu getClient finished ops w = (err, w')"
  shows "err = None \<longleftrightarrow> set finished = {..<length ops} \<and>
    set (fst (runOperations fu getClient (map ((!) ops) finished) w)) \<subseteq> {None}"
proof -
  let ?r = "fst (runOperations fu getClient (map ((!) ops) finished) w)"
  have "err = awaitResults (length ops) ?r" using assms(2) by (simp add: fuUpdate_def split_beta Let_def)
  then show ?thesis
    using schedule_length [OF assms(1)] awaitResults_None [of ?r "length ops"] by (simp add: length_runOperations)
qed

section \<open>Member clusters that keep objects\<close>

text \<open>
  What the handlers promise: each acts on the objects of its cluster only, creation fails on a
  present object, update on an absent one, and deletion leaves no object.
\<close>

locale member_stores =
  fixes fu :: "('c, 'o, 'w) federatedUpdater"
    and keyOf :: "'o \<Rightarrow> string \<times> string"
    and look :: "'w \<Rightarrow> 'c \<Rightarrow> string \<times> string \<rightharpoonup> 'o"
    and wf :: "'w \<Rightarrow> bool"
    and valid :: "'o \<Rightarrow> bool"
  assumes add_law: "wf w \<Longrightarrow> valid obj \<Longrightarrow> addFunction fu c obj w = (err, w') \<Longrightarrow> wf w' \<and>
      (if look w c (keyOf obj) = None
       then err = None \<and> look w' = (look w)(c := (look w c)(keyOf obj \<mapsto> obj))
       else err \<noteq> None \<and> look w' = look w)"
    and update_law: "wf w \<Longrightarrow> updateFunction fu c obj w = (err, w') \<Longrightarrow> wf w' \<and>
      (if look w c (keyOf obj) = None then err \<noteq> None \<and> look w' = look w
       else err = None \<and> look w' = (look w)(c := (look w c)(keyOf obj \<mapsto> obj)))"
    and delete_law: "wf w \<Longrightarrow> deleteFunction fu c obj w = (err, w') \<Longrightarrow> wf w' \<and>
      look w' = (look w)(c := (look w c)(keyOf obj := None)) \<and> (err = None \<or> (\<exists>name. err = Some (NotFound name)))"
begin

text \<open>The objects of a cluster after an operation, and whether the operation succeeds there.\<close>

definition op_effect :: "'o FederatedOperation \<Rightarrow> (string \<times> string \<rightharpoonup> 'o) \<Rightarrow> (string \<times> string \<rightharpoonup> 'o)" where
  "op_effect op m =
     (case foType op of
        OperationTypeAdd \<Rightarrow> if m (keyOf (foObj op)) = None then m(keyOf (foObj op) \<mapsto> foObj op) else m
      | OperationTypeUpdate \<Rightarrow> if m (keyOf (foObj op)) = None then m else m(keyOf (foObj op) \<mapsto> foObj op)
      | OperationTypeDelete \<Rightarrow> m(keyOf (foObj op) := None))"

definition op_ok :: "'o FederatedOperation \<Rightarrow> (string \<times> string \<rightharpoonup> 'o) \<Rightarrow> bool" where
  "op_ok op m \<longleftrightarrow>
     (case foType op of
        OperationTypeAdd \<Rightarrow> m (keyOf (foObj op)) = None
      | OperationTypeUpdate \<Rightarrow> m (keyOf (foObj op)) \<noteq> None
      | OperationTypeDelete \<Rightarrow> True)"

definition op_valid :: "'o FederatedOperation \<Rightarrow> bool" where
  "op_valid op \<longleftrightarrow> (foType op = OperationTypeAdd \<longrightarrow> valid (foObj op))"

lemma runOperation_law:
  assumes "wf w" and "op_valid op" and "getClient (foClusterName op) = Inr c" and "runOperation fu getClient op w = (err, w')"
  shows "wf w' \<and> look w' = (look w)(c := op_effect op (look w c)) \<and> (err = None \<longleftrightarrow> op_ok op (look w c))"
proof (cases "foType op")
  case OperationTypeAdd
  then have run: "addFunction fu c (foObj op) w = (err, w')" using assms(3,4) by (simp add: runOperation_def)
  have valid: "valid (foObj op)" using assms(2) OperationTypeAdd by (simp add: op_valid_def)
  show ?thesis using add_law [OF assms(1) valid run] OperationTypeAdd
    by (simp add: op_effect_def op_ok_def split: if_splits)
next
  case OperationTypeUpdate
  then have run: "updateFunction fu c (foObj op) w = (err, w')" using assms(3,4) by (simp add: runOperation_def)
  show ?thesis using update_law [OF assms(1) run] OperationTypeUpdate
    by (simp add: op_effect_def op_ok_def split: if_splits)
next
  case OperationTypeDelete
  obtain err0 w0 where run: "deleteFunction fu c (foObj op) w = (err0, w0)" by fastforce
  have "w' = w0 \<and> err = None"
    using assms(3,4) OperationTypeDelete run delete_law [OF assms(1) run]
    by (auto simp: runOperation_def split: if_splits)
  then show ?thesis using delete_law [OF assms(1) run] OperationTypeDelete
    by (simp add: op_effect_def op_ok_def)
qed

text \<open>Operations on different clusters do not see each other, whatever their order.\<close>

lemma runOperations_law:
  assumes "wf w" and "\<forall>op \<in> set ops. op_valid op \<and> getClient (foClusterName op) = Inr (client op)"
    and "distinct (map client ops)" and "runOperations fu getClient ops w = (errs, w')"
  shows "wf w' \<and> (set errs \<subseteq> {None} \<longleftrightarrow> (\<forall>op \<in> set ops. op_ok op (look w (client op)))) \<and>
    (\<forall>op \<in> set ops. look w' (client op) = op_effect op (look w (client op))) \<and>
    (\<forall>c. c \<notin> client ` set ops \<longrightarrow> look w' c = look w c)"
  using assms
proof (induction ops arbitrary: w errs)
  case (Cons op ops)
  obtain err w1 where run: "runOperation fu getClient op w = (err, w1)" by fastforce
  obtain errs1 where rest: "runOperations fu getClient ops w1 = (errs1, w')" and errs: "errs = err # errs1"
    using Cons.prems(4) run by (cases "runOperations fu getClient ops w1") simp
  have op: "wf w1" "look w1 = (look w)(client op := op_effect op (look w (client op)))"
      "err = None \<longleftrightarrow> op_ok op (look w (client op))"
    using runOperation_law [OF Cons.prems(1) _ _ run] Cons.prems(2) by auto
  have fresh: "client op \<notin> client ` set ops" using Cons.prems(3) by simp
  have same: "look w1 (client o1) = look w (client o1)" if "o1 \<in> set ops" for o1
    using that fresh op(2) by (metis fun_upd_apply imageI)
  have IH: "wf w'" "set errs1 \<subseteq> {None} \<longleftrightarrow> (\<forall>op \<in> set ops. op_ok op (look w1 (client op)))"
      "\<forall>op \<in> set ops. look w' (client op) = op_effect op (look w1 (client op))"
      "\<forall>c. c \<notin> client ` set ops \<longrightarrow> look w' c = look w1 c"
    using Cons.IH [OF op(1) _ _ rest] Cons.prems(2,3) by auto
  have "set errs \<subseteq> {None} \<longleftrightarrow> (\<forall>o1 \<in> set (op # ops). op_ok o1 (look w (client o1)))"
    using errs IH(2) op(3) same by auto
  moreover have "\<forall>o1 \<in> set (op # ops). look w' (client o1) = op_effect o1 (look w (client o1))"
    using IH(3,4) same op(2) fresh by auto
  moreover have "\<forall>c. c \<notin> client ` set (op # ops) \<longrightarrow> look w' c = look w c"
    using IH(4) op(2) by simp
  ultimately show ?case using IH(1) by blast
qed simp

lemma fuUpdate_law:
  assumes "wf w" and "\<forall>op \<in> set ops. op_valid op \<and> getClient (foClusterName op) = Inr (client op)"
    and "distinct (map client ops)" and "schedule finished (length ops)"
    and "fuUpdate fu getClient finished ops w = (err, w')"
  shows "wf w' \<and>
    (\<forall>i < length ops. look w' (client (ops ! i)) =
       (if i \<in> set finished then op_effect (ops ! i) else (\<lambda>m. m)) (look w (client (ops ! i)))) \<and>
    (\<forall>c. c \<notin> client ` set ops \<longrightarrow> look w' c = look w c) \<and>
    (err = None \<longleftrightarrow> set finished = {..<length ops} \<and> (\<forall>op \<in> set ops. op_ok op (look w (client op))))"
proof -
  let ?ops = "map ((!) ops) finished"
  have sub: "set finished \<subseteq> {..<length ops}" "distinct finished" using assms(4) by (auto simp: schedule_def)
  then have mem: "set ?ops \<subseteq> set ops" by auto
  have "inj_on (\<lambda>i. client (ops ! i)) {..<length ops}"
    using assms(3) by (auto simp: inj_on_def distinct_conv_nth)
  then have inj: "inj_on (\<lambda>i. client (ops ! i)) (set finished)" by (rule inj_on_subset) (rule sub(1))
  then have dist: "distinct (map client ?ops)" using sub(2) by (simp add: distinct_map o_def)
  obtain errs where run: "runOperations fu getClient ?ops w = (errs, w')"
    using assms(5) by (auto simp: fuUpdate_def split_beta Let_def) (metis prod.collapse)
  note law = runOperations_law [OF assms(1) _ dist run]
  have law: "wf w'" "set errs \<subseteq> {None} \<longleftrightarrow> (\<forall>op \<in> set ?ops. op_ok op (look w (client op)))"
      "\<forall>op \<in> set ?ops. look w' (client op) = op_effect op (look w (client op))"
      "\<forall>c. c \<notin> client ` set ?ops \<longrightarrow> look w' c = look w c"
    using law assms(2) mem by blast+
  have "look w' (client (ops ! i)) =
       (if i \<in> set finished then op_effect (ops ! i) else (\<lambda>m. m)) (look w (client (ops ! i)))"
    if "i < length ops" for i
  proof (cases "i \<in> set finished")
    case False
    have "client (ops ! i) \<noteq> client (ops ! j)" if "j \<in> set finished" for j
      using that False \<open>i < length ops\<close> sub(1) assms(3)
      by (metis (no_types, lifting) distinct_conv_nth length_map lessThan_iff nth_map subsetD)
    then have "client (ops ! i) \<notin> client ` set ?ops" by auto
    then show ?thesis using False law(4) by simp
  qed (use law(3) in simp)
  moreover have "err = None \<longleftrightarrow> set finished = {..<length ops} \<and> (\<forall>op \<in> set ops. op_ok op (look w (client op)))"
  proof -
    have "set ?ops = set ops" if "set finished = {..<length ops}"
      using that by (simp add: nth_image_all)
    then show ?thesis using fuUpdate_None [OF assms(4,5)] law(2) run by (metis fst_conv)
  qed
  moreover have "\<forall>c. c \<notin> client ` set ops \<longrightarrow> look w' c = look w c" using law(4) mem by blast
  ultimately show ?thesis using law(1) by blast
qed

end

end
