(* ===== verification/Deletion_Helper.thy ===== *)
theory Deletion_Helper
  imports Federated_Updater
begin

text \<open>
  Finalizers and the deletion helper (\<open>federation-controller/util/finalizers\<close> and
  \<open>deletionhelper\<close>), for the ingresses of the federation: the finalizers are put on an ingress
  before it is created in member clusters, and removed only when it is gone from all of them or
  when the user asked to orphan the copies.
\<close>

section \<open>Finalizers\<close>

definition HasFinalizer :: "ObjectMeta \<Rightarrow> string \<Rightarrow> bool" where
  "HasFinalizer m finalizer \<longleftrightarrow> finalizer \<in> NewString (omFinalizers m)"

definition AddFinalizers :: "ObjectMeta \<Rightarrow> string_set \<Rightarrow> bool \<times> ObjectMeta" where
  "AddFinalizers m newFinalizers =
     (let oldFinalizers = NewString (omFinalizers m) in
      if newFinalizers \<subseteq> oldFinalizers then (False, m)
      else (True, m\<lparr>omFinalizers := List_set (Union_sets oldFinalizers newFinalizers)\<rparr>))"

definition RemoveFinalizers :: "ObjectMeta \<Rightarrow> string_set \<Rightarrow> bool \<times> ObjectMeta" where
  "RemoveFinalizers m finalizers =
     (let oldFinalizers = NewString (omFinalizers m) in
      if oldFinalizers \<inter> finalizers = {} then (False, m)
      else (True, m\<lparr>omFinalizers := List_set (oldFinalizers - finalizers)\<rparr>))"

definition FinalizerDeleteFromUnderlyingClusters :: string where
  "FinalizerDeleteFromUnderlyingClusters = ''federation.kubernetes.io/delete-from-underlying-clusters''"

definition FinalizerOrphanDependents :: string where
  "FinalizerOrphanDependents = ''orphan''"

section \<open>The deletion helper\<close>

text \<open>
  \<open>updateObj\<close> sends an ingress to the federation's API server. The federated informer and the
  updater are those of the ingresses; \<open>finished\<close> is the schedule of the updater's run.
\<close>

type_synonym 'w updateObjFunc = "Ingress \<Rightarrow> 'w \<Rightarrow> Ingress res \<times> 'w"

definition objName :: "Ingress \<Rightarrow> string" where
  "objName ingress = omNamespace (inMeta ingress) @ ''/'' @ omName (inMeta ingress)"

definition dhAddFinalizers ::
  "'w updateObjFunc \<Rightarrow> Ingress \<Rightarrow> string_set \<Rightarrow> 'w \<Rightarrow> Ingress res \<times> 'w" where
  "dhAddFinalizers updateObj obj finalizers w =
     (let (isUpdated, m) = AddFinalizers (inMeta obj) finalizers;
          obj' = obj\<lparr>inMeta := m\<rparr>
      in if \<not> isUpdated then (Inr obj', w)
         else case updateObj obj' w of
           (Inl err, w') \<Rightarrow> (Inl (wrap (''failed to add finalizers to object '' @ objName obj) err), w')
         | (Inr updatedObj, w') \<Rightarrow> (Inr updatedObj, w'))"

definition dhRemoveFinalizers ::
  "'w updateObjFunc \<Rightarrow> Ingress \<Rightarrow> string_set \<Rightarrow> 'w \<Rightarrow> Ingress res \<times> 'w" where
  "dhRemoveFinalizers updateObj obj finalizers w =
     (let (isUpdated, m) = RemoveFinalizers (inMeta obj) finalizers;
          obj' = obj\<lparr>inMeta := m\<rparr>
      in if \<not> isUpdated then (Inr obj', w)
         else case updateObj obj' w of
           (Inl err, w') \<Rightarrow> (Inl (wrap (''failed to remove finalizers from object '' @ objName obj) err), w')
         | (Inr updatedObj, w') \<Rightarrow> (Inr updatedObj, w'))"

definition EnsureFinalizers :: "'w updateObjFunc \<Rightarrow> Ingress \<Rightarrow> 'w \<Rightarrow> Ingress res \<times> 'w" where
  "EnsureFinalizers updateObj obj w =
     (let finalizers =
        (if HasFinalizer (inMeta obj) FinalizerDeleteFromUnderlyingClusters then {}
         else {FinalizerDeleteFromUnderlyingClusters}) \<union>
        (if HasFinalizer (inMeta obj) FinalizerOrphanDependents then {} else {FinalizerOrphanDependents})
      in if finalizers \<noteq> {} then dhAddFinalizers updateObj obj finalizers w else (Inr obj, w))"

definition HandleObjectInUnderlyingClusters ::
  "'w updateObjFunc \<Rightarrow> ('c, Ingress) federatedInformer \<Rightarrow> ('c, Ingress, 'w) federatedUpdater \<Rightarrow> nat list
   \<Rightarrow> Ingress \<Rightarrow> 'w \<Rightarrow> Ingress res \<times> 'w" where
  "HandleObjectInUnderlyingClusters updateObj f fu finished obj w =
     (if \<not> HasFinalizer (inMeta obj) FinalizerDeleteFromUnderlyingClusters then (Inr obj, w)
      else if HasFinalizer (inMeta obj) FinalizerOrphanDependents then
        dhRemoveFinalizers updateObj obj
          (NewString [FinalizerDeleteFromUnderlyingClusters, FinalizerOrphanDependents]) w
      else case GetUnreadyClusters f of
        Inl err \<Rightarrow> (Inl (wrap ''failed to get a list of unready clusters'' err), w)
      | Inr unreadyClusters \<Rightarrow>
          (case GetFromAllClusters f (MetaNamespaceKey (inMeta obj)) of
             Inl err \<Rightarrow> (Inl (wrap (''failed to get object '' @ objName obj @ '' from underlying clusters'') err), w)
           | Inr clusterNsObjs \<Rightarrow>
               (let operations = map (\<lambda>(clusterName, o1).
                      \<lparr>foType = OperationTypeDelete, foClusterName = clusterName, foObj = o1, foKey = objName obj\<rparr>)
                      clusterNsObjs;
                    (err, w') = fuUpdate fu (GetClientsetForCluster f) finished operations w
                in case err of
                     Some e \<Rightarrow> (Inl (wrap (''failed to execute updates for obj '' @ objName obj) e), w')
                   | None \<Rightarrow>
                       if length operations > 0 then
                         (Inl (Errorf (''waiting for object '' @ objName obj @ '' to be deleted from clusters: '' @
                            Join (map foClusterName operations) '', '')), w')
                       else if length unreadyClusters \<noteq> 0 then
                         (Inl (Errorf (''waiting for clusters '' @ Join (map clName unreadyClusters) '', '' @
                            '' to become ready to verify that obj '' @ objName obj @ '' has been deleted'')), w')
                       else dhRemoveFinalizers updateObj obj
                              (NewString [FinalizerDeleteFromUnderlyingClusters]) w')))"

section \<open>What finalizers do\<close>

lemma AddFinalizers_set:
  assumes "finite s"
  shows "set (omFinalizers (snd (AddFinalizers m s))) = set (omFinalizers m) \<union> s"
    and "fst (AddFinalizers m s) \<longleftrightarrow> \<not> s \<subseteq> set (omFinalizers m)"
  using assms by (auto simp: AddFinalizers_def Let_def NewString_def Union_sets_def)

lemma RemoveFinalizers_set:
  "set (omFinalizers (snd (RemoveFinalizers m s))) = set (omFinalizers m) - s"
  "fst (RemoveFinalizers m s) \<longleftrightarrow> set (omFinalizers m) \<inter> s \<noteq> {}"
  by (auto simp: RemoveFinalizers_def Let_def NewString_def)

lemma HasFinalizer_iff [simp]: "HasFinalizer m fin \<longleftrightarrow> fin \<in> set (omFinalizers m)"
  by (simp add: HasFinalizer_def NewString_def)

abbreviation bothFinalizers :: "string set" where
  "bothFinalizers \<equiv> {FinalizerDeleteFromUnderlyingClusters, FinalizerOrphanDependents}"

lemma finalizers_differ [simp]: "FinalizerDeleteFromUnderlyingClusters \<noteq> FinalizerOrphanDependents"
  by (simp add: FinalizerDeleteFromUnderlyingClusters_def FinalizerOrphanDependents_def)

text \<open>
  \<open>EnsureFinalizers\<close> makes no request when both finalizers are there, and otherwise one update
  of the ingress with both added to its own.
\<close>

lemma EnsureFinalizers_spec:
  "EnsureFinalizers updateObj obj w =
     (if bothFinalizers \<subseteq> set (omFinalizers (inMeta obj)) then (Inr obj, w)
      else let m = (inMeta obj)\<lparr>omFinalizers := List_set (set (omFinalizers (inMeta obj)) \<union> bothFinalizers)\<rparr>
        in case updateObj (obj\<lparr>inMeta := m\<rparr>) w of
             (Inl err, w') \<Rightarrow> (Inl (wrap (''failed to add finalizers to object '' @ objName obj) err), w')
           | (Inr updatedObj, w') \<Rightarrow> (Inr updatedObj, w'))"
proof -
  let ?F = "set (omFinalizers (inMeta obj))"
  define s where "s = (if FinalizerDeleteFromUnderlyingClusters \<in> ?F then {} else {FinalizerDeleteFromUnderlyingClusters}) \<union>
    (if FinalizerOrphanDependents \<in> ?F then {} else {FinalizerOrphanDependents})"
  have E: "EnsureFinalizers updateObj obj w = (if s \<noteq> {} then dhAddFinalizers updateObj obj s w else (Inr obj, w))"
    by (simp add: EnsureFinalizers_def s_def)
  have s: "s = {} \<longleftrightarrow> bothFinalizers \<subseteq> ?F" "?F \<union> s = ?F \<union> bothFinalizers" "s \<noteq> {} \<Longrightarrow> \<not> s \<subseteq> ?F"
    by (auto simp: s_def)
  show ?thesis
  proof (cases "s = {}")
    case True
    then show ?thesis using E s(1) by simp
  next
    case False
    then have "AddFinalizers (inMeta obj) s =
        (True, (inMeta obj)\<lparr>omFinalizers := List_set (?F \<union> bothFinalizers)\<rparr>)"
      using s(3) by (simp add: AddFinalizers_def Let_def NewString_def Union_sets_def s(2))
    then have "EnsureFinalizers updateObj obj w =
        (let m = (inMeta obj)\<lparr>omFinalizers := List_set (?F \<union> bothFinalizers)\<rparr>
         in case updateObj (obj\<lparr>inMeta := m\<rparr>) w of
             (Inl err, w') \<Rightarrow> (Inl (wrap (''failed to add finalizers to object '' @ objName obj) err), w')
           | (Inr updatedObj, w') \<Rightarrow> (Inr updatedObj, w'))"
      using E False by (simp add: dhAddFinalizers_def Let_def)
    moreover have "\<not> bothFinalizers \<subseteq> ?F" using False s(1) by blast
    ultimately show ?thesis by (simp only: if_False)
  qed
qed

definition withFinalizers :: "Ingress \<Rightarrow> Ingress" where
  "withFinalizers obj = obj\<lparr>inMeta := (inMeta obj)\<lparr>omFinalizers :=
     List_set (set (omFinalizers (inMeta obj)) \<union> bothFinalizers)\<rparr>\<rparr>"

lemma withFinalizers_meta [simp]:
  "nsName (inMeta (withFinalizers obj)) = nsName (inMeta obj)"
  "set (omFinalizers (inMeta (withFinalizers obj))) = set (omFinalizers (inMeta obj)) \<union> bothFinalizers"
  by (simp_all add: withFinalizers_def nsName_def)

lemma EnsureFinalizers_result:
  assumes "EnsureFinalizers updateObj obj w = (Inr obj2, w2)"
  shows "bothFinalizers \<subseteq> set (omFinalizers (inMeta obj)) \<and> obj2 = obj \<and> w2 = w \<or>
    updateObj (withFinalizers obj) w = (Inr obj2, w2)"
  using assms unfolding EnsureFinalizers_spec withFinalizers_def Let_def
  by (simp split: if_splits prod.splits sum.splits)

section \<open>When the finalizer is removed\<close>

text \<open>The clusters whose stores hold the ingress.\<close>

definition holders :: "('c, Ingress) federatedInformer \<Rightarrow> string \<Rightarrow> string set" where
  "holders f key = {name. \<exists>i. (name, i) \<in> set (targetInformers f) \<and> map_of (infStore i) key \<noteq> None}"

lemma GetFromAllClusters_eq:
  "\<exists>objs. GetFromAllClusters f key = Inr objs \<and>
     set objs = {(name, v). \<exists>i. (name, i) \<in> set (targetInformers f) \<and> map_of (infStore i) key = Some v} \<and>
     fst ` set objs = holders f key"
proof -
  let ?g = "\<lambda>(clusterName, tinf). map_option (Pair clusterName) (map_of (infStore tinf) key)"
  let ?objs = "List.map_filter ?g (targetInformers f)"
  have mem: "(name, v) \<in> set ?objs \<longleftrightarrow>
      (\<exists>i. (name, i) \<in> set (targetInformers f) \<and> map_of (infStore i) key = Some v)" for name v
    by (force simp: List.map_filter_def)
  then have "set ?objs = {(name, v). \<exists>i. (name, i) \<in> set (targetInformers f) \<and> map_of (infStore i) key = Some v}"
    by auto
  moreover from this have "fst ` set ?objs = holders f key" by (force simp: holders_def)
  ultimately show ?thesis by (simp add: GetFromAllClusters_def)
qed

lemma distinct_holders:
  assumes "keys_distinct (targetInformers f)" and "GetFromAllClusters f key = Inr objs"
  shows "keys_distinct objs"
proof -
  have "map fst (List.map_filter (\<lambda>(n, i). map_option (Pair n) (map_of (infStore i) key)) xs) =
      map fst (filter (\<lambda>(n, i). map_of (infStore i) key \<noteq> None) xs)" for xs :: "(string \<times> 'a informer) list"
    by (induction xs) (auto simp: map_filter_simps)
  then show ?thesis
    using assms by (auto simp: GetFromAllClusters_def distinct_map_filter)
qed

lemma GetFromAllClusters_Nil:
  "GetFromAllClusters f key = Inr objs \<Longrightarrow> objs = [] \<longleftrightarrow> holders f key = {}"
  using GetFromAllClusters_eq [of f key] by auto

lemma fuUpdate_Nil: "schedule finished 0 \<Longrightarrow> fuUpdate fu getClient finished [] w = (None, w)"
  by (simp add: schedule_def fuUpdate_def)

text \<open>
  In a cascading deletion the federated ingress is touched only when no store holds the ingress
  and all clusters are ready.
\<close>

lemma cascade_waits:
  assumes "FinalizerDeleteFromUnderlyingClusters \<in> set (omFinalizers (inMeta obj))"
    and "FinalizerOrphanDependents \<notin> set (omFinalizers (inMeta obj))"
    and "GetFromAllClusters f (MetaNamespaceKey (inMeta obj)) = Inr objs"
    and "holders f (MetaNamespaceKey (inMeta obj)) \<noteq> {}"
  shows "\<exists>err. HandleObjectInUnderlyingClusters updateObj f fu finished obj w =
    (Inl err, snd (fuUpdate fu (GetClientsetForCluster f) finished
      (map (\<lambda>(clusterName, o1). \<lparr>foType = OperationTypeDelete, foClusterName = clusterName, foObj = o1,
        foKey = objName obj\<rparr>) objs) w))"
  using assms GetFromAllClusters_Nil [OF assms(3)]
  by (auto simp: HandleObjectInUnderlyingClusters_def GetUnreadyClusters_def Let_def split_beta split: option.splits)

lemma cascade_unready:
  assumes "FinalizerDeleteFromUnderlyingClusters \<in> set (omFinalizers (inMeta obj))"
    and "FinalizerOrphanDependents \<notin> set (omFinalizers (inMeta obj))"
    and "holders f (MetaNamespaceKey (inMeta obj)) = {}" and "GetUnreadyClusters f = Inr unready" and "schedule finished 0"
  shows "HandleObjectInUnderlyingClusters updateObj f fu finished obj w =
    (if unready \<noteq> [] then
       (Inl (Errorf (''waiting for clusters '' @ Join (map clName unready) '', '' @
          '' to become ready to verify that obj '' @ objName obj @ '' has been deleted'')), w)
     else dhRemoveFinalizers updateObj obj {FinalizerDeleteFromUnderlyingClusters} w)"
proof -
  obtain objs where objs: "GetFromAllClusters f (MetaNamespaceKey (inMeta obj)) = Inr objs"
    using GetFromAllClusters_eq by blast
  then have "objs = []" using GetFromAllClusters_Nil assms(3) by blast
  with objs assms show ?thesis
    by (simp add: HandleObjectInUnderlyingClusters_def fuUpdate_Nil NewString_def)
qed

section \<open>Deletion in member clusters\<close>

locale ingress_members =
  member_stores fu "objKey ingressKind" look wf "validObj ingressKind"
  for fu :: "('c, Ingress, 'w) federatedUpdater"
    and look :: "'w \<Rightarrow> 'c \<Rightarrow> string \<times> string \<rightharpoonup> Ingress"
    and wf :: "'w \<Rightarrow> bool" +
  assumes look_key: "wf w \<Longrightarrow> look w c k = Some obj \<Longrightarrow> objKey ingressKind obj = k"
begin

text \<open>The stores of the informer show the ingress \<open>obj\<close> as the member clusters have it.\<close>

definition mirrors :: "('c, Ingress) federatedInformer \<Rightarrow> (string \<Rightarrow> 'c) \<Rightarrow> Ingress \<Rightarrow> 'w \<Rightarrow> bool" where
  "mirrors f client obj w \<longleftrightarrow> (\<forall>(name, i) \<in> set (targetInformers f).
     GetClientsetForCluster f name = Inr (client name) \<and>
     map_of (infStore i) (MetaNamespaceKey (inMeta obj)) = look w (client name) (objKey ingressKind obj))"

lemma mirrors_holders:
  assumes "mirrors f client obj w"
  shows "holders f (MetaNamespaceKey (inMeta obj)) =
    {name \<in> fst ` set (targetInformers f). look w (client name) (objKey ingressKind obj) \<noteq> None}"
  using assms unfolding mirrors_def holders_def by force

text \<open>
  A cascading deletion removes the ingress from every member cluster that holds it, asks to be
  called again, and touches nothing else there.
\<close>

lemma cascade_deletes:
  assumes "wf w" and "mirrors f client obj w" and "keys_distinct (targetInformers f)"
    and "inj_on client (fst ` set (targetInformers f))"
    and "FinalizerDeleteFromUnderlyingClusters \<in> set (omFinalizers (inMeta obj))"
    and "FinalizerOrphanDependents \<notin> set (omFinalizers (inMeta obj))"
    and "holders f (MetaNamespaceKey (inMeta obj)) \<noteq> {}"
    and "set finished = {..<card (holders f (MetaNamespaceKey (inMeta obj)))}" and "distinct finished"
    and "HandleObjectInUnderlyingClusters updateObj f fu finished obj w = (r, w')"
  shows "isl r \<and> wf w' \<and>
    (\<forall>name \<in> fst ` set (targetInformers f). look w' (client name) =
       (look w (client name))(objKey ingressKind obj := None)) \<and>
    (\<forall>c. c \<notin> client ` fst ` set (targetInformers f) \<longrightarrow> look w' c = look w c)"
proof -
  let ?key = "MetaNamespaceKey (inMeta obj)" and ?k = "objKey ingressKind obj"
  obtain objs where objs: "GetFromAllClusters f ?key = Inr objs" "fst ` set objs = holders f ?key"
      "set objs = {(name, v). \<exists>i. (name, i) \<in> set (targetInformers f) \<and> map_of (infStore i) ?key = Some v}"
    using GetFromAllClusters_eq by blast
  define ops where "ops = map (\<lambda>(clusterName, o1). \<lparr>foType = OperationTypeDelete, foClusterName = clusterName,
        foObj = o1, foKey = objName obj\<rparr>) objs"
  let ?cl = "\<lambda>op. client (foClusterName op)"
  have names: "map foClusterName ops = map fst objs" by (simp add: ops_def split_beta comp_def)
  have d: "keys_distinct objs" using distinct_holders [OF assms(3) objs(1)] .
  have len: "length ops = card (holders f ?key)"
    using d objs(2) names by (metis distinct_card length_map list.set_map)
  have sub: "holders f ?key \<subseteq> fst ` set (targetInformers f)" by (force simp: holders_def)
  have "inj_on client (fst ` set objs)" using inj_on_subset [OF assms(4) sub] objs(2) by simp
  then have dist: "distinct (map ?cl ops)"
    using d comp_inj_on [of fst "set objs" client] by (simp add: ops_def distinct_map comp_def split_beta)
  have cl: "\<forall>op \<in> set ops. op_valid op \<and> GetClientsetForCluster f (foClusterName op) = Inr (?cl op)"
    using assms(2) objs(3) by (force simp: ops_def mirrors_def op_valid_def)
  have key: "objKey ingressKind (foObj op) = ?k" if "op \<in> set ops" for op
  proof -
    from that obtain v i name where "op = \<lparr>foType = OperationTypeDelete, foClusterName = name, foObj = v,
        foKey = objName obj\<rparr>" "(name, i) \<in> set (targetInformers f)" "map_of (infStore i) ?key = Some v"
      using objs(3) by (auto simp: ops_def)
    then show ?thesis using assms(2) look_key [OF assms(1), of "client name" ?k v] by (force simp: mirrors_def)
  qed
  have type: "foType op = OperationTypeDelete" if "op \<in> set ops" for op using that by (auto simp: ops_def)
  obtain err where run: "fuUpdate fu (GetClientsetForCluster f) finished ops w = (err, w')" and "isl r"
    using cascade_waits [OF assms(5,6) objs(1) assms(7), of updateObj fu finished w] assms(10)
    unfolding ops_def by (metis isl_def prod.inject prod.collapse)
  have sched: "schedule finished (length ops)" using assms(8,9) len by (simp add: schedule_def)
  have law: "wf w'" "\<And>i. i < length ops \<Longrightarrow> i \<in> set finished \<Longrightarrow>
        look w' (?cl (ops ! i)) = op_effect (ops ! i) (look w (?cl (ops ! i)))"
      "\<And>c. c \<notin> ?cl ` set ops \<Longrightarrow> look w' c = look w c"
    using fuUpdate_law [OF assms(1) cl dist sched run] by simp_all
  have clients: "?cl ` set ops = client ` holders f ?key"
    using names objs(2) by (metis image_image list.set_map)
  have held: "look w' (client name) = (look w (client name))(?k := None)" if "name \<in> holders f ?key" for name
  proof -
    have "name \<in> foClusterName ` set ops" using that objs(2) names by (metis list.set_map)
    then obtain i where i: "i < length ops" "foClusterName (ops ! i) = name" by (metis imageE in_set_conv_nth)
    then have "look w' (client name) = op_effect (ops ! i) (look w (client name))"
      using law(2) [of i] assms(8) len by simp
    moreover have "ops ! i \<in> set ops" using i(1) by (rule nth_mem)
    ultimately show ?thesis using type key unfolding op_effect_def by simp
  qed
  moreover have other: "look w' (client name) = look w (client name)"
      if "name \<in> fst ` set (targetInformers f)" "name \<notin> holders f ?key" for name
  proof -
    have "client name \<notin> client ` holders f ?key" using that assms(4) sub by (metis inj_on_image_mem_iff)
    then show ?thesis using law(3) clients by blast
  qed
  moreover have "look w (client name) ?k = None" if "name \<in> fst ` set (targetInformers f)" "name \<notin> holders f ?key" for name
    using that mirrors_holders [OF assms(2)] by blast
  moreover have "look w' c = look w c" if "c \<notin> client ` fst ` set (targetInformers f)" for c
    using that law(3) clients sub by blast
  ultimately show ?thesis using \<open>isl r\<close> law(1) by (metis fun_upd_triv)
qed

end

end
