(* ===== verification/Ingress_Clients.thy ===== *)
theory Ingress_Clients
  imports Deletion_Helper
begin

text \<open>
  The requests of the ingress controller: its client for the federation's API server, the
  handlers of its two updaters (\<open>NewIngressController\<close>) and their instance on object trackers, the
  client the tests of the controller use. \<open>'w\<close> is the world the API servers are in, \<open>'c\<close> a client
  of a member cluster.
\<close>

section \<open>Clients\<close>

record ('c, 'w) kubeAPI =
  apiUpdateIngress :: "Ingress \<Rightarrow> 'w \<Rightarrow> Ingress res \<times> 'w"
  apiUpdateIngressStatus :: "Ingress \<Rightarrow> 'w \<Rightarrow> Ingress res \<times> 'w"
  apiDeleteIngress :: "string \<Rightarrow> string \<Rightarrow> 'w \<Rightarrow> error option \<times> 'w"
  apiUpdateCluster :: "Cluster \<Rightarrow> 'w \<Rightarrow> Cluster res \<times> 'w"
  memCreateIngress :: "'c \<Rightarrow> Ingress \<Rightarrow> 'w \<Rightarrow> Ingress res \<times> 'w"
  memUpdateIngress :: "'c \<Rightarrow> Ingress \<Rightarrow> 'w \<Rightarrow> Ingress res \<times> 'w"
  memDeleteIngress :: "'c \<Rightarrow> string \<Rightarrow> string \<Rightarrow> 'w \<Rightarrow> error option \<times> 'w"
  memCreateConfigMap :: "'c \<Rightarrow> ConfigMap \<Rightarrow> 'w \<Rightarrow> ConfigMap res \<times> 'w"
  memUpdateConfigMap :: "'c \<Rightarrow> ConfigMap \<Rightarrow> 'w \<Rightarrow> ConfigMap res \<times> 'w"
  memDeleteConfigMap :: "'c \<Rightarrow> string \<Rightarrow> string \<Rightarrow> 'w \<Rightarrow> error option \<times> 'w"

definition errOf :: "'a res \<times> 'w \<Rightarrow> error option \<times> 'w" where
  "errOf r = ((case fst r of Inl err \<Rightarrow> Some err | Inr _ \<Rightarrow> None), snd r)"

definition federatedIngressUpdater :: "('c, 'w) kubeAPI \<Rightarrow> ('c, Ingress, 'w) federatedUpdater" where
  "federatedIngressUpdater api =
     \<lparr>addFunction = (\<lambda>client ingress w. errOf (memCreateIngress api client ingress w)),
      updateFunction = (\<lambda>client ingress w. errOf (memUpdateIngress api client ingress w)),
      deleteFunction = (\<lambda>client ingress w.
        memDeleteIngress api client (omNamespace (inMeta ingress)) (omName (inMeta ingress)) w)\<rparr>"

definition federatedConfigMapUpdater :: "('c, 'w) kubeAPI \<Rightarrow> ('c, ConfigMap, 'w) federatedUpdater" where
  "federatedConfigMapUpdater api =
     \<lparr>addFunction = (\<lambda>client configMap w. errOf (memCreateConfigMap api client configMap w)),
      updateFunction = (\<lambda>client configMap w. errOf (memUpdateConfigMap api client configMap w)),
      deleteFunction = (\<lambda>client configMap w.
        memDeleteConfigMap api client (omNamespace (cmMeta configMap)) (omName (cmMeta configMap)) w)\<rparr>"

section \<open>The clients on object trackers\<close>

record fed_world =
  fwIngresses :: "Ingress list"
  fwClusters :: "Cluster list"
  fwMemberIngresses :: "string \<Rightarrow> Ingress list"
  fwMemberConfigMaps :: "string \<Rightarrow> ConfigMap list"

text \<open>\<open>ObjectReaction\<close>: a creation or an update followed by a read of the object, or a deletion.\<close>

definition reactCreate :: "'o kind \<Rightarrow> 'o \<Rightarrow> 'o list \<Rightarrow> 'o res \<times> 'o list" where
  "reactCreate k obj objs =
     (let ns = omNamespace (kdMeta k obj) in
      case trackerCreate k obj ns objs of
        (Some err, objs') \<Rightarrow> (Inl err, objs')
      | (None, objs') \<Rightarrow> (trackerGet k ns (omName (kdMeta k obj)) objs', objs'))"

definition reactUpdate :: "'o kind \<Rightarrow> 'o \<Rightarrow> 'o list \<Rightarrow> 'o res \<times> 'o list" where
  "reactUpdate k obj objs =
     (let ns = omNamespace (kdMeta k obj) in
      case trackerUpdate k obj ns objs of
        (Some err, objs') \<Rightarrow> (Inl err, objs')
      | (None, objs') \<Rightarrow> (trackerGet k ns (omName (kdMeta k obj)) objs', objs'))"

definition onIngresses :: "(Ingress list \<Rightarrow> 'r \<times> Ingress list) \<Rightarrow> fed_world \<Rightarrow> 'r \<times> fed_world" where
  "onIngresses req w = (let (r, objs) = req (fwIngresses w) in (r, w\<lparr>fwIngresses := objs\<rparr>))"

definition onClusters :: "(Cluster list \<Rightarrow> 'r \<times> Cluster list) \<Rightarrow> fed_world \<Rightarrow> 'r \<times> fed_world" where
  "onClusters req w = (let (r, objs) = req (fwClusters w) in (r, w\<lparr>fwClusters := objs\<rparr>))"

definition onMember :: "(Ingress list \<Rightarrow> 'r \<times> Ingress list) \<Rightarrow> string \<Rightarrow> fed_world \<Rightarrow> 'r \<times> fed_world" where
  "onMember req c w =
     (let (r, objs) = req (fwMemberIngresses w c)
      in (r, w\<lparr>fwMemberIngresses := (fwMemberIngresses w)(c := objs)\<rparr>))"

definition onConfigMaps :: "(ConfigMap list \<Rightarrow> 'r \<times> ConfigMap list) \<Rightarrow> string \<Rightarrow> fed_world \<Rightarrow> 'r \<times> fed_world" where
  "onConfigMaps req c w =
     (let (r, objs) = req (fwMemberConfigMaps w c)
      in (r, w\<lparr>fwMemberConfigMaps := (fwMemberConfigMaps w)(c := objs)\<rparr>))"

definition trackerAPI :: "(string, fed_world) kubeAPI" where
  "trackerAPI =
     \<lparr>apiUpdateIngress = (\<lambda>ingress. onIngresses (reactUpdate ingressKind ingress)),
      apiUpdateIngressStatus = (\<lambda>ingress. onIngresses (reactUpdate ingressKind ingress)),
      apiDeleteIngress = (\<lambda>ns name. onIngresses (trackerDelete ingressKind ns name)),
      apiUpdateCluster = (\<lambda>cluster. onClusters (reactUpdate clusterKind cluster)),
      memCreateIngress = (\<lambda>c ingress. onMember (reactCreate ingressKind ingress) c),
      memUpdateIngress = (\<lambda>c ingress. onMember (reactUpdate ingressKind ingress) c),
      memDeleteIngress = (\<lambda>c ns name. onMember (trackerDelete ingressKind ns name) c),
      memCreateConfigMap = (\<lambda>c configMap. onConfigMaps (reactCreate configMapKind configMap) c),
      memUpdateConfigMap = (\<lambda>c configMap. onConfigMaps (reactUpdate configMapKind configMap) c),
      memDeleteConfigMap = (\<lambda>c ns name. onConfigMaps (trackerDelete configMapKind ns name) c)\<rparr>"

section \<open>They keep objects by namespace and name\<close>

definition fw_wf :: "fed_world \<Rightarrow> bool" where
  "fw_wf w \<longleftrightarrow> trackerWf ingressKind (fwIngresses w) \<and> trackerWf clusterKind (fwClusters w) \<and>
     (\<forall>c. trackerWf ingressKind (fwMemberIngresses w c)) \<and> (\<forall>c. trackerWf configMapKind (fwMemberConfigMaps w c))"

definition memberIngresses :: "fed_world \<Rightarrow> string \<Rightarrow> string \<times> string \<rightharpoonup> Ingress" where
  "memberIngresses w c = trackerMap ingressKind (fwMemberIngresses w c)"

definition memberConfigMaps :: "fed_world \<Rightarrow> string \<Rightarrow> string \<times> string \<rightharpoonup> ConfigMap" where
  "memberConfigMaps w c = trackerMap configMapKind (fwMemberConfigMaps w c)"

lemma react_own:
  "reactCreate k obj objs =
     (case trackerCreateOwn k obj objs of
        (Some err, objs') \<Rightarrow> (Inl err, objs')
      | (None, objs') \<Rightarrow> (trackerGet k (omNamespace (kdMeta k obj)) (omName (kdMeta k obj)) objs', objs'))"
  "reactUpdate k obj objs =
     (case trackerUpdateOwn k obj objs of
        (Some err, objs') \<Rightarrow> (Inl err, objs')
      | (None, objs') \<Rightarrow> (trackerGet k (omNamespace (kdMeta k obj)) (omName (kdMeta k obj)) objs', objs'))"
  by (simp_all add: reactCreate_def reactUpdate_def trackerCreateOwn_def trackerUpdateOwn_def Let_def)

lemma trackerMap_addressable:
  assumes "trackerWf k objs" and "trackerMap k objs key = Some obj"
  shows "addressable k key"
proof -
  have "key \<in> objKey k ` set objs" using assms(2) trackerMap_None [of k objs key] by auto
  then show ?thesis using assms(1) by (auto simp: trackerWf_def list_all_iff)
qed

text \<open>A successful creation or update answers with the object sent.\<close>

lemma reactUpdate_spec:
  assumes "kind_ok k" and "trackerWf k objs" and "reactUpdate k obj objs = (r, objs')"
  shows "trackerWf k objs' \<and>
    (if trackerMap k objs (objKey k obj) = None then objs' = objs \<and> (\<exists>name. r = Inl (NotFound name))
     else r = Inr obj \<and> trackerMap k objs' = (trackerMap k objs)(objKey k obj \<mapsto> obj))"
proof -
  obtain err objs1 where upd: "trackerUpdateOwn k obj objs = (err, objs1)" by fastforce
  note law = object_store.update_cases [OF tracker_store [OF assms(1)] assms(2) upd]
  show ?thesis
  proof (cases "trackerMap k objs (objKey k obj)")
    case None
    then show ?thesis using law upd assms(3) by (auto simp: react_own)
  next
    case (Some v)
    then have "r = trackerGet k (omNamespace (kdMeta k obj)) (omName (kdMeta k obj)) objs1" "objs' = objs1"
      using law upd assms(3) by (auto simp: react_own)
    moreover have "addressable k (objKey k obj)" using trackerMap_addressable [OF assms(2) Some] .
    ultimately show ?thesis using law Some by (auto simp: trackerGet_iff objKey_def)
  qed
qed

lemma reactCreate_spec:
  assumes "kind_ok k" and "trackerWf k objs" and "validObj k obj" and "reactCreate k obj objs = (r, objs')"
  shows "trackerWf k objs' \<and>
    (if trackerMap k objs (objKey k obj) = None
     then r = Inr obj \<and> trackerMap k objs' = (trackerMap k objs)(objKey k obj \<mapsto> obj)
     else objs' = objs \<and> (\<exists>name. r = Inl (AlreadyExists name)))"
proof -
  obtain err objs1 where crt: "trackerCreateOwn k obj objs = (err, objs1)" by fastforce
  note law = object_store.create_cases [OF tracker_store [OF assms(1)] assms(2,3) crt]
  show ?thesis
  proof (cases "trackerMap k objs (objKey k obj)")
    case None
    then have "r = trackerGet k (omNamespace (kdMeta k obj)) (omName (kdMeta k obj)) objs1" "objs' = objs1"
      using law crt assms(4) by (auto simp: react_own)
    then show ?thesis using law None assms(3) by (auto simp: trackerGet_iff objKey_def validObj_def)
  next
    case (Some v)
    then show ?thesis using law crt assms(4) by (auto simp: react_own)
  qed
qed

lemma member_upd: "memberIngresses (w\<lparr>fwMemberIngresses := (fwMemberIngresses w)(c := objs)\<rparr>) =
    (memberIngresses w)(c := trackerMap ingressKind objs)"
  by (simp add: fun_eq_iff memberIngresses_def)

lemma onMember_request:
  "onMember req c w = (r, w') \<Longrightarrow> \<exists>objs. req (fwMemberIngresses w c) = (r, objs) \<and>
     w' = w\<lparr>fwMemberIngresses := (fwMemberIngresses w)(c := objs)\<rparr>"
  by (cases "req (fwMemberIngresses w c)") (simp add: onMember_def)

lemma onConfigMaps_request:
  "onConfigMaps req c w = (r, w') \<Longrightarrow> \<exists>objs. req (fwMemberConfigMaps w c) = (r, objs) \<and>
     w' = w\<lparr>fwMemberConfigMaps := (fwMemberConfigMaps w)(c := objs)\<rparr>"
  by (cases "req (fwMemberConfigMaps w c)") (simp add: onConfigMaps_def)

lemma config_upd: "memberConfigMaps (w\<lparr>fwMemberConfigMaps := (fwMemberConfigMaps w)(c := objs)\<rparr>) =
    (memberConfigMaps w)(c := trackerMap configMapKind objs)"
  by (simp add: fun_eq_iff memberConfigMaps_def)

lemma fw_wf_upd:
  "fw_wf w \<Longrightarrow> trackerWf ingressKind objs \<Longrightarrow>
     fw_wf (w\<lparr>fwMemberIngresses := (fwMemberIngresses w)(c := objs)\<rparr>)"
  "fw_wf w \<Longrightarrow> trackerWf configMapKind cms \<Longrightarrow>
     fw_wf (w\<lparr>fwMemberConfigMaps := (fwMemberConfigMaps w)(c := cms)\<rparr>)"
  "fw_wf w \<Longrightarrow> trackerWf ingressKind objs \<Longrightarrow> fw_wf (w\<lparr>fwIngresses := objs\<rparr>)"
  "fw_wf w \<Longrightarrow> trackerWf clusterKind cls \<Longrightarrow> fw_wf (w\<lparr>fwClusters := cls\<rparr>)"
  by (simp_all add: fw_wf_def)

lemma trackerMap_key: "trackerMap k objs key = Some obj \<Longrightarrow> objKey k obj = key"
  by (induction objs) (auto split: if_splits)

lemma trackerDelete_cases:
  assumes "kind_ok k" and "trackerWf k objs" and "trackerDelete k ns name objs = (err, objs')"
  shows "trackerWf k objs' \<and> trackerMap k objs' = (trackerMap k objs)((ns, name) := None) \<and>
    (err = None \<or> (\<exists>name. err = Some (NotFound name)))"
  using object_store.delete_cases [OF tracker_store [OF assms(1)] assms(2), of "(ns, name)" err objs'] assms(3)
  by (simp add: trackerDeleteKey_def)

interpretation ingress_servers: ingress_members "federatedIngressUpdater trackerAPI" memberIngresses fw_wf
proof
  fix w :: fed_world and c obj err w' assume wf: "fw_wf w"
  then have wfc: "trackerWf ingressKind (fwMemberIngresses w c)" by (simp add: fw_wf_def)
  have old: "memberIngresses w c = trackerMap ingressKind (fwMemberIngresses w c)" by (simp add: memberIngresses_def)
  show "fw_wf w' \<and> (if memberIngresses w c (objKey ingressKind obj) = None
      then err = None \<and> memberIngresses w' = (memberIngresses w)(c := (memberIngresses w c)(objKey ingressKind obj \<mapsto> obj))
      else err \<noteq> None \<and> memberIngresses w' = memberIngresses w)"
    if valid: "validObj ingressKind obj" and run: "addFunction (federatedIngressUpdater trackerAPI) c obj w = (err, w')"
  proof -
    obtain r objs where req: "reactCreate ingressKind obj (fwMemberIngresses w c) = (r, objs)" by fastforce
    have w': "w' = w\<lparr>fwMemberIngresses := (fwMemberIngresses w)(c := objs)\<rparr>" "err = (case r of Inl e \<Rightarrow> Some e | Inr _ \<Rightarrow> None)"
      using run req by (auto simp: federatedIngressUpdater_def trackerAPI_def onMember_def errOf_def)
    show ?thesis using reactCreate_spec [OF kinds_ok(1) wfc valid req]
      by (auto simp: w' member_upd old fw_wf_upd wf memberIngresses_def split: if_splits)
  qed
  show "fw_wf w' \<and> (if memberIngresses w c (objKey ingressKind obj) = None
      then err \<noteq> None \<and> memberIngresses w' = memberIngresses w
      else err = None \<and> memberIngresses w' = (memberIngresses w)(c := (memberIngresses w c)(objKey ingressKind obj \<mapsto> obj)))"
    if run: "updateFunction (federatedIngressUpdater trackerAPI) c obj w = (err, w')"
  proof -
    obtain r objs where req: "reactUpdate ingressKind obj (fwMemberIngresses w c) = (r, objs)" by fastforce
    have w': "w' = w\<lparr>fwMemberIngresses := (fwMemberIngresses w)(c := objs)\<rparr>" "err = (case r of Inl e \<Rightarrow> Some e | Inr _ \<Rightarrow> None)"
      using run req by (auto simp: federatedIngressUpdater_def trackerAPI_def onMember_def errOf_def)
    show ?thesis using reactUpdate_spec [OF kinds_ok(1) wfc req]
      by (auto simp: w' member_upd old fw_wf_upd wf memberIngresses_def split: if_splits)
  qed
  show "fw_wf w' \<and> memberIngresses w' = (memberIngresses w)(c := (memberIngresses w c)(objKey ingressKind obj := None)) \<and>
      (err = None \<or> (\<exists>name. err = Some (NotFound name)))"
    if run: "deleteFunction (federatedIngressUpdater trackerAPI) c obj w = (err, w')"
  proof -
    obtain objs where req: "trackerDelete ingressKind (omNamespace (inMeta obj)) (omName (inMeta obj))
        (fwMemberIngresses w c) = (err, objs)" and w': "w' = w\<lparr>fwMemberIngresses := (fwMemberIngresses w)(c := objs)\<rparr>"
      using run onMember_request by (fastforce simp: federatedIngressUpdater_def trackerAPI_def)
    have "objKey ingressKind obj = (omNamespace (inMeta obj), omName (inMeta obj))"
      by (simp add: objKey_def ingressKind_def)
    then show ?thesis using trackerDelete_cases [OF kinds_ok(1) wfc req] by (simp add: w' member_upd old fw_wf_upd wf)
  qed
next
  fix w c k obj assume "fw_wf w" "memberIngresses w c k = Some obj"
  then show "objKey ingressKind obj = k" by (simp add: memberIngresses_def trackerMap_key)
qed

interpretation config_servers: member_stores "federatedConfigMapUpdater trackerAPI" "objKey configMapKind" memberConfigMaps fw_wf "validObj configMapKind"
proof
  fix w :: fed_world and c obj err w' assume wf: "fw_wf w"
  then have wfc: "trackerWf configMapKind (fwMemberConfigMaps w c)" by (simp add: fw_wf_def)
  have old: "memberConfigMaps w c = trackerMap configMapKind (fwMemberConfigMaps w c)" by (simp add: memberConfigMaps_def)
  show "fw_wf w' \<and> (if memberConfigMaps w c (objKey configMapKind obj) = None
      then err = None \<and> memberConfigMaps w' = (memberConfigMaps w)(c := (memberConfigMaps w c)(objKey configMapKind obj \<mapsto> obj))
      else err \<noteq> None \<and> memberConfigMaps w' = memberConfigMaps w)"
    if valid: "validObj configMapKind obj" and run: "addFunction (federatedConfigMapUpdater trackerAPI) c obj w = (err, w')"
  proof -
    obtain r objs where req: "reactCreate configMapKind obj (fwMemberConfigMaps w c) = (r, objs)" by fastforce
    have w': "w' = w\<lparr>fwMemberConfigMaps := (fwMemberConfigMaps w)(c := objs)\<rparr>" "err = (case r of Inl e \<Rightarrow> Some e | Inr _ \<Rightarrow> None)"
      using run req by (auto simp: federatedConfigMapUpdater_def trackerAPI_def onConfigMaps_def errOf_def)
    show ?thesis using reactCreate_spec [OF kinds_ok(2) wfc valid req]
      by (auto simp: w' config_upd old fw_wf_upd wf memberConfigMaps_def split: if_splits)
  qed
  show "fw_wf w' \<and> (if memberConfigMaps w c (objKey configMapKind obj) = None
      then err \<noteq> None \<and> memberConfigMaps w' = memberConfigMaps w
      else err = None \<and> memberConfigMaps w' = (memberConfigMaps w)(c := (memberConfigMaps w c)(objKey configMapKind obj \<mapsto> obj)))"
    if run: "updateFunction (federatedConfigMapUpdater trackerAPI) c obj w = (err, w')"
  proof -
    obtain r objs where req: "reactUpdate configMapKind obj (fwMemberConfigMaps w c) = (r, objs)" by fastforce
    have w': "w' = w\<lparr>fwMemberConfigMaps := (fwMemberConfigMaps w)(c := objs)\<rparr>" "err = (case r of Inl e \<Rightarrow> Some e | Inr _ \<Rightarrow> None)"
      using run req by (auto simp: federatedConfigMapUpdater_def trackerAPI_def onConfigMaps_def errOf_def)
    show ?thesis using reactUpdate_spec [OF kinds_ok(2) wfc req]
      by (auto simp: w' config_upd old fw_wf_upd wf memberConfigMaps_def split: if_splits)
  qed
  show "fw_wf w' \<and> memberConfigMaps w' = (memberConfigMaps w)(c := (memberConfigMaps w c)(objKey configMapKind obj := None)) \<and>
      (err = None \<or> (\<exists>name. err = Some (NotFound name)))"
    if run: "deleteFunction (federatedConfigMapUpdater trackerAPI) c obj w = (err, w')"
  proof -
    obtain objs where req: "trackerDelete configMapKind (omNamespace (cmMeta obj)) (omName (cmMeta obj))
        (fwMemberConfigMaps w c) = (err, objs)" and w': "w' = w\<lparr>fwMemberConfigMaps := (fwMemberConfigMaps w)(c := objs)\<rparr>"
      using run onConfigMaps_request by (fastforce simp: federatedConfigMapUpdater_def trackerAPI_def)
    have "objKey configMapKind obj = (omNamespace (cmMeta obj), omName (cmMeta obj))"
      by (simp add: objKey_def configMapKind_def)
    then show ?thesis using trackerDelete_cases [OF kinds_ok(2) wfc req] by (simp add: w' config_upd old fw_wf_upd wf)
  qed
qed

end
