(* ===== verification/Go_JSON.thy ===== *)
theory Go_JSON
  imports Go_Prelude
begin

text \<open>
  What the controllers use of \<open>encoding/json\<close>: \<open>Marshal\<close> writes a document without spaces and with
  the string escapes of Go; \<open>Unmarshal\<close> checks the whole document with the states of the scanner
  (\<open>stateBeginValue\<close> and so on, with a stack of open arrays and objects) and then stores it into Go
  values, whose slices keep their backing arrays. Strings are byte strings in UTF-8.
\<close>

section \<open>UTF-8\<close>

definition byte :: "char \<Rightarrow> nat" where "byte c = of_char c"

definition ascii :: "string \<Rightarrow> bool" where "ascii s \<longleftrightarrow> list_all (\<lambda>c. byte c < 128) s"

definition runeError :: nat where "runeError = 65533"

definition between :: "nat \<Rightarrow> nat \<Rightarrow> char \<Rightarrow> bool" where
  "between lo hi c \<longleftrightarrow> lo \<le> byte c \<and> byte c \<le> hi"

text \<open>The rune at the start and its width; a byte that starts no valid sequence is an error of width 1.\<close>

fun decodeRune :: "string \<Rightarrow> nat \<times> nat" where
  "decodeRune [] = (runeError, 0)"
| "decodeRune (c # cs) =
     (let b = byte c; bad = (runeError, 1); cont = (\<lambda>c. byte c - 128) in
      if b < 128 then (b, 1)
      else if 194 \<le> b \<and> b \<le> 223 then
        (case cs of
           c1 # _ \<Rightarrow> if between 128 191 c1 then ((b - 192) * 64 + cont c1, 2) else bad
         | _ \<Rightarrow> bad)
      else if 224 \<le> b \<and> b \<le> 239 then
        (case cs of
           c1 # c2 # _ \<Rightarrow>
             if between (if b = 224 then 160 else 128) (if b = 237 then 159 else 191) c1 \<and> between 128 191 c2
             then ((b - 224) * 4096 + cont c1 * 64 + cont c2, 3) else bad
         | _ \<Rightarrow> bad)
      else if 240 \<le> b \<and> b \<le> 244 then
        (case cs of
           c1 # c2 # c3 # _ \<Rightarrow>
             if between (if b = 240 then 144 else 128) (if b = 244 then 143 else 191) c1 \<and>
               between 128 191 c2 \<and> between 128 191 c3
             then ((b - 240) * 262144 + cont c1 * 4096 + cont c2 * 64 + cont c3, 4) else bad
         | _ \<Rightarrow> bad)
      else bad)"

definition encodeRune :: "nat \<Rightarrow> string" where
  "encodeRune rune =
     (let r = (if 55296 \<le> rune \<and> rune \<le> 57343 \<or> 1114111 < rune then runeError else rune);
          tail = (\<lambda>n. char_of (128 + n mod 64)) in
      if r < 128 then [char_of r]
      else if r < 2048 then [char_of (192 + r div 64), tail r]
      else if r < 65536 then [char_of (224 + r div 4096), tail (r div 64), tail r]
      else [char_of (240 + r div 262144), tail (r div 4096), tail (r div 64), tail r])"

lemma decodeRune_width: "0 < snd (decodeRune (c # cs))"
  by (simp add: Let_def split: list.splits)

lemma drop_rune: "(r, n) = decodeRune (c # cs) \<Longrightarrow> length (drop n (c # cs)) < length (c # cs)"
  using decodeRune_width [of c cs] by (metis Suc_pred diff_less length_Cons length_drop snd_conv zero_less_Suc)

section \<open>Writing\<close>

datatype json =
  JNull | JBool bool | JNum string | JStr string | JArr "json list" | JObj "(string \<times> json) list"

definition hexChar :: "nat \<Rightarrow> char" where
  "hexChar n = (if n < 10 then char_of (48 + n) else char_of (87 + n))"

definition quote_char :: char where "quote_char = CHR 0x22"
definition backslash :: char where "backslash = CHR 0x5C"

definition htmlSafe :: "char \<Rightarrow> bool" where
  "htmlSafe c \<longleftrightarrow> 32 \<le> byte c \<and> c \<noteq> quote_char \<and> c \<noteq> backslash \<and> c \<notin> set ''<>&''"

definition escapeChar :: "char \<Rightarrow> string" where
  "escapeChar c =
     (if c = quote_char \<or> c = backslash then [backslash, c]
      else if byte c = 10 then [backslash, CHR ''n'']
      else if byte c = 13 then [backslash, CHR ''r'']
      else if byte c = 9 then [backslash, CHR ''t'']
      else [backslash, CHR ''u'', CHR ''0'', CHR ''0'', hexChar (byte c div 16), hexChar (byte c mod 16)])"

function escape :: "string \<Rightarrow> string" where
  "escape [] = []"
| "escape (c # cs) =
     (if byte c < 128 then (if htmlSafe c then [c] else escapeChar c) @ escape cs
      else
        let (r, size) = decodeRune (c # cs) in
        if r = runeError \<and> size = 1 then backslash # ''ufffd'' @ escape cs
        else if r = 8232 \<or> r = 8233 then backslash # ''u202'' @ hexChar (r mod 16) # escape (drop size (c # cs))
        else take size (c # cs) @ escape (drop size (c # cs)))"
  by pat_completeness auto
termination
  by (relation "measure length") (auto simp del: decodeRune.simps drop_Cons dest: drop_rune)

definition quote :: "string \<Rightarrow> string" where
  "quote s = quote_char # escape s @ [quote_char]"

fun printJSON :: "json \<Rightarrow> string" where
  "printJSON JNull = ''null''"
| "printJSON (JBool b) = (if b then ''true'' else ''false'')"
| "printJSON (JNum n) = n"
| "printJSON (JStr s) = quote s"
| "printJSON (JArr js) = CHR ''['' # Join (map printJSON js) '','' @ '']''"
| "printJSON (JObj kvs) = CHR ''{'' # Join (map (\<lambda>(k, v). quote k @ CHR '':'' # printJSON v) kvs) '','' @ ''}''"

section \<open>Reading: tokens\<close>

datatype token =
  LBrace | RBrace | LBracket | RBracket | Colon | Comma | TNull | TBool bool | TNum string | TStr string

definition hexNum :: "char \<Rightarrow> nat option" where
  "hexNum c =
     (if CHR ''0'' \<le> c \<and> c \<le> CHR ''9'' then Some (byte c - 48)
      else if CHR ''a'' \<le> c \<and> c \<le> CHR ''f'' then Some (byte c - 87)
      else if CHR ''A'' \<le> c \<and> c \<le> CHR ''F'' then Some (byte c - 55)
      else None)"

fun hex4 :: "string \<Rightarrow> nat option" where
  "hex4 (a # b # c # d # cs) =
     (case (hexNum a, hexNum b, hexNum c, hexNum d) of
        (Some a, Some b, Some c, Some d) \<Rightarrow> Some (a * 4096 + b * 256 + c * 16 + d)
      | _ \<Rightarrow> None)"
| "hex4 cs = None"

text \<open>
  The rune of an escape: half of a surrogate pair is completed by a second escape, or replaced.
  The result is the rune and how many bytes after the four digits were used.
\<close>

definition escapedRune :: "nat \<Rightarrow> string \<Rightarrow> nat \<times> nat" where
  "escapedRune r rest =
     (if 55296 \<le> r \<and> r \<le> 57343 then
        (case rest of
           x # y # cs \<Rightarrow>
             if x = backslash \<and> y = CHR ''u'' \<and> r \<le> 56319 then
               (case hex4 cs of
                  Some r2 \<Rightarrow>
                    if 56320 \<le> r2 \<and> r2 \<le> 57343 then (65536 + (r - 55296) * 1024 + (r2 - 56320), 6)
                    else (runeError, 0)
                | None \<Rightarrow> (runeError, 0))
             else (runeError, 0)
         | _ \<Rightarrow> (runeError, 0))
      else (r, 0))"

definition simpleEscape :: "char \<Rightarrow> char option" where
  "simpleEscape c =
     (if c = quote_char \<or> c = backslash \<or> c = CHR ''/'' then Some c
      else if c = CHR ''b'' then Some (char_of (8 :: nat))
      else if c = CHR ''f'' then Some (char_of (12 :: nat))
      else if c = CHR ''n'' then Some (char_of (10 :: nat))
      else if c = CHR ''r'' then Some (char_of (13 :: nat))
      else if c = CHR ''t'' then Some (char_of (9 :: nat))
      else None)"

text \<open>The contents of a string literal after its opening quote, and what follows the closing one.\<close>

function lexString :: "string \<Rightarrow> (string \<times> string) option" where
  "lexString [] = None"
| "lexString (c # cs) =
     (if c = quote_char then Some ([], cs)
      else if c = backslash then
        (case cs of
           [] \<Rightarrow> None
         | e # cs' \<Rightarrow>
             if e = CHR ''u'' then
               (case hex4 cs' of
                  None \<Rightarrow> None
                | Some r \<Rightarrow>
                    let (rune, used) = escapedRune r (drop 4 cs')
                    in map_option (apfst ((@) (encodeRune rune))) (lexString (drop (4 + used) cs')))
             else
               (case simpleEscape e of
                  None \<Rightarrow> None
                | Some x \<Rightarrow> map_option (apfst ((#) x)) (lexString cs')))
      else if byte c < 32 then None
      else if byte c < 128 then map_option (apfst ((#) c)) (lexString cs)
      else
        let (rune, size) = decodeRune (c # cs)
        in map_option (apfst ((@) (encodeRune rune))) (lexString (drop size (c # cs))))"
  by pat_completeness auto
termination
  by (relation "measure length") (auto simp del: decodeRune.simps drop_Cons dest: drop_rune)

text \<open>A number: a sign, an integer part without leading zeros, a fraction and an exponent.\<close>

definition exponentOk :: "string \<Rightarrow> bool" where
  "exponentOk s \<longleftrightarrow>
     (case s of
        [] \<Rightarrow> True
      | e # ds \<Rightarrow>
          (e = CHR ''e'' \<or> e = CHR ''E'') \<and>
          (let ds = (case ds of sg # ds' \<Rightarrow> if sg = CHR ''+'' \<or> sg = CHR ''-'' then ds' else ds | [] \<Rightarrow> [])
           in ds \<noteq> [] \<and> list_all is_digit ds))"

definition fractionOk :: "string \<Rightarrow> bool" where
  "fractionOk s \<longleftrightarrow>
     (case s of
        dot # ds \<Rightarrow>
          if dot = CHR ''.'' then
            takeWhile is_digit ds \<noteq> [] \<and> exponentOk (dropWhile is_digit ds)
          else exponentOk s
      | [] \<Rightarrow> True)"

definition numberOk :: "string \<Rightarrow> bool" where
  "numberOk s \<longleftrightarrow>
     (let s = (case s of m # ds \<Rightarrow> if m = CHR ''-'' then ds else s | [] \<Rightarrow> [])
      in case s of
           [] \<Rightarrow> False
         | d # ds \<Rightarrow>
             if d = CHR ''0'' then fractionOk ds
             else is_digit d \<and> fractionOk (dropWhile is_digit ds))"

definition number_char :: "char \<Rightarrow> bool" where
  "number_char c \<longleftrightarrow> is_digit c \<or> c \<in> set ''+-.eE''"

definition is_space :: "char \<Rightarrow> bool" where
  "is_space c \<longleftrightarrow> byte c \<in> {32, 9, 13, 10}"

definition punctuation :: "char \<Rightarrow> token option" where
  "punctuation c =
     (if c = CHR ''{'' then Some LBrace else if c = CHR ''}'' then Some RBrace
      else if c = CHR ''['' then Some LBracket else if c = CHR '']'' then Some RBracket
      else if c = CHR '':'' then Some Colon else if c = CHR '','' then Some Comma else None)"

lemma lexString_rest: "lexString s = Some (x, rest) \<Longrightarrow> length rest < length s"
proof (induction s arbitrary: x rest rule: lexString.induct)
  case (2 c cs)
  consider "c = quote_char" | "c = backslash" "c \<noteq> quote_char" | "c \<notin> {quote_char, backslash}" "byte c < 128"
    | "c \<notin> {quote_char, backslash}" "128 \<le> byte c" by fastforce
  then show ?case
  proof cases
    case 2
    show ?thesis
    proof (cases cs)
      case (Cons e cs')
      then show ?thesis
        using 2 "2.prems" "2.IH"(1) [OF 2(2,1) Cons] "2.IH"(2) [OF 2(2,1) Cons]
        by (fastforce split: if_splits option.splits prod.splits)
    qed (use 2 "2.prems" in simp)
  next
    case 3
    then show ?thesis using "2.prems" "2.IH"(3) by (fastforce split: if_splits)
  next
    case 4
    obtain r n where rs: "decodeRune (c # cs) = (r, n)" by fastforce
    then obtain y where "lexString (drop n (c # cs)) = Some (y, rest)"
      using 4 "2.prems" by (auto simp del: decodeRune.simps split: if_splits)
    then have "length rest < length (drop n (c # cs))" using "2.IH"(4) [OF _ _ _ _ rs [symmetric] refl] 4 by simp
    then show ?thesis using drop_rune [OF rs [symmetric]] by simp
  qed (use "2.prems" in auto)
qed simp

function lexJSON :: "string \<Rightarrow> token list option" where
  "lexJSON [] = Some []"
| "lexJSON (c # cs) =
     (if is_space c then lexJSON cs
      else case punctuation c of
        Some t \<Rightarrow> map_option ((#) t) (lexJSON cs)
      | None \<Rightarrow>
          if c = quote_char then
            (case lexString cs of
               None \<Rightarrow> None
             | Some (s, rest) \<Rightarrow> map_option ((#) (TStr s)) (lexJSON rest))
          else if c = CHR ''-'' \<or> is_digit c then
            (let num = c # takeWhile number_char cs
             in if numberOk num then map_option ((#) (TNum num)) (lexJSON (dropWhile number_char cs)) else None)
          else if HasPrefix (c # cs) ''true'' then map_option ((#) (TBool True)) (lexJSON (drop 3 cs))
          else if HasPrefix (c # cs) ''false'' then map_option ((#) (TBool False)) (lexJSON (drop 4 cs))
          else if HasPrefix (c # cs) ''null'' then map_option ((#) TNull) (lexJSON (drop 3 cs))
          else None)"
  by pat_completeness auto
termination
  by (relation "measure length") (auto dest: lexString_rest simp: less_Suc_eq_le length_dropWhile_le)

section \<open>Reading: the states of the scanner\<close>

text \<open>
  An open array or object: the elements so far, the members so far, the members so far and the
  key of the next one. The document is valid when the tokens end after a value with nothing open.
\<close>

datatype frame = InArray "json list" | InObject "(string \<times> json) list" | InMember "(string \<times> json) list" string

datatype scanState =
  BeginValue | BeginValueOrEmpty | BeginString | BeginStringOrEmpty | AfterKey string | EndValue json

definition beginValue :: "token \<Rightarrow> frame list \<Rightarrow> (scanState \<times> frame list) option" where
  "beginValue t open_frames =
     (case t of
        LBrace \<Rightarrow> Some (BeginStringOrEmpty, InObject [] # open_frames)
      | LBracket \<Rightarrow> Some (BeginValueOrEmpty, InArray [] # open_frames)
      | TStr s \<Rightarrow> Some (EndValue (JStr s), open_frames)
      | TNum n \<Rightarrow> Some (EndValue (JNum n), open_frames)
      | TBool b \<Rightarrow> Some (EndValue (JBool b), open_frames)
      | TNull \<Rightarrow> Some (EndValue JNull, open_frames)
      | _ \<Rightarrow> None)"

definition endValue :: "json \<Rightarrow> token \<Rightarrow> frame list \<Rightarrow> (scanState \<times> frame list) option" where
  "endValue v t open_frames =
     (case (open_frames, t) of
        (InArray vs # fs, Comma) \<Rightarrow> Some (BeginValue, InArray (vs @ [v]) # fs)
      | (InArray vs # fs, RBracket) \<Rightarrow> Some (EndValue (JArr (vs @ [v])), fs)
      | (InMember kvs k # fs, Comma) \<Rightarrow> Some (BeginString, InObject (kvs @ [(k, v)]) # fs)
      | (InMember kvs k # fs, RBrace) \<Rightarrow> Some (EndValue (JObj (kvs @ [(k, v)])), fs)
      | _ \<Rightarrow> None)"

fun scanStep :: "scanState \<Rightarrow> token \<Rightarrow> frame list \<Rightarrow> (scanState \<times> frame list) option" where
  "scanStep BeginValue t fs = beginValue t fs"
| "scanStep BeginValueOrEmpty RBracket (InArray [] # fs) = Some (EndValue (JArr []), fs)"
| "scanStep BeginValueOrEmpty t fs = beginValue t fs"
| "scanStep BeginStringOrEmpty RBrace (InObject [] # fs) = Some (EndValue (JObj []), fs)"
| "scanStep BeginStringOrEmpty (TStr k) fs = Some (AfterKey k, fs)"
| "scanStep BeginString (TStr k) fs = Some (AfterKey k, fs)"
| "scanStep (AfterKey k) Colon (InObject kvs # fs) = Some (BeginValue, InMember kvs k # fs)"
| "scanStep (EndValue v) t fs = endValue v t fs"
| "scanStep _ _ _ = None"

fun scan :: "token list \<Rightarrow> scanState \<Rightarrow> frame list \<Rightarrow> json option" where
  "scan [] st fs = (case (st, fs) of (EndValue v, []) \<Rightarrow> Some v | _ \<Rightarrow> None)"
| "scan (t # ts) st fs =
     (case scanStep st t fs of None \<Rightarrow> None | Some (st', fs') \<Rightarrow> scan ts st' fs')"

definition parseJSON :: "string \<Rightarrow> json option" where
  "parseJSON text = (case lexJSON text of None \<Rightarrow> None | Some ts \<Rightarrow> scan ts BeginValue [])"

section \<open>Reading back what was written\<close>

fun joinTokens :: "token list list \<Rightarrow> token list" where
  "joinTokens [] = []"
| "joinTokens [ts] = ts"
| "joinTokens (ts # us # tss) = ts @ Comma # joinTokens (us # tss)"

fun tokensOf :: "json \<Rightarrow> token list" where
  "tokensOf JNull = [TNull]"
| "tokensOf (JBool b) = [TBool b]"
| "tokensOf (JNum n) = [TNum n]"
| "tokensOf (JStr s) = [TStr s]"
| "tokensOf (JArr js) = LBracket # joinTokens (map tokensOf js) @ [RBracket]"
| "tokensOf (JObj kvs) = LBrace # joinTokens (map (\<lambda>(k, v). TStr k # Colon # tokensOf v) kvs) @ [RBrace]"

text \<open>What \<open>Marshal\<close> gets: numbers it formats, and here strings in ASCII.\<close>

fun json_ok :: "json \<Rightarrow> bool" where
  "json_ok (JNum n) \<longleftrightarrow> numberOk n \<and> list_all number_char n"
| "json_ok (JStr s) \<longleftrightarrow> ascii s"
| "json_ok (JArr js) \<longleftrightarrow> list_all json_ok js"
| "json_ok (JObj kvs) \<longleftrightarrow> list_all (\<lambda>(k, v). ascii k \<and> json_ok v) kvs"
| "json_ok _ \<longleftrightarrow> True"

lemma scan_elements:
  assumes "\<And>j ts fs. j \<in> set js \<Longrightarrow> scan (tokensOf j @ ts) BeginValue fs = scan ts (EndValue j) fs" and "js \<noteq> []"
  shows "scan (joinTokens (map tokensOf js) @ RBracket # ts) BeginValue (InArray vs # fs) =
    scan ts (EndValue (JArr (vs @ js))) fs"
  using assms
proof (induction js arbitrary: vs rule: induct_list012)
  case (3 j k js)
  have "scan (joinTokens (map tokensOf (k # js)) @ RBracket # ts) BeginValue (InArray (vs @ [j]) # fs) =
      scan ts (EndValue (JArr ((vs @ [j]) @ k # js))) fs"
    by (rule "3.IH"(2)) (use "3.prems"(1) in auto)
  then show ?case using "3.prems"(1) [of j] by (simp add: endValue_def)
qed (simp_all add: endValue_def)

lemma scan_members:
  assumes "\<And>k j ts fs. (k, j) \<in> set kvs \<Longrightarrow> scan (tokensOf j @ ts) BeginValue fs = scan ts (EndValue j) fs" and "kvs \<noteq> []"
  shows "scan (joinTokens (map (\<lambda>(k, v). TStr k # Colon # tokensOf v) kvs) @ RBrace # ts) BeginString (InObject vs # fs) =
    scan ts (EndValue (JObj (vs @ kvs))) fs"
  using assms
proof (induction kvs arbitrary: vs rule: induct_list012)
  case (2 e)
  then show ?case by (cases e) (simp add: endValue_def)
next
  case (3 e e' kvs)
  have "scan (joinTokens (map (\<lambda>(k, v). TStr k # Colon # tokensOf v) (e' # kvs)) @ RBrace # ts) BeginString (InObject (vs @ [e]) # fs) =
      scan ts (EndValue (JObj ((vs @ [e]) @ e' # kvs))) fs"
    by (rule "3.IH"(2)) (use "3.prems"(1) in auto)
  then show ?case using "3.prems"(1) [of "fst e" "snd e"] by (cases e) (simp add: endValue_def)
qed simp

lemma joinTokens_Nil: "(\<And>ts. ts \<in> set tss \<Longrightarrow> ts \<noteq> []) \<Longrightarrow> joinTokens tss = [] \<longleftrightarrow> tss = []"
  by (cases tss rule: joinTokens.cases) auto

lemma hd_joinTokens: "ts \<noteq> [] \<Longrightarrow> joinTokens (ts # tss) = hd ts # tl (joinTokens (ts # tss))"
  by (cases tss) (simp_all add: hd_Cons_tl)

text \<open>The first token of a value closes no array, so the states that allow an empty one make no difference.\<close>

lemma value_start: "\<exists>t ts. tokensOf j = t # ts \<and> t \<noteq> RBracket"
  by (cases j) simp_all

lemma scanStep_start: "t \<noteq> RBracket \<Longrightarrow> scanStep BeginValueOrEmpty t fs = beginValue t fs"
  by (cases t) simp_all

lemma scan_array_start:
  "js \<noteq> [] \<Longrightarrow> scan (joinTokens (map tokensOf js) @ ts) BeginValueOrEmpty fs = scan (joinTokens (map tokensOf js) @ ts) BeginValue fs"
proof -
  assume "js \<noteq> []"
  then obtain j js' where js: "js = j # js'" by (cases js) auto
  obtain t us where t: "tokensOf j = t # us" "t \<noteq> RBracket" using value_start by blast
  have "joinTokens (map tokensOf js) = t # tl (joinTokens (map tokensOf js))"
    using hd_joinTokens [of "tokensOf j" "map tokensOf js'"] t(1) by (simp add: js)
  then show ?thesis using t(2) scanStep_start by (metis append_Cons scan.simps(2) scanStep.simps(1))
qed

lemma scan_object_start:
  assumes "kvs \<noteq> []"
  shows "scan (joinTokens (map (\<lambda>(k, v). TStr k # Colon # tokensOf v) kvs) @ ts) BeginStringOrEmpty fs =
    scan (joinTokens (map (\<lambda>(k, v). TStr k # Colon # tokensOf v) kvs) @ ts) BeginString fs"
proof -
  obtain k v kvs' where kvs: "kvs = (k, v) # kvs'" using assms by (cases kvs) auto
  obtain us where "joinTokens (map (\<lambda>(k, v). TStr k # Colon # tokensOf v) kvs) = TStr k # us"
    using hd_joinTokens [of "TStr k # Colon # tokensOf v" "map (\<lambda>(k, v). TStr k # Colon # tokensOf v) kvs'"]
    by (simp add: kvs)
  then show ?thesis by simp
qed

lemma scan_tokensOf: "scan (tokensOf j @ ts) BeginValue fs = scan ts (EndValue j) fs"
proof (induction j arbitrary: ts fs)
  case (JArr js)
  show ?case
  proof (cases "js = []")
    case False
    then show ?thesis
      using scan_elements [of js ts "[]" fs] JArr.IH scan_array_start [of js "RBracket # ts" "InArray [] # fs"]
      by (simp add: beginValue_def)
  qed (simp add: beginValue_def)
next
  case (JObj kvs)
  show ?case
  proof (cases "kvs = []")
    case False
    have "scan (tokensOf v @ us) BeginValue gs = scan us (EndValue v) gs" if "(k, v) \<in> set kvs" for k v us gs
      using JObj.IH [OF that] by simp
    then show ?thesis
      using scan_members [of kvs ts "[]" fs] False scan_object_start [OF False, of "RBrace # ts" "InObject [] # fs"]
      by (simp add: beginValue_def)
  qed (simp add: beginValue_def)
qed (simp_all add: beginValue_def)

lemma hexNum_hexChar: "n < 16 \<Longrightarrow> hexNum (hexChar n) = Some n"
proof -
  assume "n < 16"
  then consider "n < 10" | "n \<in> {10, 11, 12, 13, 14, 15}" by fastforce
  then show ?thesis
  proof cases
    case 1
    then have "n \<in> {0, 1, 2, 3, 4, 5, 6, 7, 8, 9}" by fastforce
    then show ?thesis by (elim insertE emptyE; simp only:) code_simp+
  next
    case 2
    then show ?thesis by (elim insertE emptyE; simp only:) code_simp+
  qed
qed

lemma char_of_byte [simp]: "char_of (byte c) = c"
  by (simp add: byte_def)

lemma byte_less: "byte c < 256"
  by (simp add: byte_def)

lemma byte_inj: "byte c = byte d \<longleftrightarrow> c = d"
  by (simp add: byte_def)

lemma lexString_escapeChar:
  assumes "byte c < 128" and "\<not> htmlSafe c"
  shows "lexString (escapeChar c @ cs) = map_option (apfst ((#) c)) (lexString cs)"
proof -
  have nq: "quote_char \<noteq> backslash" by code_simp
  consider "c = quote_char \<or> c = backslash" | "c \<notin> {quote_char, backslash}" "byte c \<in> {10, 13, 9}"
    | "c \<notin> {quote_char, backslash}" "byte c \<notin> {10, 13, 9}" by fastforce
  then show ?thesis
  proof cases
    case 1
    moreover have "quote_char \<noteq> CHR ''u''" "backslash \<noteq> CHR ''u''" by code_simp+
    ultimately show ?thesis using nq by (auto simp: escapeChar_def simpleEscape_def)
  next
    case 2
    then have "c \<in> {char_of (10::nat), char_of (13::nat), char_of (9::nat)}"
      by (metis char_of_byte insertE insertI1 insertI2 singletonD)
    then show ?thesis
      using nq 2 by (auto simp: escapeChar_def simpleEscape_def byte_def quote_char_def backslash_def)
  next
    case 3
    have "hexNum (hexChar (byte c div 16)) = Some (byte c div 16)" "hexNum (hexChar (byte c mod 16)) = Some (byte c mod 16)"
      using byte_less [of c] by (auto intro: hexNum_hexChar)
    moreover have "hexNum CHR ''0'' = Some 0" by code_simp
    ultimately have "hex4 ([CHR ''0'', CHR ''0'', hexChar (byte c div 16), hexChar (byte c mod 16)] @ cs) = Some (byte c)"
      by simp
    moreover have "escapedRune (byte c) cs = (byte c, 0)" using assms(1) by (simp add: escapedRune_def)
    moreover have "encodeRune (byte c) = [c]" using assms(1) by (simp add: encodeRune_def Let_def)
    moreover have "(@) [c] = (#) c" by (simp add: fun_eq_iff)
    ultimately show ?thesis using nq 3 by (simp add: escapeChar_def)
  qed
qed

lemma lexString_escape: "ascii s \<Longrightarrow> lexString (escape s @ quote_char # rest) = Some (s, rest)"
proof (induction s)
  case (Cons c s)
  then have c: "byte c < 128" and IH: "lexString (escape s @ quote_char # rest) = Some (s, rest)"
    by (simp_all add: ascii_def)
  show ?case
  proof (cases "htmlSafe c")
    case True
    then have "c \<noteq> quote_char" "c \<noteq> backslash" "\<not> byte c < 32" by (simp_all add: htmlSafe_def)
    then show ?thesis using c True IH by simp
  next
    case False
    then show ?thesis using c IH by (simp add: lexString_escapeChar)
  qed
qed simp

lemma lex_quote: "ascii s \<Longrightarrow> lexJSON (quote s @ rest) = map_option ((#) (TStr s)) (lexJSON rest)"
proof -
  assume "ascii s"
  moreover have "\<not> is_space quote_char" "punctuation quote_char = None" by code_simp+
  ultimately show ?thesis by (simp add: quote_def lexString_escape)
qed

definition number_ends :: "string \<Rightarrow> bool" where
  "number_ends s \<longleftrightarrow> (case s of [] \<Rightarrow> True | c # cs \<Rightarrow> \<not> number_char c)"

lemma number_first: "numberOk n \<Longrightarrow> \<exists>c cs. n = c # cs \<and> (c = CHR ''-'' \<or> is_digit c)"
  by (cases n) (auto simp: numberOk_def is_digit_def Let_def split: if_splits list.splits)

lemma digit_byte: "is_digit c \<Longrightarrow> 48 \<le> byte c \<and> byte c \<le> 57"
  by (simp add: is_digit_def byte_def less_eq_char_def)

lemma number_start:
  assumes "c = CHR ''-'' \<or> is_digit c"
  shows "\<not> is_space c" and "punctuation c = None" and "c \<noteq> quote_char"
proof -
  have "byte c = 45 \<or> 48 \<le> byte c \<and> byte c \<le> 57"
    using assms digit_byte by (auto simp: byte_def)
  then have "byte c \<notin> {32, 9, 13, 10, 123, 125, 91, 93, 58, 44, 34}" by auto
  then show "\<not> is_space c" "punctuation c = None" "c \<noteq> quote_char"
    by (auto simp: is_space_def punctuation_def quote_char_def byte_def)
qed

lemma takeWhile_number: "list_all number_char n \<Longrightarrow> number_ends rest \<Longrightarrow>
    takeWhile number_char (n @ rest) = n \<and> dropWhile number_char (n @ rest) = rest"
  by (induction n) (simp_all add: number_ends_def split: list.splits)

lemma lex_number:
  assumes "numberOk n" and "list_all number_char n" and "number_ends rest"
  shows "lexJSON (n @ rest) = map_option ((#) (TNum n)) (lexJSON rest)"
proof -
  obtain c cs where n: "n = c # cs" "c = CHR ''-'' \<or> is_digit c" using number_first [OF assms(1)] by blast
  moreover have "takeWhile number_char (cs @ rest) = cs" "dropWhile number_char (cs @ rest) = rest"
    using takeWhile_number [of cs rest] assms(2,3) n(1) by simp_all
  ultimately show ?thesis using number_start [OF n(2)] assms(1) by simp
qed

lemma lex_punctuation: "punctuation c = Some t \<Longrightarrow> \<not> is_space c \<Longrightarrow> lexJSON (c # cs) = map_option ((#) t) (lexJSON cs)"
  by simp

lemma punct_simps:
  "lexJSON (CHR ''['' # cs) = map_option ((#) LBracket) (lexJSON cs)"
  "lexJSON (CHR '']'' # cs) = map_option ((#) RBracket) (lexJSON cs)"
  "lexJSON (CHR ''{'' # cs) = map_option ((#) LBrace) (lexJSON cs)"
  "lexJSON (CHR ''}'' # cs) = map_option ((#) RBrace) (lexJSON cs)"
  "lexJSON (CHR '':'' # cs) = map_option ((#) Colon) (lexJSON cs)"
  "lexJSON (CHR '','' # cs) = map_option ((#) Comma) (lexJSON cs)"
  by (rule lex_punctuation; code_simp)+

lemma number_ends_simps [simp]:
  "number_ends []" "number_ends (CHR '','' # cs)" "number_ends (CHR '']'' # cs)" "number_ends (CHR ''}'' # cs)"
  by (simp_all add: number_ends_def number_char_def is_digit_def)

lemma lex_Join:
  assumes "\<And>x rest. x \<in> set xs \<Longrightarrow> number_ends rest \<Longrightarrow> lexJSON (f x @ rest) = map_option ((@) (g x)) (lexJSON rest)"
    and "number_ends rest"
  shows "lexJSON (Join (map f xs) '','' @ rest) = map_option ((@) (joinTokens (map g xs))) (lexJSON rest)"
  using assms
proof (induction xs rule: induct_list012)
  case 1
  then show ?case by (simp add: map_option.identity fun_eq_iff)
next
  case (3 x y xs)
  have "lexJSON (Join (map f (y # xs)) '','' @ rest) = map_option ((@) (joinTokens (map g (y # xs)))) (lexJSON rest)"
    by (rule "3.IH"(2)) (use "3.prems" in auto)
  then show ?case
    using "3.prems"(1) [of x "CHR '','' # Join (map f (y # xs)) '','' @ rest"]
    by (simp add: punct_simps option.map_comp comp_def del: lexJSON.simps)
qed simp

lemma lex_literals:
  "lexJSON (''null'' @ rest) = map_option ((#) TNull) (lexJSON rest)"
  "lexJSON (''true'' @ rest) = map_option ((#) (TBool True)) (lexJSON rest)"
  "lexJSON (''false'' @ rest) = map_option ((#) (TBool False)) (lexJSON rest)"
  by (simp_all add: is_space_def byte_def punctuation_def quote_char_def is_digit_def HasPrefix_def)

lemma lex_print: "json_ok j \<Longrightarrow> number_ends rest \<Longrightarrow> lexJSON (printJSON j @ rest) = map_option ((@) (tokensOf j)) (lexJSON rest)"
proof (induction j arbitrary: rest)
  case JNull
  then show ?case using lex_literals(1) by (simp del: lexJSON.simps)
next
  case (JBool b)
  then show ?case using lex_literals(2,3) by (simp del: lexJSON.simps)
next
  case (JNum n)
  then show ?case using lex_number by (simp del: lexJSON.simps)
next
  case (JStr s)
  then show ?case using lex_quote by (simp del: lexJSON.simps)
next
  case (JArr js)
  have "lexJSON (Join (map printJSON js) '','' @ '']'' @ rest) =
      map_option ((@) (joinTokens (map tokensOf js))) (lexJSON ('']'' @ rest))"
    by (rule lex_Join) (use JArr in \<open>auto simp: list_all_iff\<close>)
  then show ?case by (simp add: punct_simps option.map_comp comp_def del: lexJSON.simps)
next
  case (JObj kvs)
  have "lexJSON (Join (map (\<lambda>(k, v). quote k @ CHR '':'' # printJSON v) kvs) '','' @ ''}'' @ rest) =
      map_option ((@) (joinTokens (map (\<lambda>(k, v). TStr k # Colon # tokensOf v) kvs))) (lexJSON (''}'' @ rest))"
  proof (rule lex_Join)
    fix e rest assume e: "e \<in> set kvs" and rest: "number_ends rest"
    obtain k v where kv: "e = (k, v)" by (cases e)
    have ok: "ascii k" "json_ok v" using JObj.prems(1) e kv by (auto simp: list_all_iff)
    have "lexJSON (printJSON v @ rest) = map_option ((@) (tokensOf v)) (lexJSON rest)"
      using JObj.IH [of e v rest] e kv ok(2) rest by simp
    then show "lexJSON ((case e of (k, v) \<Rightarrow> quote k @ CHR '':'' # printJSON v) @ rest) =
        map_option ((@) (case e of (k, v) \<Rightarrow> TStr k # Colon # tokensOf v)) (lexJSON rest)"
      using ok(1) kv by (cases "lexJSON rest") (simp_all add: lex_quote punct_simps del: lexJSON.simps)
  qed simp
  then show ?case by (simp add: punct_simps option.map_comp comp_def del: lexJSON.simps)
qed

theorem parse_print: "json_ok j \<Longrightarrow> parseJSON (printJSON j) = Some j"
  using lex_print [of j "[]"] scan_tokensOf [of j "[]" "[]"] by (simp add: parseJSON_def)

section \<open>Storing a document into Go values\<close>

text \<open>
  A decoder stores a document into a value that may hold something already; \<open>None\<close> is an error about
  a type, after which \<open>Unmarshal\<close> reports an error whatever else it stored. \<open>null\<close> leaves a string and a
  struct as they are. Members of an object that the struct does not have are ignored; keys match
  field names without regard to case, including the two runes outside ASCII that fold to letters.
\<close>

type_synonym 'a decoder = "json \<Rightarrow> 'a \<Rightarrow> 'a option"

definition decString :: "string decoder" where
  "decString j old = (case j of JStr s \<Rightarrow> Some s | JNull \<Rightarrow> Some old | _ \<Rightarrow> None)"

definition lower :: "char \<Rightarrow> char" where
  "lower c = (if CHR ''A'' \<le> c \<and> c \<le> CHR ''Z'' then char_of (byte c + 32) else c)"

fun equalFold :: "string \<Rightarrow> string \<Rightarrow> bool" where
  "equalFold [] key \<longleftrightarrow> key = []"
| "equalFold (c # name) [] \<longleftrightarrow> False"
| "equalFold (c # name) (d # key) \<longleftrightarrow>
     (if byte d < 128 then (c = d \<or> lower c = lower d) \<and> equalFold name key
      else
        let (r, size) = decodeRune (d # key) in
        (if lower c = CHR ''s'' then r = 383 else lower c = CHR ''k'' \<and> r = 8490) \<and>
        equalFold name (drop size (d # key)))"

fun lookupField :: "(string \<times> 'd) list \<Rightarrow> string \<Rightarrow> 'd option" where
  "lookupField [] key = None"
| "lookupField ((name, d) # fields) key =
     (if name = key then Some d
      else if equalFold name key then (case map_of fields key of Some d' \<Rightarrow> Some d' | None \<Rightarrow> Some d)
      else lookupField fields key)"

fun decMembers :: "(string \<times> 'a decoder) list \<Rightarrow> (string \<times> json) list \<Rightarrow> 'a \<Rightarrow> 'a option" where
  "decMembers fields [] v = Some v"
| "decMembers fields ((k, j) # kvs) v =
     (case lookupField fields k of
        None \<Rightarrow> decMembers fields kvs v
      | Some dec \<Rightarrow> (case dec j v of None \<Rightarrow> None | Some v' \<Rightarrow> decMembers fields kvs v'))"

definition decStruct :: "(string \<times> 'a decoder) list \<Rightarrow> 'a decoder" where
  "decStruct fields j old =
     (case j of JObj kvs \<Rightarrow> decMembers fields kvs old | JNull \<Rightarrow> Some old | _ \<Rightarrow> None)"

text \<open>
  A slice: its length and its backing array. Elements are stored in place; a full array is copied
  into one with half as much room again, and at least four places.
\<close>

record 'a slice =
  sLen :: nat
  sBacking :: "'a list"

definition nilSlice :: "'a slice" where "nilSlice = \<lparr>sLen = 0, sBacking = []\<rparr>"

definition elems :: "'a slice \<Rightarrow> 'a list" where "elems s = take (sLen s) (sBacking s)"

definition grow :: "'a \<Rightarrow> 'a list \<Rightarrow> 'a list" where
  "grow zero backing =
     (let newcap = max 4 (length backing + length backing div 2)
      in backing @ replicate (newcap - length backing) zero)"

fun decElements :: "'a \<Rightarrow> 'a decoder \<Rightarrow> nat \<Rightarrow> json list \<Rightarrow> 'a list \<Rightarrow> 'a list option" where
  "decElements zero dec i [] backing = Some backing"
| "decElements zero dec i (j # js) backing =
     (let backing = (if length backing \<le> i then grow zero backing else backing) in
      case dec j (backing ! i) of
        None \<Rightarrow> None
      | Some v \<Rightarrow> decElements zero dec (i + 1) js (backing[i := v]))"

definition decSlice :: "'a \<Rightarrow> 'a decoder \<Rightarrow> 'a slice decoder" where
  "decSlice zero dec j old =
     (case j of
        JNull \<Rightarrow> Some nilSlice
      | JArr [] \<Rightarrow> Some nilSlice
      | JArr js \<Rightarrow> map_option (\<lambda>b. \<lparr>sLen = length js, sBacking = b\<rparr>) (decElements zero dec 0 js (sBacking old))
      | _ \<Rightarrow> None)"

text \<open>Every value of a map is stored into a fresh element.\<close>

fun decEntries :: "'a \<Rightarrow> 'a decoder \<Rightarrow> (string \<times> json) list \<Rightarrow> (string \<times> 'a) list \<Rightarrow> (string \<times> 'a) list option" where
  "decEntries zero dec [] m = Some m"
| "decEntries zero dec ((k, j) # kvs) m =
     (case dec j zero of None \<Rightarrow> None | Some v \<Rightarrow> decEntries zero dec kvs (map_put k v m))"

definition decMap :: "'a \<Rightarrow> 'a decoder \<Rightarrow> (string \<times> 'a) list decoder" where
  "decMap zero dec j old =
     (case j of JObj kvs \<Rightarrow> decEntries zero dec kvs old | JNull \<Rightarrow> Some [] | _ \<Rightarrow> None)"

definition Unmarshal :: "'a decoder \<Rightarrow> 'a \<Rightarrow> string \<Rightarrow> 'a res" where
  "Unmarshal dec zero text =
     (case parseJSON text of
        None \<Rightarrow> Inl (Errorf ''invalid character in JSON input'')
      | Some j \<Rightarrow>
          (case dec j zero of
             None \<Rightarrow> Inl (Errorf ''json: cannot unmarshal value into Go value'')
           | Some v \<Rightarrow> Inr v))"

section \<open>Decoding arrays and maps\<close>

lemma grow_room:
  assumes "length b \<le> i" and "length b = i"
  shows "\<exists>n. grow zero b = b @ zero # replicate n zero"
proof -
  have "0 < max 4 (length b + length b div 2) - length b" by (cases "length b < 4") auto
  then obtain n where "max 4 (length b + length b div 2) - length b = Suc n" by (metis Suc_pred)
  then show ?thesis by (simp add: grow_def)
qed

text \<open>Decoding into an array whose remaining places are zero.\<close>

lemma decElements_fresh:
  assumes "list_all2 (\<lambda>j x. \<exists>v. dec j zero = Some v \<and> R v x) js xs" and "length done_vals = i"
  shows "\<exists>vs m. decElements zero dec i js (done_vals @ replicate n zero) = Some (done_vals @ vs @ replicate m zero) \<and>
    list_all2 R vs xs"
  using assms
proof (induction js arbitrary: xs i n done_vals)
  case Nil
  then show ?case by (intro exI [of _ "[]"] exI [of _ n]) simp
next
  case (Cons j js)
  obtain x xs' v where xs: "xs = x # xs'" "dec j zero = Some v" "R v x"
      "list_all2 (\<lambda>j x. \<exists>v. dec j zero = Some v \<and> R v x) js xs'"
    using Cons.prems(1) by (auto simp: list_all2_Cons1)
  define b where "b = (if length (done_vals @ replicate n zero) \<le> i then grow zero (done_vals @ replicate n zero)
    else done_vals @ replicate n zero)"
  obtain k where b: "b = done_vals @ zero # replicate k zero"
  proof (cases n)
    case 0
    then show ?thesis using grow_room [of done_vals i zero] Cons.prems(2) that by (auto simp: b_def)
  next
    case (Suc n')
    then show ?thesis using Cons.prems(2) that [of n'] by (simp add: b_def)
  qed
  have step: "b ! i = zero" "b[i := v] = (done_vals @ [v]) @ replicate k zero"
    using Cons.prems(2) by (simp_all add: b nth_append list_update_append)
  obtain vs m where "decElements zero dec (i + 1) js ((done_vals @ [v]) @ replicate k zero) =
      Some ((done_vals @ [v]) @ vs @ replicate m zero)" "list_all2 R vs xs'"
    using Cons.IH [OF xs(4), of "done_vals @ [v]" "i + 1" k] Cons.prems(2) by auto
  moreover have "decElements zero dec i (j # js) (done_vals @ replicate n zero) =
      (case dec j (b ! i) of None \<Rightarrow> None | Some v \<Rightarrow> decElements zero dec (i + 1) js (b[i := v]))"
    by (simp only: decElements.simps Let_def b_def)
  ultimately show ?case using xs(1-3) step by (intro exI [of _ "v # vs"] exI [of _ m]) simp
qed

lemma decSlice_fresh:
  assumes "list_all2 (\<lambda>j x. \<exists>v. dec j zero = Some v \<and> R v x) js xs"
  shows "\<exists>s. decSlice zero dec (JArr js) nilSlice = Some s \<and> list_all2 R (elems s) xs"
proof (cases js)
  case Nil
  then show ?thesis using assms by (simp add: decSlice_def elems_def nilSlice_def)
next
  case (Cons j js')
  have "\<exists>vs m. decElements zero dec 0 js ([] @ replicate 0 zero) = Some ([] @ vs @ replicate m zero) \<and> list_all2 R vs xs"
    by (rule decElements_fresh) (use assms in simp_all)
  then obtain vs m where "decElements zero dec 0 js [] = Some (vs @ replicate m zero)" "list_all2 R vs xs" by auto
  moreover have "length vs = length js"
    using list_all2_lengthD [OF calculation(2)] list_all2_lengthD [OF assms] by simp
  ultimately show ?thesis using Cons by (simp add: decSlice_def elems_def nilSlice_def)
qed

lemma decEntries_fresh:
  assumes "list_all2 (\<lambda>(k, j) (k', x). k = k' \<and> (\<exists>v. dec j zero = Some v \<and> R v x)) kvs xs"
    and "keys_distinct (m @ map (\<lambda>(k, j). (k, zero)) kvs)"
  shows "\<exists>vs. decEntries zero dec kvs m = Some (m @ vs) \<and> list_all2 (\<lambda>(k, v) (k', x). k = k' \<and> R v x) vs xs"
  using assms
proof (induction kvs arbitrary: xs m)
  case (Cons e kvs)
  obtain k j where e: "e = (k, j)" by (cases e)
  obtain x xs' v where xs: "xs = (k, x) # xs'" "dec j zero = Some v" "R v x"
      "list_all2 (\<lambda>(k, j) (k', x). k = k' \<and> (\<exists>v. dec j zero = Some v \<and> R v x)) kvs xs'"
    using Cons.prems(1) e by (auto simp: list_all2_Cons1)
  have "k \<notin> fst ` set m" using Cons.prems(2) e by auto
  then have put: "map_put k v m = m @ [(k, v)]" by (induction k v m rule: map_put.induct) auto
  have "keys_distinct ((m @ [(k, v)]) @ map (\<lambda>(k, j). (k, zero)) kvs)" using Cons.prems(2) e by (simp add: comp_def)
  then obtain vs where "decEntries zero dec kvs (m @ [(k, v)]) = Some ((m @ [(k, v)]) @ vs)"
      "list_all2 (\<lambda>(k, v) (k', x). k = k' \<and> R v x) vs xs'"
    using Cons.IH [OF xs(4)] by blast
  then show ?case using xs e put by (intro exI [of _ "(k, v) # vs"]) simp
qed simp

end
