(* ===== verification/Cluster_Selector.thy ===== *)
theory Cluster_Selector
  imports Kube_Types Go_JSON
begin

text \<open>
  Which clusters an ingress is sent to: the cluster selector annotation
  (\<open>federation-controller/util/clusterselector\<close>) with the label selectors it is turned into
  (\<open>apimachinery/pkg/labels\<close>) and the validation of their keys and values. The parser of the
  annotation's JSON text is an argument.
\<close>

section \<open>Validation\<close>

definition is_lower :: "char \<Rightarrow> bool" where
  "is_lower c \<longleftrightarrow> CHR ''a'' \<le> c \<and> c \<le> CHR ''z''"

definition is_alnum :: "char \<Rightarrow> bool" where
  "is_alnum c \<longleftrightarrow> is_lower c \<or> CHR ''A'' \<le> c \<and> c \<le> CHR ''Z'' \<or> is_digit c"

definition qnameExtChar :: "char \<Rightarrow> bool" where
  "qnameExtChar c \<longleftrightarrow> is_alnum c \<or> c = CHR ''-'' \<or> c = CHR ''_'' \<or> c = CHR ''.''"

text \<open>The regular expression \<open>(first ext*)?last\<close>, matched against a whole string.\<close>

definition matchQualifiedName :: "string \<Rightarrow> bool" where
  "matchQualifiedName s \<longleftrightarrow> s \<noteq> [] \<and> is_alnum (hd s) \<and> is_alnum (List.last s) \<and> list_all qnameExtChar s"

definition dns1123Char :: "char \<Rightarrow> bool" where
  "dns1123Char c \<longleftrightarrow> is_lower c \<or> is_digit c"

definition matchDNS1123Label :: "string \<Rightarrow> bool" where
  "matchDNS1123Label s \<longleftrightarrow> s \<noteq> [] \<and> dns1123Char (hd s) \<and> dns1123Char (List.last s) \<and>
     list_all (\<lambda>c. dns1123Char c \<or> c = CHR ''-'') s"

definition IsDNS1123Subdomain :: "string \<Rightarrow> bool" where
  "IsDNS1123Subdomain s \<longleftrightarrow> length s \<le> 253 \<and> list_all matchDNS1123Label (Split s CHR ''.'')"

definition validName :: "string \<Rightarrow> bool" where
  "validName name \<longleftrightarrow> 0 < length name \<and> length name \<le> 63 \<and> matchQualifiedName name"

definition IsQualifiedName :: "string \<Rightarrow> bool" where
  "IsQualifiedName s \<longleftrightarrow>
     (case Split s CHR ''/'' of
        [name] \<Rightarrow> validName name
      | [pre, name] \<Rightarrow> length pre \<noteq> 0 \<and> IsDNS1123Subdomain pre \<and> validName name
      | _ \<Rightarrow> False)"

definition IsValidLabelValue :: "string \<Rightarrow> bool" where
  "IsValidLabelValue v \<longleftrightarrow> length v \<le> 63 \<and> (v = [] \<or> matchQualifiedName v)"

section \<open>Requirements\<close>

datatype Operator =
  DoesNotExist | Equals | DoubleEquals | In | NotEquals | NotIn | Exists | GreaterThan | LessThan
| NoOperator

record Requirement =
  rqKey :: string
  rqOperator :: Operator
  rqValues :: "string list"

definition NewRequirement :: "string \<Rightarrow> Operator \<Rightarrow> string list \<Rightarrow> Requirement res" where
  "NewRequirement key op vals =
     (if \<not> IsQualifiedName key then Inl (Errorf ''invalid label key'')
      else let problem =
        (case op of
           In \<Rightarrow> if length vals = 0 then Some ''values set can't be empty'' else None
         | NotIn \<Rightarrow> if length vals = 0 then Some ''values set can't be empty'' else None
         | Equals \<Rightarrow> if length vals \<noteq> 1 then Some ''exact-match compatibility requires one single value'' else None
         | DoubleEquals \<Rightarrow> if length vals \<noteq> 1 then Some ''exact-match compatibility requires one single value'' else None
         | NotEquals \<Rightarrow> if length vals \<noteq> 1 then Some ''exact-match compatibility requires one single value'' else None
         | Exists \<Rightarrow> if length vals \<noteq> 0 then Some ''values set must be empty'' else None
         | DoesNotExist \<Rightarrow> if length vals \<noteq> 0 then Some ''values set must be empty'' else None
         | GreaterThan \<Rightarrow> if length vals \<noteq> 1 then Some ''exactly one value is required''
             else if list_ex (\<lambda>v. ParseInt v = None) vals then Some ''the value must be an integer'' else None
         | LessThan \<Rightarrow> if length vals \<noteq> 1 then Some ''exactly one value is required''
             else if list_ex (\<lambda>v. ParseInt v = None) vals then Some ''the value must be an integer'' else None
         | NoOperator \<Rightarrow> Some ''operator is not recognized'')
      in case problem of
           Some msg \<Rightarrow> Inl (Errorf msg)
         | None \<Rightarrow> if list_ex (\<lambda>v. \<not> IsValidLabelValue v) vals then Inl (Errorf ''invalid label value'')
             else Inr \<lparr>rqKey = key, rqOperator = op, rqValues = sort vals\<rparr>)"

definition compareLabel :: "(int \<Rightarrow> int \<Rightarrow> bool) \<Rightarrow> Requirement \<Rightarrow> str_map \<Rightarrow> bool" where
  "compareLabel cmp r ls \<longleftrightarrow>
     (case map_of ls (rqKey r) of
        None \<Rightarrow> False
      | Some v \<Rightarrow>
          (case ParseInt v of
             None \<Rightarrow> False
           | Some lsValue \<Rightarrow>
               (case rqValues r of
                  [rv] \<Rightarrow> (case ParseInt rv of None \<Rightarrow> False | Some rValue \<Rightarrow> cmp lsValue rValue)
                | _ \<Rightarrow> False)))"

definition requirementMatches :: "Requirement \<Rightarrow> str_map \<Rightarrow> bool" where
  "requirementMatches r ls \<longleftrightarrow>
     (let label = map_of ls (rqKey r);
          has = (label \<noteq> None);
          hasValue = (case label of None \<Rightarrow> False | Some v \<Rightarrow> v \<in> set (rqValues r))
      in case rqOperator r of
           In \<Rightarrow> has \<and> hasValue
         | Equals \<Rightarrow> has \<and> hasValue
         | DoubleEquals \<Rightarrow> has \<and> hasValue
         | NotIn \<Rightarrow> \<not> has \<or> \<not> hasValue
         | NotEquals \<Rightarrow> \<not> has \<or> \<not> hasValue
         | Exists \<Rightarrow> has
         | DoesNotExist \<Rightarrow> \<not> has
         | GreaterThan \<Rightarrow> compareLabel (>) r ls
         | LessThan \<Rightarrow> compareLabel (<) r ls
         | NoOperator \<Rightarrow> False)"

type_synonym internalSelector = "Requirement list"

definition selectorAdd :: "internalSelector \<Rightarrow> Requirement \<Rightarrow> internalSelector" where
  "selectorAdd lsel r = sort_key rqKey (lsel @ [r])"

definition selectorMatches :: "internalSelector \<Rightarrow> str_map \<Rightarrow> bool" where
  "selectorMatches lsel ls \<longleftrightarrow> list_all (\<lambda>r. requirementMatches r ls) lsel"

section \<open>The annotation\<close>

definition FederationClusterSelectorAnnotation :: string where
  "FederationClusterSelectorAnnotation = ''federation.alpha.kubernetes.io/cluster-selector''"

record ClusterSelectorRequirement =
  csrKey :: string
  csrOperator :: string
  csrValues :: "string list"

definition ConvertOperator :: "string \<Rightarrow> Operator" where
  "ConvertOperator source =
     (if source = ''!'' \<or> source = ''DoesNotExist'' then DoesNotExist
      else if source = ''='' then Equals
      else if source = ''=='' then DoubleEquals
      else if source = ''in'' \<or> source = ''In'' then In
      else if source = ''!='' then NotEquals
      else if source = ''notin'' \<or> source = ''NotIn'' then NotIn
      else if source = ''exists'' \<or> source = ''Exists'' then Exists
      else if source = ''gt'' \<or> source = ''Gt'' \<or> source = ''>'' then GreaterThan
      else if source = ''lt'' \<or> source = ''Lt'' \<or> source = ''<'' then LessThan
      else NoOperator)"

definition addRequirement :: "ClusterSelectorRequirement \<Rightarrow> internalSelector \<Rightarrow> internalSelector res" where
  "addRequirement requirement lsel =
     (case NewRequirement (csrKey requirement) (ConvertOperator (csrOperator requirement)) (csrValues requirement) of
        Inl err \<Rightarrow> Inl err
      | Inr r \<Rightarrow> Inr (selectorAdd lsel r))"

text \<open>
  \<open>json.Unmarshal\<close> into a \<open>ClusterSelector\<close>, a slice of requirements with the tags \<open>key\<close>, \<open>operator\<close> and
  \<open>values\<close>.
\<close>

type_synonym requirementSlot = "string \<times> string \<times> string slice"

definition decRequirement :: "requirementSlot decoder" where
  "decRequirement = decStruct
     [(''key'', \<lambda>j (k, op, vs). map_option (\<lambda>s. (s, op, vs)) (decString j k)),
      (''operator'', \<lambda>j (k, op, vs). map_option (\<lambda>s. (k, s, vs)) (decString j op)),
      (''values'', \<lambda>j (k, op, vs). map_option (\<lambda>s. (k, op, s)) (decSlice [] decString j vs))]"

definition requirementOf :: "requirementSlot \<Rightarrow> ClusterSelectorRequirement" where
  "requirementOf = (\<lambda>(k, op, vs). \<lparr>csrKey = k, csrOperator = op, csrValues = elems vs\<rparr>)"

definition unmarshalSelector :: "string \<Rightarrow> ClusterSelectorRequirement list res" where
  "unmarshalSelector text =
     (case Unmarshal (decSlice ([], [], nilSlice) decRequirement) nilSlice text of
        Inl err \<Rightarrow> Inl err
      | Inr s \<Rightarrow> Inr (map requirementOf (elems s)))"

definition getSelector :: "string \<Rightarrow> internalSelector res" where
  "getSelector annotation =
     (case unmarshalSelector annotation of
        Inl err \<Rightarrow> Inl err
      | Inr requirements \<Rightarrow> for_each addRequirement requirements [])"

definition SendToCluster :: "str_map \<Rightarrow> str_map \<Rightarrow> bool res" where
  "SendToCluster clusterLabels annotations =
     (case map_of annotations FederationClusterSelectorAnnotation of
        None \<Rightarrow> Inr True
      | Some val \<Rightarrow>
          (case getSelector val of
             Inl err \<Rightarrow> Inl err
           | Inr selector \<Rightarrow> Inr (selectorMatches selector clusterLabels)))"

section \<open>What a selector selects\<close>

text \<open>A requirement of the annotation read directly, without sorting its values.\<close>

definition plainRequirement :: "ClusterSelectorRequirement \<Rightarrow> Requirement" where
  "plainRequirement r =
     \<lparr>rqKey = csrKey r, rqOperator = ConvertOperator (csrOperator r), rqValues = csrValues r\<rparr>"

definition validRequirement :: "ClusterSelectorRequirement \<Rightarrow> bool" where
  "validRequirement r \<longleftrightarrow> \<not> isl (NewRequirement (csrKey r) (ConvertOperator (csrOperator r)) (csrValues r))"

lemma NewRequirement_value:
  "NewRequirement key op vals = Inr r \<Longrightarrow> r = \<lparr>rqKey = key, rqOperator = op, rqValues = sort vals\<rparr>"
  by (auto simp: NewRequirement_def Let_def split: if_splits option.splits)

lemma NewRequirement_single:
  "NewRequirement key op vals = Inr r \<Longrightarrow> op = GreaterThan \<or> op = LessThan \<Longrightarrow> \<exists>v. vals = [v]"
  by (auto simp: NewRequirement_def Let_def length_Suc_conv split: if_splits)

lemma matches_plain:
  assumes "NewRequirement (csrKey q) (ConvertOperator (csrOperator q)) (csrValues q) = Inr r"
  shows "requirementMatches r ls = requirementMatches (plainRequirement q) ls"
proof -
  have r: "r = \<lparr>rqKey = csrKey q, rqOperator = ConvertOperator (csrOperator q), rqValues = sort (csrValues q)\<rparr>"
    using NewRequirement_value [OF assms] .
  show ?thesis
  proof (cases "ConvertOperator (csrOperator q) = GreaterThan \<or> ConvertOperator (csrOperator q) = LessThan")
    case True
    then obtain v where "csrValues q = [v]" using NewRequirement_single [OF assms] by blast
    then show ?thesis by (simp add: r plainRequirement_def)
  next
    case False
    then show ?thesis
      by (cases "map_of ls (csrKey q)"; cases "ConvertOperator (csrOperator q)")
        (simp_all add: r plainRequirement_def requirementMatches_def Let_def)
  qed
qed

lemma addRequirements:
  "for_each addRequirement qs lsel =
     (if list_all validRequirement qs
      then for_each addRequirement qs lsel
      else Inl (case NewRequirement (csrKey (hd (filter (\<lambda>q. \<not> validRequirement q) qs)))
        (ConvertOperator (csrOperator (hd (filter (\<lambda>q. \<not> validRequirement q) qs))))
        (csrValues (hd (filter (\<lambda>q. \<not> validRequirement q) qs))) of Inl err \<Rightarrow> err))"
proof (induction qs arbitrary: lsel)
  case (Cons q qs)
  show ?case
  proof (cases "NewRequirement (csrKey q) (ConvertOperator (csrOperator q)) (csrValues q)")
    case (Inl err)
    then show ?thesis by (simp add: addRequirement_def validRequirement_def)
  next
    case (Inr r)
    then show ?thesis using Cons.IH [of "selectorAdd lsel r"] by (simp add: addRequirement_def validRequirement_def)
  qed
qed simp

lemma addRequirements_matches:
  assumes "list_all validRequirement qs"
  shows "\<exists>sel. for_each addRequirement qs lsel = Inr sel \<and>
    (selectorMatches sel ls \<longleftrightarrow> selectorMatches lsel ls \<and> (\<forall>q \<in> set qs. requirementMatches (plainRequirement q) ls))"
  using assms
proof (induction qs arbitrary: lsel)
  case (Cons q qs)
  then obtain r where r: "NewRequirement (csrKey q) (ConvertOperator (csrOperator q)) (csrValues q) = Inr r"
    by (auto simp: validRequirement_def isl_def split: sum.splits) (metis sum.exhaust)
  obtain sel where "for_each addRequirement qs (selectorAdd lsel r) = Inr sel"
    "selectorMatches sel ls \<longleftrightarrow> selectorMatches (selectorAdd lsel r) ls \<and>
       (\<forall>q \<in> set qs. requirementMatches (plainRequirement q) ls)"
    using Cons.IH [of "selectorAdd lsel r"] Cons.prems by auto
  moreover have "selectorMatches (selectorAdd lsel r) ls \<longleftrightarrow> selectorMatches lsel ls \<and> requirementMatches r ls"
    by (auto simp: selectorMatches_def selectorAdd_def list_all_iff)
  moreover have "for_each addRequirement (q # qs) lsel = for_each addRequirement qs (selectorAdd lsel r)"
    using r by (simp add: addRequirement_def)
  ultimately show ?case using matches_plain [OF r, of ls] by (intro exI [of _ sel]) (simp add: conj_assoc)
qed simp


definition exampleSelector :: string where
  "exampleSelector = printJSON (JArr [JObj [(''key'', JStr ''tier''), (''operator'', JStr ''in''),
     (''values'', JArr [JStr ''gold'', JStr ''silver''])]])"


end
