(* ===== verification/LB_Annotation.thy ===== *)
theory LB_Annotation
  imports Go_JSON Kube_Types
begin

text \<open>
  The annotation \<open>kubernetes.io/ingress.global-ingress-lb-status\<close>: the ingress controller writes the
  status of the load balancers by cluster (\<open>BuildGlobalLbStatusAnnotation\<close>), the DNS controller reads it
  (\<open>parseGlobalLbStatusAnnotation\<close>). Here are the JSON forms of the types involved, by their tags
  (\<open>ingress,omitempty\<close>, \<open>ip,omitempty\<close>, \<open>hostname,omitempty\<close>), and the round trip.
\<close>

type_synonym lb_map = "(string \<times> LoadBalancerStatus list) list"

section \<open>Writing\<close>

definition omitempty :: "string \<Rightarrow> string \<Rightarrow> (string \<times> json) list" where
  "omitempty name s = (if s = [] then [] else [(name, JStr s)])"

definition encIngress :: "LoadBalancerIngress \<Rightarrow> json" where
  "encIngress i = JObj (omitempty ''ip'' (lbIP i) @ omitempty ''hostname'' (lbHostname i))"

definition encStatus :: "LoadBalancerStatus \<Rightarrow> json" where
  "encStatus st = JObj (if lbsIngress st = [] then [] else [(''ingress'', JArr (map encIngress (lbsIngress st)))])"

text \<open>A map is written in the order of its keys. The slices in it are never nil: they are the results of appending.\<close>

definition encGlobal :: "lb_map \<Rightarrow> json" where
  "encGlobal m = JObj (map (\<lambda>(k, sts). (k, JArr (map encStatus sts))) (sort_key fst m))"

definition marshalLbStatus :: "lb_map \<Rightarrow> string" where
  "marshalLbStatus m = printJSON (encGlobal m)"

section \<open>Reading\<close>

definition decIngress :: "LoadBalancerIngress decoder" where
  "decIngress = decStruct
     [(''ip'', \<lambda>j i. map_option (\<lambda>s. i\<lparr>lbIP := s\<rparr>) (decString j (lbIP i))),
      (''hostname'', \<lambda>j i. map_option (\<lambda>s. i\<lparr>lbHostname := s\<rparr>) (decString j (lbHostname i)))]"

definition zeroLbIngress :: LoadBalancerIngress where
  "zeroLbIngress = \<lparr>lbIP = [], lbHostname = []\<rparr>"

text \<open>While it is stored, a status is the slice in its only field.\<close>

definition decStatus :: "LoadBalancerIngress slice decoder" where
  "decStatus = decStruct [(''ingress'', decSlice zeroLbIngress decIngress)]"

definition decGlobal :: "(string \<times> LoadBalancerIngress slice slice) list decoder" where
  "decGlobal = decMap nilSlice (decSlice nilSlice decStatus)"

definition statusOf :: "LoadBalancerIngress slice \<Rightarrow> LoadBalancerStatus" where
  "statusOf s = \<lparr>lbsIngress = elems s\<rparr>"

definition unmarshalLbStatus :: "string \<Rightarrow> lb_map res" where
  "unmarshalLbStatus text =
     (case Unmarshal decGlobal [] text of
        Inl err \<Rightarrow> Inl err
      | Inr m \<Rightarrow> Inr (map (\<lambda>(k, s). (k, map statusOf (elems s))) m))"

section \<open>The round trip\<close>

definition lb_ascii :: "LoadBalancerIngress \<Rightarrow> bool" where
  "lb_ascii i \<longleftrightarrow> ascii (lbIP i) \<and> ascii (lbHostname i)"

definition lb_map_ascii :: "lb_map \<Rightarrow> bool" where
  "lb_map_ascii m \<longleftrightarrow>
     list_all (\<lambda>(k, sts). ascii k \<and> list_all (\<lambda>st. list_all lb_ascii (lbsIngress st)) sts) m"

lemma field_lookup:
  "lookupField [(''ip'', a), (''hostname'', b)] ''ip'' = Some a"
  "lookupField [(''ip'', a), (''hostname'', b)] ''hostname'' = Some b"
  "lookupField [(''ingress'', c)] ''ingress'' = Some c"
  by (simp_all add: byte_def lower_def)

lemma decIngress_enc: "decIngress (encIngress i) zeroLbIngress = Some i"
  by (cases i) (simp add: decIngress_def encIngress_def decStruct_def omitempty_def decString_def field_lookup zeroLbIngress_def)

lemma decStatus_enc: "\<exists>s. decStatus (encStatus st) nilSlice = Some s \<and> statusOf s = st"
proof (cases "lbsIngress st = []")
  case True
  then show ?thesis by (cases st) (simp add: decStatus_def encStatus_def decStruct_def statusOf_def elems_def nilSlice_def)
next
  case False
  have "list_all2 (\<lambda>j x. \<exists>v. decIngress j zeroLbIngress = Some v \<and> v = x) (map encIngress (lbsIngress st)) (lbsIngress st)"
    by (simp add: list_all2_conv_all_nth decIngress_enc)
  then obtain s where "decSlice zeroLbIngress decIngress (JArr (map encIngress (lbsIngress st))) nilSlice = Some s"
      "list_all2 (=) (elems s) (lbsIngress st)"
    using decSlice_fresh [where dec = decIngress and zero = zeroLbIngress and R = "(=)"] by blast
  then show ?thesis using False
    by (cases st) (simp add: decStatus_def encStatus_def decStruct_def statusOf_def field_lookup list_all2_eq [symmetric])
qed

lemma decStatuses_enc:
  "\<exists>s. decSlice nilSlice decStatus (JArr (map encStatus sts)) nilSlice = Some s \<and> map statusOf (elems s) = sts"
proof -
  have "list_all2 (\<lambda>j x. \<exists>v. decStatus j nilSlice = Some v \<and> statusOf v = x) (map encStatus sts) sts"
    by (simp add: list_all2_conv_all_nth decStatus_enc)
  then obtain s where "decSlice nilSlice decStatus (JArr (map encStatus sts)) nilSlice = Some s"
      "list_all2 (\<lambda>v x. statusOf v = x) (elems s) sts"
    using decSlice_fresh [where dec = decStatus and zero = nilSlice and R = "\<lambda>v x. statusOf v = x"] by blast
  then show ?thesis by (auto simp: list_all2_conv_all_nth intro!: nth_equalityI)
qed

lemma keys_distinct_sort: "keys_distinct m \<Longrightarrow> keys_distinct (sort_key fst m)"
  by (simp add: distinct_map)

lemma decGlobal_enc:
  assumes "keys_distinct m"
  shows "\<exists>d. decGlobal (encGlobal m) [] = Some d \<and> map (\<lambda>(k, s). (k, map statusOf (elems s))) d = sort_key fst m"
proof -
  let ?kvs = "map (\<lambda>(k, sts). (k, JArr (map encStatus sts))) (sort_key fst m)"
  have "list_all2 (\<lambda>(k, j) (k', x). k = k' \<and> (\<exists>v. decSlice nilSlice decStatus j nilSlice = Some v \<and> map statusOf (elems v) = x))
      ?kvs (sort_key fst m)"
    by (auto simp: list_all2_conv_all_nth split_beta decStatuses_enc)
  moreover have "keys_distinct ([] @ map (\<lambda>(k, j). (k, nilSlice)) ?kvs)"
    using assms by (simp add: comp_def split_beta keys_distinct_sort)
  ultimately obtain d where d: "decEntries nilSlice (decSlice nilSlice decStatus) ?kvs [] = Some ([] @ d)"
      "list_all2 (\<lambda>(k, v) (k', x). k = k' \<and> map statusOf (elems v) = x) d (sort_key fst m)"
    using decEntries_fresh [where m = "[]" and dec = "decSlice nilSlice decStatus" and zero = nilSlice
        and R = "\<lambda>v x. map statusOf (elems v) = x"] by blast
  have "map (\<lambda>(k, s). (k, map statusOf (elems s))) d = sort_key fst m"
    using d(2) by (auto simp: list_all2_conv_all_nth split_beta prod_eq_iff intro!: nth_equalityI)
  then show ?thesis using d(1) by (simp add: decGlobal_def encGlobal_def decMap_def)
qed

lemma encGlobal_ok: "lb_map_ascii m \<Longrightarrow> json_ok (encGlobal m)"
  by (auto simp: encGlobal_def lb_map_ascii_def encStatus_def encIngress_def omitempty_def lb_ascii_def list_all_iff ascii_def
      byte_def split: if_splits)

lemma unmarshal_marshal:
  assumes "keys_distinct m" and "lb_map_ascii m"
  shows "unmarshalLbStatus (marshalLbStatus m) = Inr (sort_key fst m)"
  using decGlobal_enc [OF assms(1)] parse_print [OF encGlobal_ok [OF assms(2)]]
  by (auto simp: unmarshalLbStatus_def marshalLbStatus_def Unmarshal_def)

end
