(* ===== verification/Go_MD5.thy ===== *)
theory Go_MD5
  imports Go_JSON "HOL-Library.Word"
begin

text \<open>
  \<open>crypto/md5\<close> (RFC 1321), which \<open>getProviderUid\<close> uses: the message is padded to blocks of sixteen
  little-endian words of 32 bits; each block goes through 64 steps on a state of four words.
\<close>

unbundle bit_operations_syntax

section \<open>Words and blocks\<close>

type_synonym word32 = "32 word"

definition rotl :: "nat \<Rightarrow> word32 \<Rightarrow> word32" where
  "rotl s x = push_bit s x OR drop_bit (32 - s) x"

definition littleEndian :: "nat list \<Rightarrow> word32" where
  "littleEndian bs = word_of_int (foldr (\<lambda>b n. int b + 256 * n) bs 0)"

definition bytesOf :: "word32 \<Rightarrow> nat list" where
  "bytesOf w = map (\<lambda>i. nat (uint (drop_bit (8 * i) w) mod 256)) [0..<4]"

text \<open>The length in bits, modulo \<open>2 ^ 64\<close>, in eight bytes.\<close>

definition lengthBytes :: "nat \<Rightarrow> nat list" where
  "lengthBytes n = map (\<lambda>i. nat (8 * int n div 256 ^ i mod 256)) [0..<8]"

definition pad :: "nat list \<Rightarrow> nat list" where
  "pad msg =
     (let n = length msg; zeros = (119 - n mod 64) mod 64
      in msg @ 128 # replicate zeros 0 @ lengthBytes n)"

fun chunks :: "nat \<Rightarrow> 'a list \<Rightarrow> 'a list list" where
  "chunks k xs = (if k = 0 \<or> xs = [] then [] else take k xs # chunks k (drop k xs))"

declare chunks.simps [simp del]

section \<open>The steps\<close>

definition md5Table :: "word32 list" where
  "md5Table =
     [0xd76aa478, 0xe8c7b756, 0x242070db, 0xc1bdceee, 0xf57c0faf, 0x4787c62a, 0xa8304613, 0xfd469501,
      0x698098d8, 0x8b44f7af, 0xffff5bb1, 0x895cd7be, 0x6b901122, 0xfd987193, 0xa679438e, 0x49b40821,
      0xf61e2562, 0xc040b340, 0x265e5a51, 0xe9b6c7aa, 0xd62f105d, 0x2441453, 0xd8a1e681, 0xe7d3fbc8,
      0x21e1cde6, 0xc33707d6, 0xf4d50d87, 0x455a14ed, 0xa9e3e905, 0xfcefa3f8, 0x676f02d9, 0x8d2a4c8a,
      0xfffa3942, 0x8771f681, 0x6d9d6122, 0xfde5380c, 0xa4beea44, 0x4bdecfa9, 0xf6bb4b60, 0xbebfbc70,
      0x289b7ec6, 0xeaa127fa, 0xd4ef3085, 0x4881d05, 0xd9d4d039, 0xe6db99e5, 0x1fa27cf8, 0xc4ac5665,
      0xf4292244, 0x432aff97, 0xab9423a7, 0xfc93a039, 0x655b59c3, 0x8f0ccc92, 0xffeff47d, 0x85845dd1,
      0x6fa87e4f, 0xfe2ce6e0, 0xa3014314, 0x4e0811a1, 0xf7537e82, 0xbd3af235, 0x2ad7d2bb, 0xeb86d391]"

definition md5Shift :: "nat \<Rightarrow> nat" where
  "md5Shift i = [[7, 12, 17, 22], [5, 9, 14, 20], [4, 11, 16, 23], [6, 10, 15, 21]] ! (i div 16) ! (i mod 4)"

type_synonym md5State = "word32 \<times> word32 \<times> word32 \<times> word32"

definition md5Mix :: "nat \<Rightarrow> word32 \<Rightarrow> word32 \<Rightarrow> word32 \<Rightarrow> word32 \<times> nat" where
  "md5Mix i b c d =
     (if i < 16 then ((b AND c) OR (NOT b AND d), i)
      else if i < 32 then ((d AND b) OR (NOT d AND c), (5 * i + 1) mod 16)
      else if i < 48 then (b XOR c XOR d, (3 * i + 5) mod 16)
      else (c XOR (b OR NOT d), (7 * i) mod 16))"

definition md5Step :: "word32 list \<Rightarrow> md5State \<Rightarrow> nat \<Rightarrow> md5State" where
  "md5Step block = (\<lambda>(a, b, c, d) i.
     let (f, g) = md5Mix i b c d
     in (d, b + rotl (md5Shift i) (a + f + md5Table ! i + block ! g), b, c))"

definition md5Block :: "md5State \<Rightarrow> nat list \<Rightarrow> md5State" where
  "md5Block = (\<lambda>(a, b, c, d) chunk.
     let (a', b', c', d') = foldl (md5Step (map littleEndian (chunks 4 chunk))) (a, b, c, d) [0..<64]
     in (a + a', b + b', c + c', d + d'))"

definition md5Init :: md5State where
  "md5Init = (0x67452301, 0xefcdab89, 0x98badcfe, 0x10325476)"

definition md5Sum :: "string \<Rightarrow> nat list" where
  "md5Sum s =
     (let (a, b, c, d) = foldl md5Block md5Init (chunks 64 (pad (map byte s)))
      in bytesOf a @ bytesOf b @ bytesOf c @ bytesOf d)"

definition hexByte :: "nat \<Rightarrow> string" where
  "hexByte b = [hexChar (b div 16 mod 16), hexChar (b mod 16)]"

definition hexBytes :: "nat list \<Rightarrow> string" where
  "hexBytes bs = concat (map hexByte bs)"

section \<open>Facts\<close>

lemma hexChar_digits: "n < 16 \<Longrightarrow> hexChar n \<in> set ''0123456789abcdef''"
proof -
  have "list_all (\<lambda>n. hexChar n \<in> set ''0123456789abcdef'') [0..<16]" by code_simp
  then show "n < 16 \<Longrightarrow> hexChar n \<in> set ''0123456789abcdef''" by (auto simp: list_all_iff)
qed

lemma length_hexBytes: "length (hexBytes bs) = 2 * length bs"
  by (induction bs) (simp_all add: hexBytes_def hexByte_def)

lemma hexBytes_digits: "set (hexBytes bs) \<subseteq> set ''0123456789abcdef''"
proof -
  have "set (hexByte b) \<subseteq> set ''0123456789abcdef''" for b
    using hexChar_digits [of "b div 16 mod 16"] hexChar_digits [of "b mod 16"] unfolding hexByte_def by simp
  then show ?thesis unfolding hexBytes_def by (simp only: set_concat set_map UN_subset_iff) blast
qed

lemma length_md5Sum: "length (md5Sum s) = 16"
  by (simp add: md5Sum_def bytesOf_def split_beta Let_def)

lemma md5Sum_bytes: "b \<in> set (md5Sum s) \<Longrightarrow> b < 256"
  by (auto simp: md5Sum_def bytesOf_def split_beta Let_def)

text \<open>The padded message is a whole number of blocks.\<close>

lemma pad_arith:
  fixes q r :: nat
  assumes "r < 64"
  shows "(64 * q + r + 1 + (119 - r) mod 64 + 8) mod 64 = 0"
proof (cases "r \<le> 55")
  case True
  then have "(119 - r) mod 64 = 55 - r" using mod_add_self2 [of "55 - r" 64] by simp
  then have "64 * q + r + 1 + (119 - r) mod 64 + 8 = 64 * (q + 1)" using True by simp
  then show ?thesis by (simp only: mod_mult_self1_is_0)
next
  case False
  then have "(119 - r) mod 64 = 119 - r" by (intro mod_less) simp
  then have "64 * q + r + 1 + (119 - r) mod 64 + 8 = 64 * (q + 2)" using False assms by simp
  then show ?thesis by (simp only: mod_mult_self1_is_0)
qed

lemma pad_blocks: "length (pad msg) mod 64 = 0"
  using pad_arith [of "length msg mod 64" "length msg div 64"] by (simp add: pad_def Let_def lengthBytes_def ac_simps)

end
