(* ===== verification/Deliverer.thy ===== *)
theory Deliverer
  imports Go_Prelude "HOL-Library.Multiset"
begin

text \<open>
  The delaying deliverer of \<open>federation-controller/util/delaying_deliverer.go\<close>, which
  triggers every reconciliation of the ingress controller: a binary heap ordered by delivery
  time, with an index from keys to positions, and the loop body that fills and empties it. The
  heap algorithms of Go's \<open>container/heap\<close> are modelled as they are in Go 1.8.
\<close>

section \<open>The heap\<close>

record 'v DelayingDelivererItem =
  dKey :: string
  dValue :: 'v
  dTime :: int

record 'v delivererHeap =
  keyPosition :: "(string \<times> nat) list"
  hdata :: "'v DelayingDelivererItem list"

definition hLen :: "'v delivererHeap \<Rightarrow> nat" where
  "hLen dh = length (hdata dh)"

definition hLess :: "'v delivererHeap \<Rightarrow> nat \<Rightarrow> nat \<Rightarrow> bool" where
  "hLess dh i j \<longleftrightarrow> dTime (hdata dh ! i) < dTime (hdata dh ! j)"

definition hSwap :: "'v delivererHeap \<Rightarrow> nat \<Rightarrow> nat \<Rightarrow> 'v delivererHeap" where
  "hSwap dh i j =
     dh\<lparr>keyPosition := map_put (dKey (hdata dh ! j)) i (map_put (dKey (hdata dh ! i)) j (keyPosition dh)),
        hdata := (hdata dh)[i := hdata dh ! j, j := hdata dh ! i]\<rparr>"

definition hPush :: "'v DelayingDelivererItem \<Rightarrow> 'v delivererHeap \<Rightarrow> 'v delivererHeap" where
  "hPush item dh =
     dh\<lparr>hdata := hdata dh @ [item],
        keyPosition := map_put (dKey item) (length (hdata dh @ [item]) - 1) (keyPosition dh)\<rparr>"

definition hPop :: "'v delivererHeap \<Rightarrow> 'v DelayingDelivererItem \<times> 'v delivererHeap" where
  "hPop dh =
     (let n = length (hdata dh); item = hdata dh ! (n - 1) in
      (item, dh\<lparr>hdata := take (n - 1) (hdata dh), keyPosition := map_del (dKey item) (keyPosition dh)\<rparr>))"

section \<open>container/heap\<close>

function heapUp :: "'v delivererHeap \<Rightarrow> nat \<Rightarrow> 'v delivererHeap" where
  "heapUp h j =
     (let i = (j - 1) div 2 in
      if i = j \<or> \<not> hLess h j i then h else heapUp (hSwap h i j) i)"
  by pat_completeness auto
termination by (relation "measure snd") auto

function heapDown :: "'v delivererHeap \<Rightarrow> nat \<Rightarrow> nat \<Rightarrow> 'v delivererHeap \<times> nat" where
  "heapDown h i n =
     (let j1 = 2 * i + 1 in
      if n \<le> j1 then (h, i)
      else
        let j = (if j1 + 1 < n \<and> \<not> hLess h j1 (j1 + 1) then j1 + 1 else j1) in
        if \<not> hLess h j i then (h, i) else heapDown (hSwap h i j) j n)"
  by pat_completeness auto
termination by (relation "measure (\<lambda>(h, i, n). n - i)") auto

declare heapUp.simps [simp del] heapDown.simps [simp del]

definition heapPush :: "'v DelayingDelivererItem \<Rightarrow> 'v delivererHeap \<Rightarrow> 'v delivererHeap" where
  "heapPush x h = (let h = hPush x h in heapUp h (hLen h - 1))"

definition heapPop :: "'v delivererHeap \<Rightarrow> 'v DelayingDelivererItem \<times> 'v delivererHeap" where
  "heapPop h = (let n = hLen h - 1; h = hSwap h 0 n; h = fst (heapDown h 0 n) in hPop h)"

definition heapFix :: "'v delivererHeap \<Rightarrow> nat \<Rightarrow> 'v delivererHeap" where
  "heapFix h i = (let (h', i') = heapDown h i (hLen h) in if \<not> i < i' then heapUp h' i else h')"

section \<open>The index stays right\<close>

text \<open>Keys are different and the index maps each key to the position of its item.\<close>

definition index_ok :: "'v delivererHeap \<Rightarrow> bool" where
  "index_ok h \<longleftrightarrow>
     distinct (map dKey (hdata h)) \<and>
     (\<forall>k p. map_of (keyPosition h) k = Some p \<longleftrightarrow> p < length (hdata h) \<and> dKey (hdata h ! p) = k)"

lemma index_inj:
  assumes "index_ok h" and "i < length (hdata h)" and "j < length (hdata h)"
    and "dKey (hdata h ! i) = dKey (hdata h ! j)"
  shows "i = j"
  using assms nth_eq_iff_index_eq [of "map dKey (hdata h)" i j] by (simp add: index_ok_def)

lemma length_hSwap [simp]: "length (hdata (hSwap h i j)) = length (hdata h)"
  by (simp add: hSwap_def)

lemma nth_hSwap:
  assumes "i < length (hdata h)" and "j < length (hdata h)"
  shows "hdata (hSwap h i j) ! k =
    (if k = j then hdata h ! i else if k = i then hdata h ! j else hdata h ! k)"
  using assms by (auto simp: hSwap_def nth_list_update)

lemma mset_hSwap:
  assumes "i < length (hdata h)" and "j < length (hdata h)"
  shows "mset (hdata (hSwap h i j)) = mset (hdata h)"
  using assms by (simp add: hSwap_def mset_swap)

lemma index_hSwap:
  assumes ok: "index_ok h" and i: "i < length (hdata h)" and j: "j < length (hdata h)"
  shows "index_ok (hSwap h i j)"
proof -
  have "mset (map dKey (hdata (hSwap h i j))) = mset (map dKey (hdata h))"
    using mset_hSwap [OF i j] by (metis mset_map)
  then have "distinct (map dKey (hdata (hSwap h i j)))"
    using ok by (metis index_ok_def mset_eq_imp_distinct_iff)
  moreover have "map_of (keyPosition (hSwap h i j)) k = Some p \<longleftrightarrow>
      p < length (hdata h) \<and> dKey (hdata (hSwap h i j) ! p) = k" for k p
  proof -
    have pos: "map_of (keyPosition h) k = Some p \<longleftrightarrow> p < length (hdata h) \<and> dKey (hdata h ! p) = k"
      using ok by (simp add: index_ok_def)
    have map: "map_of (keyPosition (hSwap h i j)) k =
        (if k = dKey (hdata h ! j) then Some i else if k = dKey (hdata h ! i) then Some j
         else map_of (keyPosition h) k)"
      by (simp add: hSwap_def)
    show ?thesis
      using pos i j index_inj [OF ok i j] index_inj [OF ok i, of p] index_inj [OF ok j, of p]
      by (auto simp: map nth_hSwap [OF i j])
  qed
  ultimately show ?thesis by (simp add: index_ok_def)
qed

section \<open>The heap order\<close>

abbreviation parent :: "nat \<Rightarrow> nat" where
  "parent k \<equiv> (k - 1) div 2"

abbreviation time_at :: "'v delivererHeap \<Rightarrow> nat \<Rightarrow> int" where
  "time_at h k \<equiv> dTime (hdata h ! k)"

definition heap_upto :: "'v delivererHeap \<Rightarrow> nat \<Rightarrow> bool" where
  "heap_upto h n \<longleftrightarrow> (\<forall>k. 0 < k \<longrightarrow> k < n \<longrightarrow> time_at h (parent k) \<le> time_at h k)"

definition heap_inv :: "'v delivererHeap \<Rightarrow> bool" where
  "heap_inv h \<longleftrightarrow> index_ok h \<and> heap_upto h (length (hdata h))"

lemma parent_iff: "0 < k \<Longrightarrow> parent k = i \<longleftrightarrow> k = 2 * i + 1 \<or> k = 2 * i + 2"
  by auto

lemma parent_less: "0 < k \<Longrightarrow> parent k < k"
  by auto

text \<open>\<open>heapUp\<close> repairs an order that is broken only between one position and its parent.\<close>

definition up_pre :: "'v delivererHeap \<Rightarrow> nat \<Rightarrow> bool" where
  "up_pre h j \<longleftrightarrow>
     (\<forall>k. 0 < k \<longrightarrow> k < length (hdata h) \<longrightarrow> k \<noteq> j \<longrightarrow> time_at h (parent k) \<le> time_at h k) \<and>
     (\<forall>k. 0 < k \<longrightarrow> k < length (hdata h) \<longrightarrow> 0 < j \<longrightarrow> parent k = j \<longrightarrow> time_at h (parent j) \<le> time_at h k)"

lemma up_pre_swap:
  assumes pre: "up_pre h j" and j: "j < length (hdata h)" "0 < j" and less: "hLess h j (parent j)"
  shows "up_pre (hSwap h (parent j) j) (parent j)"
proof -
  let ?i = "parent j" and ?h = "hSwap h (parent j) j"
  have i: "?i < length (hdata h)" "?i < j" using j by auto
  have new: "time_at ?h k = (if k = j then time_at h ?i else if k = ?i then time_at h j else time_at h k)" for k
    using nth_hSwap [OF i(1) j(1)] by simp
  have lt: "time_at h j < time_at h ?i" using less by (simp add: hLess_def)
  have p1: "time_at h (parent k) \<le> time_at h k" if "0 < k" "k < length (hdata h)" "k \<noteq> j" for k
    using pre that by (simp add: up_pre_def)
  have p2: "time_at h ?i \<le> time_at h k" if "0 < k" "k < length (hdata h)" "parent k = j" for k
    using pre that j(2) by (simp add: up_pre_def)
  have "time_at ?h (parent k) \<le> time_at ?h k" if k: "0 < k" "k < length (hdata h)" "k \<noteq> ?i" for k
  proof -
    have "parent k < k" using k(1) by auto
    show ?thesis
    proof (cases "k = j")
      case True
      then show ?thesis using lt i(2) by (simp only: new) simp
    next
      case False
      note o = p1 [OF k(1,2) False]
      show ?thesis
      proof (cases "parent k = j")
        case True
        then show ?thesis using p2 [OF k(1,2)] False k(3) by (simp only: new) simp
      next
        case np: False
        show ?thesis
        proof (cases "parent k = ?i")
          case True
          then show ?thesis using o lt False k(3) i(2) by (simp only: new) simp
        next
          case False
          then show ?thesis using o np \<open>k \<noteq> j\<close> k(3) by (simp only: new) simp
        qed
      qed
    qed
  qed
  moreover have "time_at ?h (parent ?i) \<le> time_at ?h k"
    if k: "0 < k" "k < length (hdata h)" "0 < ?i" "parent k = ?i" for k
  proof -
    have "parent ?i < ?i" using k(3) by auto
    then have "time_at ?h (parent ?i) = time_at h (parent ?i)" using i(2) by (simp only: new) simp
    also have "\<dots> \<le> time_at h ?i" using p1 [OF k(3) i(1)] i(2) by simp
    also have "\<dots> \<le> time_at ?h k"
    proof (cases "k = j")
      case False
      have "k \<noteq> ?i" using k(1,4) parent_less [of k] by auto
      then show ?thesis using p1 [OF k(1,2) False] False k(4) by (simp only: new) simp
    qed (simp only: new, simp)
    finally show ?thesis .
  qed
  ultimately show ?thesis by (simp add: up_pre_def)
qed

lemma heapUp_spec:
  assumes "index_ok h" and "up_pre h j" and "j < length (hdata h)"
  shows "heap_inv (heapUp h j) \<and> mset (hdata (heapUp h j)) = mset (hdata h)"
  using assms
proof (induction h j rule: heapUp.induct)
  case (1 h j)
  let ?i = "parent j"
  show ?case
  proof (cases "?i = j \<or> \<not> hLess h j ?i")
    case True
    have "time_at h (parent k) \<le> time_at h k" if "0 < k" "k < length (hdata h)" for k
    proof (cases "k = j")
      case True
      then show ?thesis using \<open>?i = j \<or> \<not> hLess h j ?i\<close> parent_less [OF that(1)]
        by (auto simp: hLess_def)
    next
      case False
      then show ?thesis using "1.prems"(2) that by (simp add: up_pre_def)
    qed
    then show ?thesis using True "1.prems"(1)
      by (simp add: heapUp.simps [of h j] Let_def heap_inv_def heap_upto_def)
  next
    case False
    then have j: "0 < j" by (cases j) auto
    have i: "?i < length (hdata h)" using "1.prems"(3) by auto
    have "up_pre (hSwap h ?i j) ?i"
      using up_pre_swap [OF "1.prems"(2,3) j] False by blast
    with False "1.IH" [OF refl False] "1.prems"(1,3) i show ?thesis
      by (simp add: heapUp.simps [of h j] Let_def index_hSwap mset_hSwap)
  qed
qed

text \<open>\<open>heapDown\<close> repairs an order below \<open>n\<close> that is broken only between a position and its children.\<close>

definition down_pre :: "'v delivererHeap \<Rightarrow> nat \<Rightarrow> nat \<Rightarrow> bool" where
  "down_pre h i n \<longleftrightarrow>
     (\<forall>k. 0 < k \<longrightarrow> k < n \<longrightarrow> parent k \<noteq> i \<longrightarrow> time_at h (parent k) \<le> time_at h k) \<and>
     (\<forall>k. 0 < k \<longrightarrow> k < n \<longrightarrow> 0 < i \<longrightarrow> parent k = i \<longrightarrow> time_at h (parent i) \<le> time_at h k)"

text \<open>The child that \<open>heapDown\<close> compares with: one with the least time.\<close>

definition least_child :: "'v delivererHeap \<Rightarrow> nat \<Rightarrow> nat \<Rightarrow> nat" where
  "least_child h i n =
     (if 2 * i + 2 < n \<and> \<not> hLess h (2 * i + 1) (2 * i + 2) then 2 * i + 2 else 2 * i + 1)"

lemma least_child:
  assumes "2 * i + 1 < n"
  shows "least_child h i n < n \<and> parent (least_child h i n) = i \<and> i < least_child h i n \<and>
    (\<forall>k. 0 < k \<longrightarrow> k < n \<longrightarrow> parent k = i \<longrightarrow> time_at h (least_child h i n) \<le> time_at h k)"
proof -
  have "time_at h (least_child h i n) \<le> time_at h k" if "0 < k" "k < n" "parent k = i" for k
  proof -
    have "k = 2 * i + 1 \<or> k = 2 * i + 2" using parent_iff [OF that(1)] that(3) by blast
    then show ?thesis using that(2) by (auto simp: least_child_def hLess_def)
  qed
  moreover have "least_child h i n < n \<and> parent (least_child h i n) = i \<and> i < least_child h i n"
    using assms by (auto simp: least_child_def)
  ultimately show ?thesis by blast
qed

lemma heapDown_step:
  "heapDown h i n =
     (if n \<le> 2 * i + 1 \<or> \<not> hLess h (least_child h i n) i then (h, i)
      else heapDown (hSwap h i (least_child h i n)) (least_child h i n) n)"
  by (subst heapDown.simps) (simp add: Let_def least_child_def)

lemma down_pre_swap:
  assumes pre: "down_pre h i n" and n: "n \<le> length (hdata h)" "2 * i + 1 < n"
    and less: "hLess h (least_child h i n) i"
  shows "down_pre (hSwap h i (least_child h i n)) (least_child h i n) n"
proof -
  let ?j = "least_child h i n" and ?h = "hSwap h i (least_child h i n)"
  have j: "?j < n" "parent ?j = i" "i < ?j"
    and least: "\<And>k. 0 < k \<Longrightarrow> k < n \<Longrightarrow> parent k = i \<Longrightarrow> time_at h ?j \<le> time_at h k"
    using least_child [OF n(2), of h] by blast+
  have len: "i < length (hdata h)" "?j < length (hdata h)" using j(1,3) n(1) by linarith+
  have new: "time_at ?h k = (if k = ?j then time_at h i else if k = i then time_at h ?j else time_at h k)" for k
    using nth_hSwap [OF len] by simp
  have lt: "time_at h ?j < time_at h i" using less by (simp add: hLess_def)
  have p1: "time_at h (parent k) \<le> time_at h k" if "0 < k" "k < n" "parent k \<noteq> i" for k
    using pre that by (simp add: down_pre_def)
  have "time_at ?h (parent k) \<le> time_at ?h k" if k: "0 < k" "k < n" "parent k \<noteq> ?j" for k
  proof (cases "parent k = i")
    case True
    show ?thesis
    proof (cases "k = ?j")
      case True
      then show ?thesis using lt j(2,3) by (simp only: new) simp
    next
      case False
      have "k \<noteq> i" using True parent_less [OF k(1)] by auto
      then show ?thesis using least [OF k(1,2) True] True False j(3) by (simp only: new) simp
    qed
  next
    case False
    note o = p1 [OF k(1,2) False]
    show ?thesis
    proof (cases "k = i")
      case True
      have "time_at h (parent i) \<le> time_at h ?j"
        using pre j k(1) True by (simp add: down_pre_def)
      then show ?thesis using True k(3) False j(3) by (simp only: new) simp
    next
      case False
      have "k \<noteq> ?j" using j(2) \<open>parent k \<noteq> i\<close> by auto
      then show ?thesis using o False k(3) \<open>parent k \<noteq> i\<close> by (simp only: new) simp
    qed
  qed
  moreover have "time_at ?h (parent ?j) \<le> time_at ?h k" if k: "0 < k" "k < n" "parent k = ?j" for k
  proof -
    have "k \<noteq> i" "k \<noteq> ?j" using k(1,3) j(3) parent_less [OF k(1)] by linarith+
    moreover have "time_at h ?j \<le> time_at h k" using p1 [OF k(1,2)] k(3) j(3) by simp
    ultimately show ?thesis using j(2,3) by (simp only: new) simp
  qed
  ultimately show ?thesis by (simp add: down_pre_def)
qed

lemma heapDown_spec:
  assumes "index_ok h" and "down_pre h i n" and "n \<le> length (hdata h)"
    and "heapDown h i n = (h', i')"
  shows "index_ok h' \<and> heap_upto h' n \<and> mset (hdata h') = mset (hdata h) \<and>
    length (hdata h') = length (hdata h) \<and> (\<forall>k. n \<le> k \<longrightarrow> hdata h' ! k = hdata h ! k)"
  using assms
proof (induction h i n arbitrary: h' i' rule: heapDown.induct)
  case (1 h i n)
  show ?case
  proof (cases "n \<le> 2 * i + 1 \<or> \<not> hLess h (least_child h i n) i")
    case True
    have "time_at h (parent k) \<le> time_at h k" if k: "0 < k" "k < n" for k
    proof (cases "parent k = i")
      case True
      then have "k = 2 * i + 1 \<or> k = 2 * i + 2" using parent_iff [OF k(1), of i] by blast
      then have "2 * i + 1 < n" using k(2) by linarith
      with \<open>n \<le> 2 * i + 1 \<or> \<not> hLess h (least_child h i n) i\<close> have "time_at h i \<le> time_at h (least_child h i n)" by (simp add: hLess_def)
      with least_child [OF \<open>2 * i + 1 < n\<close>, of h] k True show ?thesis by force
    next
      case False
      then show ?thesis using "1.prems"(2) k by (simp add: down_pre_def)
    qed
    then show ?thesis using True "1.prems"(1,4) by (simp add: heapDown_step [of h i n] heap_upto_def)
  next
    case False
    let ?j = "least_child h i n"
    have c: "2 * i + 1 < n" "hLess h ?j i" using False by auto
    have j: "?j < n" "i < ?j" using least_child [OF c(1), of h] by blast+
    have len: "i < length (hdata h)" "?j < length (hdata h)" using j "1.prems"(3) by linarith+
    have rec: "heapDown (hSwap h i ?j) ?j n = (h', i')"
      using False "1.prems"(4) by (simp add: heapDown_step [of h i n])
    have "index_ok h' \<and> heap_upto h' n \<and> mset (hdata h') = mset (hdata (hSwap h i ?j)) \<and>
        length (hdata h') = length (hdata (hSwap h i ?j)) \<and>
        (\<forall>k. n \<le> k \<longrightarrow> hdata h' ! k = hdata (hSwap h i ?j) ! k)"
    proof (rule "1.IH" [of "2 * i + 1" ?j])
      show "heapDown (hSwap h i ?j) ?j n = (h', i')" by (rule rec)
      show "down_pre (hSwap h i ?j) ?j n" by (rule down_pre_swap [OF "1.prems"(2,3) c])
    qed (use c False "1.prems"(1,3) len in \<open>auto simp: index_hSwap least_child_def\<close>)
    moreover have "hdata (hSwap h i ?j) ! k = hdata h ! k" if "n \<le> k" for k
      using that j nth_hSwap [OF len] by auto
    ultimately show ?thesis using mset_hSwap [OF len] by simp
  qed
qed

section \<open>Push, pop and fix\<close>

lemma index_hPush:
  assumes ok: "index_ok h" and new: "dKey item \<notin> dKey ` set (hdata h)"
  shows "index_ok (hPush item h)"
proof -
  let ?n = "length (hdata h)"
  have fresh: "dKey (hdata h ! p) \<noteq> dKey item" if "p < ?n" for p
    using new nth_mem [OF that] by (metis imageI)
  have "map_of (keyPosition (hPush item h)) k = Some p \<longleftrightarrow>
      p < Suc ?n \<and> dKey ((hdata h @ [item]) ! p) = k" for k p
  proof (cases "p < ?n")
    case True
    then have "map_of (keyPosition h) k = Some p \<longleftrightarrow> dKey (hdata h ! p) = k"
      using ok by (simp add: index_ok_def)
    then show ?thesis using True fresh [OF True] by (auto simp: hPush_def nth_append)
  next
    case False
    then have "map_of (keyPosition h) k \<noteq> Some p" using ok by (simp add: index_ok_def)
    then show ?thesis using False by (auto simp: hPush_def nth_append less_Suc_eq)
  qed
  moreover have "distinct (map dKey (hdata h @ [item]))" using ok new by (simp add: index_ok_def)
  ultimately show ?thesis by (simp add: index_ok_def hPush_def)
qed

lemma heapPush_spec:
  assumes "heap_inv h" and "dKey item \<notin> dKey ` set (hdata h)"
  shows "heap_inv (heapPush item h) \<and> mset (hdata (heapPush item h)) = add_mset item (mset (hdata h))"
proof -
  let ?h = "hPush item h" and ?n = "length (hdata h)"
  have d: "hdata ?h = hdata h @ [item]" by (simp add: hPush_def)
  have "time_at ?h (parent k) \<le> time_at ?h k" if "0 < k" "k < ?n" for k
    using assms(1) that by (auto simp: d nth_append heap_inv_def heap_upto_def)
  moreover have "\<not> (0 < k \<and> k < Suc ?n \<and> parent k = ?n)" for k by auto
  ultimately have "up_pre ?h ?n" by (auto simp: up_pre_def d less_Suc_eq)
  moreover have "index_ok ?h" using index_hPush [OF _ assms(2)] assms(1) by (simp add: heap_inv_def)
  ultimately have "heap_inv (heapUp ?h ?n) \<and> mset (hdata (heapUp ?h ?n)) = mset (hdata ?h)"
    by (intro heapUp_spec) (auto simp: d)
  then show ?thesis by (simp add: heapPush_def Let_def hLen_def d)
qed

text \<open>The root of a heap has the least time.\<close>

lemma root_least:
  assumes "heap_upto h n" and "k < n"
  shows "time_at h 0 \<le> time_at h k"
  using assms(2)
proof (induction k rule: less_induct)
  case (less k)
  show ?case
  proof (cases "k = 0")
    case False
    then have p: "parent k < k" "0 < k" by auto
    then have "time_at h 0 \<le> time_at h (parent k)" using less.IH less.prems by simp
    also have "\<dots> \<le> time_at h k" using assms(1) p(2) less.prems by (simp add: heap_upto_def)
    finally show ?thesis .
  qed simp
qed

lemma index_hPop:
  assumes ok: "index_ok h" and "hdata h \<noteq> []"
  shows "index_ok (snd (hPop h))"
proof -
  obtain d item where h: "hdata h = d @ [item]" using assms(2) by (metis rev_exhaust)
  have pos: "map_of (keyPosition h) k = Some p \<longleftrightarrow> p < Suc (length d) \<and> dKey ((d @ [item]) ! p) = k" for k p
    using ok by (simp add: index_ok_def h)
  have dist: "distinct (map dKey d)" "dKey item \<notin> dKey ` set d"
    using ok by (simp_all add: index_ok_def h)
  have "((map_of (keyPosition h))(dKey item := None)) k = Some p \<longleftrightarrow> p < length d \<and> dKey (d ! p) = k" for k p
  proof (cases "p < length d")
    case True
    then have "dKey (d ! p) \<noteq> dKey item" using dist(2) nth_mem by (metis imageI)
    with True pos show ?thesis by (auto simp: nth_append)
  next
    case False
    then show ?thesis using pos [of k p] by (auto simp: nth_append)
  qed
  with dist(1) show ?thesis by (simp add: index_ok_def hPop_def h Let_def)
qed

lemma heapPop_spec:
  assumes inv: "heap_inv h" and ne: "hdata h \<noteq> []" and pop: "heapPop h = (item, h')"
  shows "heap_inv h' \<and> item = hdata h ! 0 \<and> mset (hdata h) = add_mset item (mset (hdata h'))"
proof -
  define n where "n = length (hdata h) - 1"
  have n: "length (hdata h) = Suc n" using ne by (cases "hdata h") (simp_all add: n_def)
  let ?s = "hSwap h 0 n"
  obtain d i where down: "heapDown ?s 0 n = (d, i)" by fastforce
  have l: "0 < length (hdata h)" "n < length (hdata h)" using n by simp_all
  have "time_at ?s (parent k) \<le> time_at ?s k" if "0 < k" "k < n" "parent k \<noteq> 0" for k
    using inv that n by (auto simp: nth_hSwap [OF l] heap_inv_def heap_upto_def)
  then have "down_pre ?s 0 n" by (simp add: down_pre_def)
  moreover have "index_ok ?s" using inv l by (intro index_hSwap) (auto simp: heap_inv_def)
  ultimately have s: "index_ok d" "heap_upto d n" "mset (hdata d) = mset (hdata h)"
      "length (hdata d) = Suc n" "hdata d ! n = hdata h ! 0"
    using heapDown_spec [of ?s 0 n d i] down n mset_hSwap [OF l] nth_hSwap [OF l, of n] by auto
  have p: "item = hdata d ! n" "h' = snd (hPop d)" "hdata h' = take n (hdata d)"
    using pop down s(4) by (auto simp: heapPop_def hLen_def n Let_def hPop_def)
  have "hdata d = take n (hdata d) @ [hdata d ! n]"
    using s(4) by (metis lessI take_Suc_conv_app_nth take_all_iff order_refl)
  then have "mset (hdata d) = add_mset item (mset (hdata h'))"
    using p(1,3) by (metis mset.simps(2) mset_append union_mset_add_mset_right add.right_neutral mset.simps(1))
  moreover have "hdata d \<noteq> []" using s(4) by auto
  then have "index_ok h'" unfolding p(2) by (rule index_hPop [OF s(1)])
  moreover have "heap_upto h' (length (hdata h'))" using s(2,4) p(3) by (auto simp: heap_upto_def)
  ultimately show ?thesis using s(3,5) p(1) by (simp add: heap_inv_def)
qed

text \<open>Replacing an item by one with the same key and an earlier time, and fixing the heap there.\<close>

lemma heapFix_spec:
  assumes inv: "heap_inv h" and p: "p < length (hdata h)" and key: "dKey item = dKey (hdata h ! p)"
    and early: "dTime item < time_at h p"
  shows "heap_inv (heapFix (h\<lparr>hdata := (hdata h)[p := item]\<rparr>) p) \<and>
    mset (hdata (heapFix (h\<lparr>hdata := (hdata h)[p := item]\<rparr>) p)) =
      add_mset item (mset (hdata h) - {#hdata h ! p#})"
proof -
  let ?h = "h\<lparr>hdata := (hdata h)[p := item]\<rparr>"
  have new: "time_at ?h k = (if k = p then dTime item else time_at h k)" for k
    using p by (cases "k = p") simp_all
  have up: "time_at h (parent k) \<le> time_at h k" if "0 < k" "k < length (hdata h)" for k
    using inv that by (simp add: heap_inv_def heap_upto_def)
  have "map dKey ((hdata h)[p := item]) = map dKey (hdata h)"
    using key by (metis list_update_id map_update)
  then have idx: "index_ok ?h"
    using inv key p by (auto simp: heap_inv_def index_ok_def nth_list_update)
  have "\<not> hLess ?h (least_child ?h p (hLen ?h)) p" if c: "2 * p + 1 < hLen ?h"
  proof -
    let ?c = "least_child ?h p (hLen ?h)"
    have "?c < length (hdata h)" "parent ?c = p" "p < ?c"
      using least_child [OF c, of ?h] by (auto simp: hLen_def)
    with up [of ?c] have "time_at h p \<le> time_at h ?c" by auto
    with \<open>p < ?c\<close> early show ?thesis by (simp only: hLess_def new) simp
  qed
  then have down: "heapDown ?h p (hLen ?h) = (?h, p)" by (subst heapDown_step) auto
  have "time_at ?h (parent k) \<le> time_at ?h k" if "0 < k" "k < length (hdata h)" "k \<noteq> p" for k
    using up [OF that(1,2)] that(3) early by (simp only: new) auto
  moreover have "time_at ?h (parent p) \<le> time_at ?h k" if k: "0 < k" "k < length (hdata h)" "0 < p" "parent k = p" for k
  proof -
    have "k \<noteq> p" "parent p \<noteq> p" using k(1,3,4) parent_less by fastforce+
    then show ?thesis using up [OF k(1,2)] up [OF k(3) p] k(4) by (simp only: new) simp
  qed
  ultimately have "up_pre ?h p" by (simp add: up_pre_def)
  with heapUp_spec [OF idx this] p show ?thesis
    by (simp add: heapFix_def down mset_update)
qed

section \<open>The deliverer\<close>

text \<open>
  The channels are lists of the items sent and not yet received. The buffer of a Go channel is
  bounded and a sender that finds it full waits; theory \<open>Deliverer_Channels\<close> models the buffers, shows that they
  lead to no step that is not one below, and when the waiting never ends.
\<close>

record 'v DelayingDeliverer =
  targetChannel :: "'v DelayingDelivererItem list"
  dlHeap :: "'v delivererHeap"
  updateChannel :: "'v DelayingDelivererItem list"

definition NewDelayingDeliverer :: "'v DelayingDeliverer" where
  "NewDelayingDeliverer =
     \<lparr>targetChannel = [], dlHeap = \<lparr>keyPosition = [], hdata = []\<rparr>, updateChannel = []\<rparr>"

lemma length_heapDown: "length (hdata (fst (heapDown h i n))) = length (hdata h)"
proof (induction h i n rule: heapDown.induct)
  case (1 h i n)
  then show ?case by (subst heapDown.simps) (simp add: Let_def)
qed

lemma length_heapPop: "hdata h \<noteq> [] \<Longrightarrow> length (hdata (snd (heapPop h))) < length (hdata h)"
  by (simp add: heapPop_def hPop_def Let_def length_heapDown)

function deliverLoop ::
  "int \<Rightarrow> 'v delivererHeap \<Rightarrow> 'v DelayingDelivererItem list \<Rightarrow>
   'v delivererHeap \<times> 'v DelayingDelivererItem list" where
  "deliverLoop timestamp h target =
     (if hLen h > 0 then
        if timestamp < dTime (hdata h ! 0) then (h, target)
        else deliverLoop timestamp (snd (heapPop h)) (target @ [fst (heapPop h)])
      else (h, target))"
  by pat_completeness auto
termination
  by (relation "measure (\<lambda>(t, h, out). length (hdata h))") (auto simp: hLen_def length_heapPop)

declare deliverLoop.simps [simp del]

definition deliver :: "int \<Rightarrow> 'v DelayingDeliverer \<Rightarrow> 'v DelayingDeliverer" where
  "deliver timestamp d =
     (let (h, target) = deliverLoop timestamp (dlHeap d) (targetChannel d)
      in d\<lparr>dlHeap := h, targetChannel := target\<rparr>)"

text \<open>The case of \<open>run\<close> that handles an item from the update channel.\<close>

definition updateHeap :: "'v DelayingDelivererItem \<Rightarrow> 'v delivererHeap \<Rightarrow> 'v delivererHeap" where
  "updateHeap item h =
     (case map_of (keyPosition h) (dKey item) of
        Some position \<Rightarrow>
          if dTime item < dTime (hdata h ! position)
          then heapFix (h\<lparr>hdata := (hdata h)[position := item]\<rparr>) position
          else h
      | None \<Rightarrow> heapPush item h)"

text \<open>
  One round of \<open>run\<close> at time \<open>now\<close>: deliver what is due, then either receive an update
  or be woken by the timer. \<open>received\<close> is the choice of the \<open>select\<close> statement.
\<close>

definition runRound :: "int \<Rightarrow> bool \<Rightarrow> 'v DelayingDeliverer \<Rightarrow> 'v DelayingDeliverer" where
  "runRound now received d =
     (let d = deliver now d in
      case (received, updateChannel d) of
        (True, item # rest) \<Rightarrow> d\<lparr>updateChannel := rest, dlHeap := updateHeap item (dlHeap d)\<rparr>
      | _ \<Rightarrow> d)"

definition nextWakeUp :: "int \<Rightarrow> 'v DelayingDeliverer \<Rightarrow> int" where
  "nextWakeUp now d =
     (if hLen (dlHeap d) > 0 then dTime (hdata (dlHeap d) ! 0) else now + 3600000000000)"

definition DeliverAt :: "string \<Rightarrow> 'v \<Rightarrow> int \<Rightarrow> 'v DelayingDeliverer \<Rightarrow> 'v DelayingDeliverer" where
  "DeliverAt key value deliveryTime d =
     d\<lparr>updateChannel := updateChannel d @ [\<lparr>dKey = key, dValue = value, dTime = deliveryTime\<rparr>]\<rparr>"

definition DeliverAfter :: "string \<Rightarrow> 'v \<Rightarrow> int \<Rightarrow> int \<Rightarrow> 'v DelayingDeliverer \<Rightarrow> 'v DelayingDeliverer" where
  "DeliverAfter key value delay now d = DeliverAt key value (now + delay) d"

section \<open>What updates and deliveries do to the pending items\<close>

lemma index_lookup:
  assumes "index_ok h"
  shows "map_of (keyPosition h) k = None \<longleftrightarrow> k \<notin> dKey ` set (hdata h)"
proof
  assume none: "map_of (keyPosition h) k = None"
  show "k \<notin> dKey ` set (hdata h)"
  proof
    assume "k \<in> dKey ` set (hdata h)"
    then obtain p where "p < length (hdata h)" "dKey (hdata h ! p) = k"
      by (metis imageE in_set_conv_nth)
    then have "map_of (keyPosition h) k = Some p" using assms by (simp add: index_ok_def)
    with none show False by simp
  qed
next
  assume "k \<notin> dKey ` set (hdata h)"
  then have "map_of (keyPosition h) k \<noteq> Some p" for p
    using assms nth_mem by (metis imageI index_ok_def)
  then show "map_of (keyPosition h) k = None" by (cases "map_of (keyPosition h) k") auto
qed

lemma distinct_items: "index_ok h \<Longrightarrow> distinct (hdata h)"
  by (simp add: index_ok_def distinct_map)

lemma updateHeap_new:
  assumes "heap_inv h" and "dKey item \<notin> dKey ` set (hdata h)"
  shows "heap_inv (updateHeap item h) \<and> set (hdata (updateHeap item h)) = insert item (set (hdata h))"
proof -
  have "map_of (keyPosition h) (dKey item) = None"
    using assms index_lookup by (auto simp: heap_inv_def)
  then have "updateHeap item h = heapPush item h" by (simp add: updateHeap_def)
  with heapPush_spec [OF assms] show ?thesis by (metis set_mset_add_mset_insert set_mset_mset)
qed

lemma updateHeap_old:
  assumes inv: "heap_inv h" and old: "old \<in> set (hdata h)" "dKey old = dKey item"
  shows "heap_inv (updateHeap item h) \<and> set (hdata (updateHeap item h)) =
    (if dTime item < dTime old then insert item (set (hdata h) - {old}) else set (hdata h))"
proof -
  obtain p where p: "p < length (hdata h)" "hdata h ! p = old" using old(1) by (metis in_set_conv_nth)
  then have pos: "map_of (keyPosition h) (dKey item) = Some p"
    using inv old(2) by (simp add: heap_inv_def index_ok_def)
  show ?thesis
  proof (cases "dTime item < dTime old")
    case True
    let ?h = "heapFix (h\<lparr>hdata := (hdata h)[p := item]\<rparr>) p"
    have "heap_inv ?h \<and> mset (hdata ?h) = add_mset item (mset (hdata h) - {#old#})"
      using heapFix_spec [OF inv p(1), of item] p(2) old(2) True by simp
    moreover have "mset (hdata h) - {#old#} = mset (remove1 old (hdata h))" by simp
    moreover have "set (remove1 old (hdata h)) = set (hdata h) - {old}"
      using distinct_items [of h] inv by (simp add: heap_inv_def set_remove1_eq)
    ultimately have "heap_inv ?h \<and> set (hdata ?h) = insert item (set (hdata h) - {old})"
      by (metis set_mset_add_mset_insert set_mset_mset)
    with True pos p(2) show ?thesis by (simp add: updateHeap_def)
  next
    case False
    with pos p(2) inv show ?thesis by (simp add: updateHeap_def)
  qed
qed

lemma deliverLoop_spec:
  assumes "heap_inv h" and "deliverLoop t h out = (h', out')"
  shows "\<exists>ds. out' = out @ ds \<and> heap_inv h' \<and> sorted (map dTime ds) \<and> distinct ds \<and>
    set ds = {i \<in> set (hdata h). dTime i \<le> t} \<and> set (hdata h') = {i \<in> set (hdata h). t < dTime i}"
  using assms
proof (induction t h out arbitrary: h' out' rule: deliverLoop.induct)
  case (1 t h out)
  have upto: "heap_upto h (length (hdata h))" using "1.prems"(1) by (simp add: heap_inv_def)
  have root: "dTime (hdata h ! 0) \<le> dTime i" if "i \<in> set (hdata h)" for i
    using root_least [OF upto] that by (metis in_set_conv_nth)
  show ?case
  proof (cases "0 < hLen h \<and> \<not> t < dTime (hdata h ! 0)")
    case False
    then have "h' = h" "out' = out"
      using "1.prems"(2) deliverLoop.simps [of t h out] by (auto split: if_splits)
    moreover have "\<forall>i \<in> set (hdata h). t < dTime i"
      using False root by (force simp: hLen_def)
    ultimately show ?thesis using "1.prems"(1) by (intro exI [of _ "[]"]) force
  next
    case True
    obtain item h1 where pop: "heapPop h = (item, h1)" by fastforce
    have "hdata h \<noteq> []" using True by (auto simp: hLen_def)
    then have h1: "heap_inv h1" "item = hdata h ! 0" "mset (hdata h) = add_mset item (mset (hdata h1))"
      using heapPop_spec [OF "1.prems"(1) _ pop] by blast+
    have d: "distinct (hdata h)" using "1.prems"(1) by (simp add: heap_inv_def distinct_items)
    then have "distinct (item # hdata h1)" using h1(3) by (metis mset.simps(2) mset_eq_imp_distinct_iff)
    then have items: "set (hdata h) = insert item (set (hdata h1))" "item \<notin> set (hdata h1)"
      using h1(3) by (metis set_mset_add_mset_insert set_mset_mset, simp)
    have "deliverLoop t h1 (out @ [item]) = (h', out')"
      using "1.prems"(2) True pop deliverLoop.simps [of t h out] by auto
    with "1.IH" [of h' out'] True pop h1(1) obtain ds where ds: "out' = out @ [item] @ ds" "heap_inv h'"
        "sorted (map dTime ds)" "distinct ds" "set ds = {i \<in> set (hdata h1). dTime i \<le> t}"
        "set (hdata h') = {i \<in> set (hdata h1). t < dTime i}"
      by auto
    have least: "dTime item \<le> t" "\<forall>i \<in> set ds. dTime item \<le> dTime i"
      using True root h1(2) ds(5) items(1) by auto
    have "sorted (map dTime (item # ds))" "distinct (item # ds)"
      using least(2) ds(3,4,5) items(2) by auto
    moreover have "set (item # ds) = {i \<in> set (hdata h). dTime i \<le> t}"
      using least(1) ds(5) items(1) by auto
    moreover have "set (hdata h') = {i \<in> set (hdata h). t < dTime i}"
      using least(1) ds(6) items(1) by auto
    ultimately show ?thesis using ds(1,2) by (intro exI [of _ "item # ds"]) simp
  qed
qed


section \<open>Runs of the deliverer\<close>

text \<open>
  Other goroutines send requests at any time; the goroutine of \<open>run\<close> makes rounds.
\<close>

inductive dd_step :: "'v DelayingDeliverer \<Rightarrow> 'v DelayingDeliverer \<Rightarrow> bool" where
  dd_request: "dd_step d (DeliverAt key value t d)"
| dd_round: "dd_step d (runRound now received d)"

inductive dd_run :: "'v DelayingDeliverer \<Rightarrow> 'v DelayingDeliverer \<Rightarrow> bool" where
  dd_refl: "dd_run d d"
| dd_next: "dd_run d d1 \<Longrightarrow> dd_step d1 d2 \<Longrightarrow> dd_run d d2"

definition pending :: "'v DelayingDeliverer \<Rightarrow> 'v DelayingDelivererItem set" where
  "pending d = set (hdata (dlHeap d))"

abbreviation dd_inv :: "'v DelayingDeliverer \<Rightarrow> bool" where
  "dd_inv d \<equiv> heap_inv (dlHeap d)"

text \<open>Item \<open>i\<close> answers a request for \<open>key\<close> at time \<open>t\<close>.\<close>

definition answers :: "string \<Rightarrow> int \<Rightarrow> 'v DelayingDelivererItem \<Rightarrow> bool" where
  "answers key t i \<longleftrightarrow> dKey i = key \<and> dTime i \<le> t"

text \<open>
  A request made when \<open>n\<close> items had been delivered is still owed or has been answered since.
\<close>

definition answered_or_owed :: "string \<Rightarrow> int \<Rightarrow> nat \<Rightarrow> 'v DelayingDeliverer \<Rightarrow> bool" where
  "answered_or_owed key t n d \<longleftrightarrow>
     n \<le> length (targetChannel d) \<and>
     (\<exists>i \<in> set (updateChannel d) \<union> pending d \<union> set (drop n (targetChannel d)). answers key t i)"

lemma dd_inv_new [simp]: "dd_inv NewDelayingDeliverer"
  by (simp add: NewDelayingDeliverer_def heap_inv_def heap_upto_def index_ok_def)

lemma deliver_spec:
  assumes "dd_inv d"
  obtains ds where "targetChannel (deliver now d) = targetChannel d @ ds" "dd_inv (deliver now d)"
    "sorted (map dTime ds)" "distinct ds" "set ds = {i \<in> pending d. dTime i \<le> now}"
    "pending (deliver now d) = {i \<in> pending d. now < dTime i}"
    "updateChannel (deliver now d) = updateChannel d"
proof -
  obtain h out where *: "deliverLoop now (dlHeap d) (targetChannel d) = (h, out)" by fastforce
  then have "deliver now d = d\<lparr>dlHeap := h, targetChannel := out\<rparr>" by (simp add: deliver_def)
  with deliverLoop_spec [OF assms *] that show ?thesis by (auto simp: pending_def)
qed

lemma updateHeap_inv: "heap_inv h \<Longrightarrow> heap_inv (updateHeap item h)"
  by (metis imageE updateHeap_new updateHeap_old)

text \<open>After an update the key has an item at least as early, and other keys keep theirs.\<close>

lemma updateHeap_answers:
  assumes "heap_inv h" and "i \<in> insert item (set (hdata h))" and "answers key t i"
  shows "\<exists>j \<in> set (hdata (updateHeap item h)). answers key t j"
proof (cases "dKey item \<in> dKey ` set (hdata h)")
  case False
  then show ?thesis using updateHeap_new [OF assms(1)] assms(2,3) by blast
next
  case True
  then obtain old where old: "old \<in> set (hdata h)" "dKey old = dKey item" by (metis imageE)
  note upd = updateHeap_old [OF assms(1) old]
  show ?thesis
  proof (cases "dTime item < dTime old")
    case True
    then have s: "set (hdata (updateHeap item h)) = insert item (set (hdata h) - {old})" using upd by simp
    show ?thesis
    proof (cases "i = old")
      case i_old: True
      then have "answers key t item" using assms(3) True old(2) by (simp add: answers_def)
      then show ?thesis using s by blast
    qed (use s assms(2,3) in blast)
  next
    case False
    then have s: "set (hdata (updateHeap item h)) = set (hdata h)" using upd by simp
    show ?thesis
    proof (cases "i = item")
      case True
      then have "answers key t old" using assms(3) False old(2) by (simp add: answers_def)
      then show ?thesis using s old(1) by blast
    qed (use s assms(2,3) in blast)
  qed
qed

lemma runRound_cases:
  obtains "runRound now received d = deliver now d"
  | item rest where "updateChannel (deliver now d) = item # rest"
      "runRound now received d = (deliver now d)\<lparr>updateChannel := rest,
         dlHeap := updateHeap item (dlHeap (deliver now d))\<rparr>"
  by (cases received; cases "updateChannel (deliver now d)") (simp_all add: runRound_def Let_def)

lemma dd_step_inv: "dd_step d d' \<Longrightarrow> dd_inv d \<Longrightarrow> dd_inv d'"
proof (induction rule: dd_step.induct)
  case (dd_round d now received)
  obtain ds where "dd_inv (deliver now d)" by (rule deliver_spec [OF dd_round.prems]) blast
  then show ?case by (cases rule: runRound_cases [of now received d]) (simp_all add: updateHeap_inv)
qed (simp add: DeliverAt_def)

lemma dd_run_inv: "dd_run d d' \<Longrightarrow> dd_inv d \<Longrightarrow> dd_inv d'"
  by (induction rule: dd_run.induct) (simp_all add: dd_step_inv)

lemma deliver_keeps_answer:
  assumes "dd_inv d" and "answered_or_owed key t n d"
  shows "answered_or_owed key t n (deliver now d)"
proof -
  obtain ds where ds: "targetChannel (deliver now d) = targetChannel d @ ds"
      "set ds = {i \<in> pending d. dTime i \<le> now}" "pending (deliver now d) = {i \<in> pending d. now < dTime i}"
      "updateChannel (deliver now d) = updateChannel d"
    by (rule deliver_spec [OF assms(1)]) blast
  have n: "n \<le> length (targetChannel d)" using assms(2) by (simp add: answered_or_owed_def)
  then have "set (drop n (targetChannel (deliver now d))) = set (drop n (targetChannel d)) \<union> set ds"
    using ds(1) by simp
  moreover have "pending d = pending (deliver now d) \<union> set ds"
    unfolding ds(2,3) by (auto simp: not_less)
  ultimately have "set (updateChannel d) \<union> pending d \<union> set (drop n (targetChannel d)) =
      set (updateChannel (deliver now d)) \<union> pending (deliver now d) \<union> set (drop n (targetChannel (deliver now d)))"
    using ds(4) by (simp add: Un_ac)
  moreover have "n \<le> length (targetChannel (deliver now d))" using n ds(1) by simp
  ultimately show ?thesis using assms(2) by (simp add: answered_or_owed_def)
qed

lemma dd_step_keeps_answer:
  "dd_step d d' \<Longrightarrow> dd_inv d \<Longrightarrow> answered_or_owed key t n d \<Longrightarrow> answered_or_owed key t n d'"
proof (induction rule: dd_step.induct)
  case (dd_request d k v t')
  then show ?case by (auto simp: DeliverAt_def answered_or_owed_def pending_def)
next
  case (dd_round d now received)
  let ?d = "deliver now d"
  have kept: "answered_or_owed key t n ?d" using deliver_keeps_answer dd_round.prems .
  have inv: "dd_inv ?d" by (rule deliver_spec [OF dd_round.prems(1)]) blast
  show ?case
  proof (cases rule: runRound_cases [of now received d])
    case 1
    then show ?thesis using kept by simp
  next
    case (2 item rest)
    from kept obtain i where i: "i \<in> set (updateChannel ?d) \<union> pending ?d \<union> set (drop n (targetChannel ?d))"
        "answers key t i" by (auto simp: answered_or_owed_def)
    then consider "i \<in> set rest \<union> set (drop n (targetChannel ?d))" | "i \<in> insert item (set (hdata (dlHeap ?d)))"
      using 2(1) by (auto simp: pending_def)
    then show ?thesis
    proof cases
      case 1
      then show ?thesis using 2(2) kept i(2) unfolding answered_or_owed_def by auto
    next
      case j: 2
      obtain j where "j \<in> set (hdata (updateHeap item (dlHeap ?d)))" "answers key t j"
        using updateHeap_answers [OF inv j i(2)] by blast
      then show ?thesis using 2(2) kept unfolding answered_or_owed_def pending_def by auto
    qed
  qed
qed

lemma dd_run_keeps_answer:
  "dd_run d d' \<Longrightarrow> dd_inv d \<Longrightarrow> answered_or_owed key t n d \<Longrightarrow> answered_or_owed key t n d'"
  by (induction rule: dd_run.induct) (simp, metis dd_step_keeps_answer dd_run_inv)

section \<open>Properties\<close>

text \<open>
  No request is lost: after \<open>DeliverAt key value t\<close>, whatever rounds and requests follow, a
  round at a time not before \<open>t\<close> that finds no update waiting has put on the target channel, since
  the request, an item for that key whose delivery time is at most \<open>t\<close>.
\<close>

theorem request_is_delivered:
  assumes "dd_run NewDelayingDeliverer d" and "dd_run (DeliverAt key value t d) d'"
    and "updateChannel d' = []" and "t \<le> now"
  shows "\<exists>i \<in> set (drop (length (targetChannel d)) (targetChannel (runRound now received d'))).
           dKey i = key \<and> dTime i \<le> t"
proof -
  let ?n = "length (targetChannel d)"
  have inv: "dd_inv (DeliverAt key value t d)"
    using dd_run_inv [OF assms(1)] by (simp add: DeliverAt_def)
  then have inv': "dd_inv d'" using dd_run_inv [OF assms(2)] by simp
  have "answered_or_owed key t ?n (DeliverAt key value t d)"
    by (simp add: answered_or_owed_def DeliverAt_def answers_def)
  then have "answered_or_owed key t ?n d'" using dd_run_keeps_answer [OF assms(2) inv] by simp
  then have kept: "answered_or_owed key t ?n (deliver now d')" using deliver_keeps_answer [OF inv'] by simp
  obtain ds where "pending (deliver now d') = {i \<in> pending d'. now < dTime i}"
      and upd: "updateChannel (deliver now d') = []"
    using assms(3) by (metis deliver_spec [OF inv'])
  then have "\<not> answers key t i" if "i \<in> pending (deliver now d')" for i
    using that assms(4) by (simp add: answers_def)
  with kept upd have "\<exists>i \<in> set (drop ?n (targetChannel (deliver now d'))). answers key t i"
    by (auto simp: answered_or_owed_def)
  moreover have "runRound now received d' = deliver now d'"
    using upd by (simp add: runRound_def Let_def split: bool.splits)
  ultimately show ?thesis by (simp add: answers_def)
qed

lemma request_is_delivered_witness:
  "\<exists>i \<in> set (targetChannel (runRound 5 False (runRound 1 True (DeliverAt ''k'' (7::nat) 5 NewDelayingDeliverer)))).
     dKey i = ''k'' \<and> dTime i \<le> 5"
proof -
  have "dd_run (DeliverAt ''k'' (7::nat) 5 NewDelayingDeliverer)
      (runRound 1 True (DeliverAt ''k'' (7::nat) 5 NewDelayingDeliverer))"
    by (metis dd_refl dd_next dd_round)
  moreover have "updateChannel (runRound 1 True (DeliverAt ''k'' (7::nat) 5 NewDelayingDeliverer)) = []"
    by (simp add: runRound_def DeliverAt_def NewDelayingDeliverer_def deliver_def deliverLoop.simps hLen_def)
  moreover have "targetChannel (NewDelayingDeliverer :: nat DelayingDeliverer) = []" by (simp add: NewDelayingDeliverer_def)
  ultimately show ?thesis
    using request_is_delivered [OF dd_refl, of "''k''" 7 5 "runRound 1 True (DeliverAt ''k'' (7::nat) 5 NewDelayingDeliverer)" 5 False]
    by simp
qed

text \<open>
  C34. In every state the deliverer reaches, a round at time \<open>now\<close> delivers exactly the pending items
  that are due, each once and in the order of their times, and none early; at most one item per key
  is pending; and the timer of the next round is not later than any pending item.
\<close>

theorem round_delivers_due:
  assumes "dd_run NewDelayingDeliverer d"
  shows "(\<exists>ds. targetChannel (runRound now received d) = targetChannel d @ ds \<and> sorted (map dTime ds) \<and>
      distinct ds \<and> set ds = {i \<in> pending d. dTime i \<le> now}) \<and>
    inj_on dKey (pending d) \<and> (\<forall>i \<in> pending d. nextWakeUp now d \<le> dTime i)"
proof (intro conjI ballI)
  have inv: "dd_inv d" using dd_run_inv [OF assms] by simp
  have "targetChannel (runRound now received d) = targetChannel (deliver now d)"
    by (cases rule: runRound_cases [of now received d]) simp_all
  then show "\<exists>ds. targetChannel (runRound now received d) = targetChannel d @ ds \<and> sorted (map dTime ds) \<and>
      distinct ds \<and> set ds = {i \<in> pending d. dTime i \<le> now}"
    by (metis deliver_spec [OF inv])
  show "inj_on dKey (pending d)" using inv by (simp add: heap_inv_def index_ok_def pending_def distinct_map)
  fix i assume i: "i \<in> pending d"
  then have "0 < hLen (dlHeap d)" by (auto simp: pending_def hLen_def)
  moreover have "heap_upto (dlHeap d) (length (hdata (dlHeap d)))" using inv by (simp add: heap_inv_def)
  ultimately show "nextWakeUp now d \<le> dTime i"
    using root_least i by (metis in_set_conv_nth nextWakeUp_def pending_def)
qed

lemma round_delivers_due_witness:
  "\<exists>ds. targetChannel (runRound 5 False (runRound 1 True (DeliverAt ''k'' (7::nat) 5 NewDelayingDeliverer))) = ds \<and>
     set ds = {\<lparr>dKey = ''k'', dValue = 7, dTime = 5\<rparr>}"
proof -
  let ?d = "runRound 1 True (DeliverAt ''k'' (7::nat) 5 NewDelayingDeliverer)"
  have "dd_run NewDelayingDeliverer ?d" by (metis dd_refl dd_next dd_request dd_round)
  moreover have "targetChannel ?d = []" "pending ?d = {\<lparr>dKey = ''k'', dValue = 7, dTime = 5\<rparr>}"
    by (simp_all add: runRound_def DeliverAt_def NewDelayingDeliverer_def deliver_def deliverLoop.simps hLen_def
      pending_def updateHeap_def heapPush_def hPush_def heapUp.simps)
  ultimately show ?thesis using round_delivers_due [of ?d 5 False] by force
qed

end
