(* ===== verification/Backoff.thy ===== *)
theory Backoff
  imports Go_Prelude
begin

text \<open>
  The per-key exponential backoff of \<open>client-go/util/flowcontrol/backoff.go\<close>, with which
  the ingress controller spaces its retries. Durations are \<open>int64\<close> nanoseconds: products
  wrap around (\<open>int64\<close>), and the difference of two times saturates (\<open>timeSub\<close>). The
  clock reading is an argument. Every method holds the lock for its whole body.
\<close>

section \<open>Durations\<close>

definition int64 :: "int \<Rightarrow> int" where
  "int64 i = (i + 2 ^ 63) mod 2 ^ 64 - 2 ^ 63"

definition timeSub :: "int \<Rightarrow> int \<Rightarrow> int" where
  "timeSub t u = max (- (2 ^ 63)) (min (2 ^ 63 - 1) (t - u))"

lemma int64_id: "- (2 ^ 63) \<le> i \<Longrightarrow> i < 2 ^ 63 \<Longrightarrow> int64 i = i"
  by (simp add: int64_def mod_pos_pos_trivial)

section \<open>The backoff manager\<close>

record backoffEntry =
  beBackoff :: int
  beLastUpdate :: int

record BackoffManager =
  boDefaultDuration :: int
  boMaxDuration :: int
  boItems :: "(string \<times> backoffEntry) list"

definition NewBackOff :: "int \<Rightarrow> int \<Rightarrow> BackoffManager" where
  "NewBackOff initial maximum =
     \<lparr>boDefaultDuration = initial, boMaxDuration = maximum, boItems = []\<rparr>"

definition hasExpired :: "int \<Rightarrow> int \<Rightarrow> int \<Rightarrow> bool" where
  "hasExpired eventTime lastUpdate maxDuration \<longleftrightarrow> timeSub eventTime lastUpdate > int64 (maxDuration * 2)"

definition boGet :: "string \<Rightarrow> BackoffManager \<Rightarrow> int" where
  "boGet key p = (case map_of (boItems p) key of None \<Rightarrow> 0 | Some entry \<Rightarrow> beBackoff entry)"

definition boNext :: "string \<Rightarrow> int \<Rightarrow> int \<Rightarrow> BackoffManager \<Rightarrow> BackoffManager" where
  "boNext key eventTime now p =
     (let fresh = \<lparr>beBackoff = boDefaultDuration p, beLastUpdate = 0\<rparr>;
          entry =
            (case map_of (boItems p) key of
               None \<Rightarrow> fresh
             | Some entry \<Rightarrow>
                 if hasExpired eventTime (beLastUpdate entry) (boMaxDuration p) then fresh
                 else entry\<lparr>beBackoff := min (int64 (beBackoff entry * 2)) (boMaxDuration p)\<rparr>)
      in p\<lparr>boItems := map_put key (entry\<lparr>beLastUpdate := now\<rparr>) (boItems p)\<rparr>)"

definition boReset :: "string \<Rightarrow> BackoffManager \<Rightarrow> BackoffManager" where
  "boReset key p = p\<lparr>boItems := map_del key (boItems p)\<rparr>"

definition IsInBackOffSince :: "string \<Rightarrow> int \<Rightarrow> int \<Rightarrow> BackoffManager \<Rightarrow> bool" where
  "IsInBackOffSince key eventTime now p =
     (case map_of (boItems p) key of
        None \<Rightarrow> False
      | Some entry \<Rightarrow>
          if hasExpired eventTime (beLastUpdate entry) (boMaxDuration p) then False
          else timeSub now eventTime < beBackoff entry)"

definition IsInBackOffSinceUpdate :: "string \<Rightarrow> int \<Rightarrow> BackoffManager \<Rightarrow> bool" where
  "IsInBackOffSinceUpdate key eventTime p =
     (case map_of (boItems p) key of
        None \<Rightarrow> False
      | Some entry \<Rightarrow>
          if hasExpired eventTime (beLastUpdate entry) (boMaxDuration p) then False
          else timeSub eventTime (beLastUpdate entry) < beBackoff entry)"

definition boGC :: "int \<Rightarrow> BackoffManager \<Rightarrow> BackoffManager" where
  "boGC now p =
     p\<lparr>boItems := filter (\<lambda>(key, entry).
         \<not> timeSub now (beLastUpdate entry) > int64 (boMaxDuration p * 2)) (boItems p)\<rparr>"

section \<open>The invariant\<close>

text \<open>
  Sane settings: the default is at most the maximum, and twice the maximum is still an
  \<open>int64\<close>. Then every entry lies between the default and the maximum.
\<close>

definition bo_settings :: "BackoffManager \<Rightarrow> bool" where
  "bo_settings p \<longleftrightarrow>
     0 < boDefaultDuration p \<and> boDefaultDuration p \<le> boMaxDuration p \<and> boMaxDuration p * 2 < 2 ^ 63"

definition bo_inv :: "BackoffManager \<Rightarrow> bool" where
  "bo_inv p \<longleftrightarrow> bo_settings p \<and> keys_distinct (boItems p) \<and>
     (\<forall>(key, e) \<in> set (boItems p). boDefaultDuration p \<le> beBackoff e \<and> beBackoff e \<le> boMaxDuration p)"

lemma bo_settings_items [simp]: "bo_settings (p\<lparr>boItems := m\<rparr>) = bo_settings p"
  by (simp add: bo_settings_def)

lemma bo_entry:
  assumes "bo_inv p" and "map_of (boItems p) key = Some e"
  shows "boDefaultDuration p \<le> beBackoff e \<and> beBackoff e \<le> boMaxDuration p"
  using assms(1) map_of_SomeD [OF assms(2)] unfolding bo_inv_def by blast

lemma bo_inv_new:
  "0 < i \<Longrightarrow> i \<le> m \<Longrightarrow> m * 2 < 2 ^ 63 \<Longrightarrow> bo_inv (NewBackOff i m)"
  by (simp add: bo_inv_def bo_settings_def NewBackOff_def)

lemma set_map_put_subset: "set (map_put k v m) \<subseteq> insert (k, v) (set m)"
  by (induction m) (auto split: if_splits)

lemma bo_inv_put:
  assumes "bo_inv p" and "boDefaultDuration p \<le> beBackoff e" and "beBackoff e \<le> boMaxDuration p"
  shows "bo_inv (p\<lparr>boItems := map_put key e (boItems p)\<rparr>)"
  using assms set_map_put_subset [of key e "boItems p"] by (auto simp: bo_inv_def)

lemma double_ok:
  assumes "bo_settings p" and "boDefaultDuration p \<le> b" and "b \<le> boMaxDuration p"
  shows "int64 (b * 2) = b * 2"
  using assms by (intro int64_id) (auto simp: bo_settings_def)

lemma boNext_value:
  assumes "bo_inv p"
  shows "boGet key (boNext key t now p) =
    (case map_of (boItems p) key of
       None \<Rightarrow> boDefaultDuration p
     | Some e \<Rightarrow> if hasExpired t (beLastUpdate e) (boMaxDuration p) then boDefaultDuration p
         else min (boGet key p * 2) (boMaxDuration p))"
proof (cases "map_of (boItems p) key")
  case None
  then show ?thesis by (simp add: boGet_def boNext_def Let_def)
next
  case (Some e)
  have "int64 (beBackoff e * 2) = beBackoff e * 2"
    using double_ok [of p "beBackoff e"] bo_entry [OF assms Some] assms by (simp add: bo_inv_def)
  then show ?thesis using Some by (simp add: boGet_def boNext_def Let_def)
qed

lemma bo_inv_next:
  assumes "bo_inv p"
  shows "bo_inv (boNext key t now p)"
proof -
  have s: "0 < boDefaultDuration p" "boDefaultDuration p \<le> boMaxDuration p"
    using assms by (auto simp: bo_inv_def bo_settings_def)
  show ?thesis
  proof (cases "map_of (boItems p) key")
    case None
    with assms s show ?thesis by (auto simp: boNext_def Let_def intro!: bo_inv_put)
  next
    case (Some e)
    have e: "boDefaultDuration p \<le> beBackoff e" "beBackoff e \<le> boMaxDuration p"
      using bo_entry [OF assms Some] by auto
    moreover have "int64 (beBackoff e * 2) = beBackoff e * 2"
      using double_ok [of p "beBackoff e"] e assms by (simp add: bo_inv_def)
    ultimately show ?thesis using assms s Some
      by (auto simp: boNext_def Let_def intro!: bo_inv_put)
  qed
qed

lemma bo_inv_reset: "bo_inv p \<Longrightarrow> bo_inv (boReset key p)"
  by (auto simp: bo_inv_def boReset_def)

lemma bo_inv_gc: "bo_inv p \<Longrightarrow> bo_inv (boGC now p)"
  by (auto simp: bo_inv_def boGC_def distinct_map inj_on_def)

text \<open>Successive failures of one key: pairs of the event time and the clock reading.\<close>

definition boNexts :: "string \<Rightarrow> (int \<times> int) list \<Rightarrow> BackoffManager \<Rightarrow> BackoffManager" where
  "boNexts key ts p = foldl (\<lambda>p (t, now). boNext key t now p) p ts"

fun close_times :: "int \<Rightarrow> int \<Rightarrow> (int \<times> int) list \<Rightarrow> bool" where
  "close_times window lastUpd [] \<longleftrightarrow> True"
| "close_times window lastUpd ((t, now) # ts) \<longleftrightarrow> timeSub t lastUpd \<le> window \<and> close_times window now ts"

lemma boNext_settings [simp]:
  "boDefaultDuration (boNext key t now p) = boDefaultDuration p"
  "boMaxDuration (boNext key t now p) = boMaxDuration p"
  by (simp_all add: boNext_def Let_def)

lemma boNext_lookup:
  "\<exists>e. map_of (boItems (boNext key t now p)) key = Some e \<and> beLastUpdate e = now"
  by (simp add: boNext_def Let_def)

lemma boNexts_grow:
  assumes "bo_inv p" and "map_of (boItems p) key = Some e"
    and "close_times (boMaxDuration p * 2) (beLastUpdate e) ts"
  shows "boGet key (boNexts key ts p) = min (boGet key p * 2 ^ length ts) (boMaxDuration p)"
  using assms
proof (induction ts arbitrary: p e)
  case Nil
  then show ?case using bo_entry [OF Nil.prems(1,2)] by (simp add: boNexts_def boGet_def)
next
  case (Cons tn ts)
  obtain t now where tn: "tn = (t, now)" by fastforce
  let ?p = "boNext key t now p"
  obtain e' where e': "map_of (boItems ?p) key = Some e'" "beLastUpdate e' = now"
    using boNext_lookup by blast
  have m: "0 < boMaxDuration p" "int64 (boMaxDuration p * 2) = boMaxDuration p * 2"
    using Cons.prems(1) double_ok [of p "boMaxDuration p"] by (auto simp: bo_inv_def bo_settings_def)
  have "boGet key ?p = min (boGet key p * 2) (boMaxDuration p)"
    using boNext_value [OF Cons.prems(1), of key t now] Cons.prems(2,3) m tn by (auto simp: hasExpired_def)
  moreover have "boGet key (boNexts key ts ?p) = min (boGet key ?p * 2 ^ length ts) (boMaxDuration ?p)"
    using Cons.IH [OF bo_inv_next [OF Cons.prems(1)] e'(1)] Cons.prems(3) e'(2) tn by simp
  moreover have "min (min (a * 2) c * 2 ^ n) c = min (a * 2 ^ Suc n) c" if "0 < c" for a c :: int and n
  proof (cases "a * 2 \<le> c")
    case False
    have "c \<le> c * 2 ^ n" using that by (simp add: mult_le_cancel_left1)
    moreover have "c * 2 ^ n \<le> a * 2 * 2 ^ n" using False by simp
    ultimately have "c \<le> a * 2 * 2 ^ n" by (rule order_trans)
    with False \<open>c \<le> c * 2 ^ n\<close> show ?thesis by (simp add: min_def mult_ac)
  qed (simp add: mult_ac)
  ultimately show ?case using m(1) tn by (simp add: boNexts_def)
qed

section \<open>Properties\<close>

text \<open>
  The backoff of a key that keeps failing (each failure within twice the maximum of the
  last) doubles from the default until it reaches the maximum: after \<open>n + 1\<close> failures it
  is the minimum of the default times \<open>2 ^ n\<close> and the maximum. No product overflows.
\<close>

theorem backoff_grows:
  assumes "bo_inv p" and "boGet key p = 0" and "close_times (boMaxDuration p * 2) now ts"
  shows "boGet key (boNexts key ((t, now) # ts) p) =
    min (boDefaultDuration p * 2 ^ length ts) (boMaxDuration p)"
proof -
  let ?p = "boNext key t now p"
  obtain e where e: "map_of (boItems ?p) key = Some e" "beLastUpdate e = now"
    using boNext_lookup by blast
  have none: "map_of (boItems p) key = None"
    using bo_entry [OF assms(1)] assms(1,2)
    by (cases "map_of (boItems p) key") (auto simp: boGet_def bo_inv_def bo_settings_def)
  have "boGet key ?p = boDefaultDuration p"
    using boNext_value [OF assms(1), of key t now] none by simp
  with boNexts_grow [OF bo_inv_next [OF assms(1)] e(1)] assms(3) e(2) show ?thesis
    by (simp add: boNexts_def)
qed

theorem backoff_grows_witness:
  "boGet ''ns/web'' (boNexts ''ns/web'' [(0, 1), (2, 3), (4, 5), (6, 7), (8, 9)]
     (NewBackOff 5000000000 60000000000)) = 60000000000"
proof -
  have p: "bo_inv (NewBackOff 5000000000 60000000000)" by (rule bo_inv_new) simp_all
  have g: "boGet ''ns/web'' (NewBackOff 5000000000 60000000000) = 0"
    by (simp add: boGet_def NewBackOff_def)
  have c: "close_times (boMaxDuration (NewBackOff 5000000000 60000000000) * 2) 1 [(2, 3), (4, 5), (6, 7), (8, 9)]"
    by (simp add: timeSub_def NewBackOff_def)
  from backoff_grows [OF p g c, of 0] show ?thesis by (simp add: NewBackOff_def)
qed

text \<open>
  C39: with sane settings the delay of a key is always either nothing or between the default
  and the maximum, whatever sequence of failures, resets and collections happens: all three
  operations keep the invariant, and a reset clears the delay of its key only.
\<close>

theorem backoff_bounded:
  assumes "bo_inv p"
  shows "(boGet key p = 0 \<or> boDefaultDuration p \<le> boGet key p \<and> boGet key p \<le> boMaxDuration p) \<and>
    bo_inv (boNext k t now p) \<and> bo_inv (boReset k p) \<and> bo_inv (boGC now p) \<and>
    boGet key (boReset k p) = (if key = k then 0 else boGet key p)"
  using assms bo_entry [OF assms] bo_inv_next [OF assms] bo_inv_reset [OF assms] bo_inv_gc [OF assms]
  by (auto simp: boGet_def boReset_def split: option.split)

theorem backoff_bounded_witness:
  "bo_inv (NewBackOff 5000000000 60000000000) \<and> bo_inv (boNext ''k'' 0 0 (NewBackOff 5000000000 60000000000))"
proof -
  have p: "bo_inv (NewBackOff 5000000000 60000000000)" by (rule bo_inv_new) simp_all
  from backoff_bounded [OF p] p show ?thesis by blast
qed

end
