(* ===== verification/Ingress_Controller.thy ===== *)
theory Ingress_Controller
  imports Ingress_Clients Cluster_Selector LB_Annotation Go_MD5 Deliverer Backoff
begin

text \<open>
  The federated ingress controller (\<open>pkg/controller/ingress/ingress_controller.go\<close>). It copies
  each ingress of the federation into the member clusters, collects the addresses their load
  balancers got, and makes all clusters use one ingress UID. Its state is the deliverers that
  schedule work, the stores it reads and the backoffs; its handlers run on the items that the
  deliverers deliver and make requests to the API servers (\<open>'w\<close>). Log lines and events are left
  out. \<open>DeepCopy\<close> does not fail on the types it is used on, so its error branches are left out too.
\<close>

section \<open>Constants and state\<close>

definition allClustersKey :: string where "allClustersKey = ''.ALL_CLUSTERS''"
definition globalIngressType :: string where "globalIngressType = ''kubernetes.io/ingress.global-type''"
definition globalLBStatusKey :: string where
  "globalLBStatusKey = ''kubernetes.io/ingress.global-ingress-lb-status''"
definition staticIPNameKeyWritable :: string where
  "staticIPNameKeyWritable = ''kubernetes.io/ingress.global-static-ip-name''"
definition staticIPNameKeyReadonly :: string where
  "staticIPNameKeyReadonly = ''ingress.kubernetes.io/static-ip''"
definition uidAnnotationKey :: string where "uidAnnotationKey = ''kubernetes.io/ingress.uid''"
definition uidConfigMapName :: string where "uidConfigMapName = ''ingress-uid''"
definition uidConfigMapNamespace :: string where "uidConfigMapNamespace = ''kube-system''"
definition uidKey :: string where "uidKey = ''uid''"
definition providerUidKey :: string where "providerUidKey = ''provider-uid''"
definition firstClusterAnnotation :: string where
  "firstClusterAnnotation = ''ingress.federation.kubernetes.io/first-cluster''"

lemmas key_defs = globalIngressType_def globalLBStatusKey_def staticIPNameKeyWritable_def
  staticIPNameKeyReadonly_def uidAnnotationKey_def uidKey_def providerUidKey_def firstClusterAnnotation_def

text \<open>
  A value delivered may be nil: the handlers of the cluster and the config map deliverer use the
  key of the item only. Durations are in nanoseconds.
\<close>

record 'c IngressController =
  ingressDeliverer :: "NamespacedName DelayingDeliverer"
  clusterDeliverer :: "Cluster option DelayingDeliverer"
  configMapDeliverer :: "NamespacedName option DelayingDeliverer"
  ingressFederatedInformer :: "('c, Ingress) federatedInformer"
  configMapFederatedInformer :: "('c, ConfigMap) federatedInformer"
  ingressInformerStore :: "(string \<times> Ingress) list"
  ingressBackoff :: BackoffManager
  configMapBackoff :: BackoffManager
  ingressReviewDelay :: int
  configMapReviewDelay :: int
  clusterAvailableDelay :: int
  clusterUnavailableDelay :: int
  smallDelay :: int
  updateTimeout :: int

definition second :: int where "second = 1000000000"

definition NewIngressController ::
  "(Cluster \<Rightarrow> 'c \<Rightarrow> Ingress informer) \<Rightarrow> (Cluster \<Rightarrow> 'c \<Rightarrow> ConfigMap informer) \<Rightarrow> (Cluster \<Rightarrow> 'c res)
   \<Rightarrow> 'c IngressController" where
  "NewIngressController newIngressInformer newConfigMapInformer client =
     \<lparr>ingressDeliverer = NewDelayingDeliverer, clusterDeliverer = NewDelayingDeliverer,
      configMapDeliverer = NewDelayingDeliverer,
      ingressFederatedInformer = newInformer newIngressInformer client,
      configMapFederatedInformer = newInformer newConfigMapInformer client,
      ingressInformerStore = [],
      ingressBackoff = NewBackOff (5 * second) (60 * second),
      configMapBackoff = NewBackOff (5 * second) (60 * second),
      ingressReviewDelay = 10 * second, configMapReviewDelay = 10 * second,
      clusterAvailableDelay = 5 * second, clusterUnavailableDelay = 5 * second,
      smallDelay = 3 * second, updateTimeout = 30 * second\<rparr>"

text \<open>
  What a handler finds around it: the time, the API servers and the order in which the operations
  of an update finish.
\<close>

record ('c, 'w) icEnv =
  envNow :: int
  envAPI :: "('c, 'w) kubeAPI"
  envFinished :: "nat list"

section \<open>Scheduling\<close>

definition deliverIngress ::
  "('c, 'w) icEnv \<Rightarrow> NamespacedName \<Rightarrow> int \<Rightarrow> bool \<Rightarrow> 'c IngressController \<Rightarrow> 'c IngressController" where
  "deliverIngress env ingress delay failed ic =
     (let key = nnString ingress;
          bo = (if failed then boNext key (envNow env) (envNow env) (ingressBackoff ic)
                else boReset key (ingressBackoff ic));
          delay = (if failed then delay + boGet key bo else delay)
      in ic\<lparr>ingressBackoff := bo,
            ingressDeliverer := DeliverAfter key ingress delay (envNow env) (ingressDeliverer ic)\<rparr>)"

definition deliverIngressObj ::
  "('c, 'w) icEnv \<Rightarrow> Ingress \<Rightarrow> int \<Rightarrow> bool \<Rightarrow> 'c IngressController \<Rightarrow> 'c IngressController" where
  "deliverIngressObj env ingress delay failed = deliverIngress env (nsName (inMeta ingress)) delay failed"

definition deliverConfigMap ::
  "('c, 'w) icEnv \<Rightarrow> string \<Rightarrow> NamespacedName \<Rightarrow> int \<Rightarrow> bool \<Rightarrow> 'c IngressController \<Rightarrow> 'c IngressController" where
  "deliverConfigMap env cluster configMap delay failed ic =
     (let key = cluster;
          bo = (if failed then boNext key (envNow env) (envNow env) (configMapBackoff ic)
                else boReset key (configMapBackoff ic));
          delay = (if failed then delay + boGet key bo else delay)
      in ic\<lparr>configMapBackoff := bo,
            configMapDeliverer := DeliverAfter key (Some configMap) delay (envNow env) (configMapDeliverer ic)\<rparr>)"

definition deliverConfigMapObj ::
  "('c, 'w) icEnv \<Rightarrow> string \<Rightarrow> ConfigMap \<Rightarrow> int \<Rightarrow> bool \<Rightarrow> 'c IngressController \<Rightarrow> 'c IngressController" where
  "deliverConfigMapObj env clusterName configMap delay failed =
     deliverConfigMap env clusterName (nsName (cmMeta configMap)) delay failed"

definition deliverCluster ::
  "('c, 'w) icEnv \<Rightarrow> string \<Rightarrow> Cluster option \<Rightarrow> int \<Rightarrow> 'c IngressController \<Rightarrow> 'c IngressController" where
  "deliverCluster env key val delay ic =
     ic\<lparr>clusterDeliverer := DeliverAfter key val delay (envNow env) (clusterDeliverer ic)\<rparr>"

definition retryConfigMap ::
  "('c, 'w) icEnv \<Rightarrow> string \<Rightarrow> int \<Rightarrow> 'c IngressController \<Rightarrow> 'c IngressController" where
  "retryConfigMap env clusterName delay ic =
     ic\<lparr>configMapDeliverer := DeliverAfter clusterName None delay (envNow env) (configMapDeliverer ic)\<rparr>"

text \<open>
  The callbacks of the two federated informers, and the triggers of the stores: any change of an
  ingress in the federation or in a cluster, and of the config map in a cluster.
\<close>

definition ingressClusterHandlers ::
  "('c, 'w) icEnv \<Rightarrow> (Ingress, 'c IngressController) ClusterLifecycleHandlerFuncs" where
  "ingressClusterHandlers env =
     \<lparr>ClusterAvailable = Some (\<lambda>cluster ic.
        deliverCluster env (clName cluster) (Some cluster) (clusterAvailableDelay ic) ic),
      ClusterUnavailable = Some (\<lambda>cluster objs ic.
        deliverCluster env (clName cluster) (Some cluster) (clusterUnavailableDelay ic) ic)\<rparr>"

definition configMapClusterHandlers ::
  "('c, 'w) icEnv \<Rightarrow> (ConfigMap, 'c IngressController) ClusterLifecycleHandlerFuncs" where
  "configMapClusterHandlers env =
     \<lparr>ClusterAvailable = Some (\<lambda>cluster ic.
        deliverCluster env (clName cluster) (Some cluster) (clusterAvailableDelay ic) ic),
      ClusterUnavailable = None\<rparr>"

definition isSynced :: "'c IngressController \<Rightarrow> bool" where
  "isSynced ic \<longleftrightarrow>
     (if \<not> clusterHasSynced (ingressFederatedInformer ic) then False
      else case GetReadyClusters (ingressFederatedInformer ic) of
        Inl err \<Rightarrow> False
      | Inr clusters \<Rightarrow>
          if \<not> ClustersSynced (ingressFederatedInformer ic) clusters then False
          else if \<not> clusterHasSynced (configMapFederatedInformer ic) then False
          else case GetReadyClusters (configMapFederatedInformer ic) of
            Inl err \<Rightarrow> False
          | Inr clusters \<Rightarrow> ClustersSynced (configMapFederatedInformer ic) clusters)"

definition reconcileIngressesOnClusterChange ::
  "('c, 'w) icEnv \<Rightarrow> string \<Rightarrow> 'c IngressController \<Rightarrow> 'c IngressController" where
  "reconcileIngressesOnClusterChange env clusterName ic =
     (let ic = (if \<not> isSynced ic then deliverCluster env clusterName None (clusterAvailableDelay ic) ic else ic)
      in foldl (\<lambda>ic ingress. deliverIngress env (nsName (inMeta ingress)) (smallDelay ic) False ic) ic
           (map snd (ingressInformerStore ic)))"

section \<open>The ingress UID\<close>

definition getProviderUid :: "string \<Rightarrow> string" where
  "getProviderUid clusterName =
     (let hashedName = md5Sum clusterName in hexBytes (take 8 hashedName))"

definition noMaster :: error where
  "noMaster = Errorf (''Failed to find master cluster with annotation '' @ uidAnnotationKey)"

fun findMaster :: "Cluster list \<Rightarrow> (Cluster \<times> string) res" where
  "findMaster [] = Inl noMaster"
| "findMaster (c # clusters) =
     (case map_of (omAnnotations (clMeta c)) uidAnnotationKey of
        Some uid \<Rightarrow> if uid \<noteq> [] then Inr (c, uid) else findMaster clusters
      | None \<Rightarrow> findMaster clusters)"

definition getMasterCluster :: "'c IngressController \<Rightarrow> (Cluster \<times> string) res" where
  "getMasterCluster ic =
     (case GetReadyClusters (configMapFederatedInformer ic) of
        Inl err \<Rightarrow> Inl err
      | Inr clusters \<Rightarrow> findMaster clusters)"

definition setAnnotation :: "string \<Rightarrow> string \<Rightarrow> ObjectMeta \<Rightarrow> ObjectMeta" where
  "setAnnotation key val m = m\<lparr>omAnnotations := map_put key val (omAnnotations m)\<rparr>"

definition annotateCluster ::
  "('c, 'w) icEnv \<Rightarrow> Cluster \<Rightarrow> string \<Rightarrow> 'w \<Rightarrow> string res \<times> 'w" where
  "annotateCluster env cluster uid w =
     (case apiUpdateCluster (envAPI env) (cluster\<lparr>clMeta := setAnnotation uidAnnotationKey uid (clMeta cluster)\<rparr>) w of
        (Inl err, w') \<Rightarrow> (Inl err, w')
      | (Inr _, w') \<Rightarrow> (Inr uid, w'))"

definition updateClusterIngressUIDToMasters ::
  "('c, 'w) icEnv \<Rightarrow> Cluster \<Rightarrow> string \<Rightarrow> 'c IngressController \<Rightarrow> 'w \<Rightarrow> string res \<times> 'w" where
  "updateClusterIngressUIDToMasters env cluster fallbackUID ic w =
     (case getMasterCluster ic of
        Inr (masterCluster, masterUID) \<Rightarrow>
          if clName masterCluster \<noteq> clName cluster then annotateCluster env cluster masterUID w
          else (Inr (case map_of (omAnnotations (clMeta cluster)) uidAnnotationKey of Some u \<Rightarrow> u | None \<Rightarrow> []), w)
      | Inl err \<Rightarrow>
          if fallbackUID \<noteq> [] then annotateCluster env cluster fallbackUID w
          else (Inl err, w))"

definition lookupData :: "ConfigMap \<Rightarrow> string \<Rightarrow> string" where
  "lookupData configMap key =
     (case cmData configMap of
        None \<Rightarrow> []
      | Some d \<Rightarrow> (case map_of d key of Some v \<Rightarrow> v | None \<Rightarrow> []))"

text \<open>
  The config map comes from the store of the informer and is changed in place, so the store holds
  the changed object whatever becomes of the request. Writing to a nil map panics.
\<close>

definition updateConfigMap ::
  "('c, 'w) icEnv \<Rightarrow> Cluster \<Rightarrow> ConfigMap \<Rightarrow> string \<Rightarrow> 'c IngressController \<times> 'w
   \<Rightarrow> panic option \<times> 'c IngressController \<times> 'w" where
  "updateConfigMap env cluster configMap clusterIngressUID = (\<lambda>(ic, w).
     let configMapKey = nnString (nsName (cmMeta configMap));
         providerUid = getProviderUid (clName cluster);
         configMapProviderUid = lookupData configMap providerUidKey
     in if lookupData configMap uidKey = clusterIngressUID \<and> configMapProviderUid = providerUid then (None, ic, w)
        else case cmData configMap of
          None \<Rightarrow> (Some NilMapWrite, ic, w)
        | Some d \<Rightarrow>
            let configMap = configMap\<lparr>cmData :=
                  Some (map_put providerUidKey providerUid (map_put uidKey clusterIngressUID d))\<rparr>;
                ic = ic\<lparr>configMapFederatedInformer :=
                  targetSync (clName cluster) configMapKey (Some configMap) (configMapFederatedInformer ic)\<rparr>;
                (err, w) = fuUpdate (federatedConfigMapUpdater (envAPI env))
                  (GetClientsetForCluster (configMapFederatedInformer ic)) (envFinished env)
                  [\<lparr>foType = OperationTypeUpdate, foClusterName = clName cluster, foObj = configMap,
                    foKey = configMapKey\<rparr>] w
            in case err of
                 Some e \<Rightarrow> (None, retryConfigMap env (clName cluster) (configMapReviewDelay ic) ic, w)
               | None \<Rightarrow> (None, ic, w))"

definition reconcileConfigMap ::
  "('c, 'w) icEnv \<Rightarrow> Cluster \<Rightarrow> ConfigMap \<Rightarrow> 'c IngressController \<times> 'w
   \<Rightarrow> panic option \<times> 'c IngressController \<times> 'w" where
  "reconcileConfigMap env cluster configMap = (\<lambda>(ic, w).
     let configMapUID = lookupData configMap uidKey;
         (uidResult, w) =
           (case map_of (omAnnotations (clMeta cluster)) uidAnnotationKey of
              Some uid \<Rightarrow> if uid = [] then updateClusterIngressUIDToMasters env cluster configMapUID ic w
                         else (Inr uid, w)
            | None \<Rightarrow> updateClusterIngressUIDToMasters env cluster configMapUID ic w)
     in case uidResult of
          Inl err \<Rightarrow> (None, ic, w)
        | Inr clusterIngressUID \<Rightarrow> updateConfigMap env cluster configMap clusterIngressUID (ic, w))"

definition uidConfigMapKey :: string where
  "uidConfigMapKey = nnString \<lparr>nnNamespace = uidConfigMapNamespace, nnName = uidConfigMapName\<rparr>"

definition reconcileConfigMapForCluster ::
  "('c, 'w) icEnv \<Rightarrow> string \<Rightarrow> 'c IngressController \<times> 'w \<Rightarrow> panic option \<times> 'c IngressController \<times> 'w" where
  "reconcileConfigMapForCluster env clusterName = (\<lambda>(ic, w).
     if \<not> isSynced ic then (None, retryConfigMap env clusterName (clusterAvailableDelay ic) ic, w)
     else if clusterName = allClustersKey then
       (case GetReadyClusters (configMapFederatedInformer ic) of
          Inl err \<Rightarrow> (None, retryConfigMap env clusterName (clusterAvailableDelay ic) ic, w)
        | Inr clusters \<Rightarrow>
            (None, foldl (\<lambda>ic cluster.
               ic\<lparr>configMapDeliverer := DeliverAt (clName cluster) None (envNow env) (configMapDeliverer ic)\<rparr>) ic clusters, w))
     else
       (case GetReadyCluster (configMapFederatedInformer ic) clusterName of
          Inr (Some cluster) \<Rightarrow>
            (case GetByKey (configMapFederatedInformer ic) (clName cluster) uidConfigMapKey of
               Inr (Some configMap) \<Rightarrow> reconcileConfigMap env cluster configMap (ic, w)
             | _ \<Rightarrow> (None, retryConfigMap env clusterName (configMapReviewDelay ic) ic, w))
        | _ \<Rightarrow> (None, retryConfigMap env clusterName (clusterAvailableDelay ic) ic, w)))"

section \<open>Ingresses\<close>

definition icIsClusterReady :: "'c IngressController \<Rightarrow> string \<Rightarrow> bool" where
  "icIsClusterReady ic clusterName \<longleftrightarrow>
     (case GetReadyCluster (ingressFederatedInformer ic) clusterName of
        Inr (Some cluster) \<Rightarrow> True
      | _ \<Rightarrow> False)"

definition updateAnnotationOnIngress ::
  "('c, 'w) icEnv \<Rightarrow> Ingress \<Rightarrow> string \<Rightarrow> string \<Rightarrow> 'c IngressController \<times> 'w \<Rightarrow> 'c IngressController \<times> 'w" where
  "updateAnnotationOnIngress env ingress key val = (\<lambda>(ic, w).
     let ingress = ingress\<lparr>inMeta := setAnnotation key val (inMeta ingress)\<rparr>;
         ingressName = nsName (inMeta ingress)
     in case apiUpdateIngress (envAPI env) ingress w of
          (Inl err, w') \<Rightarrow> (deliverIngress env ingressName (ingressReviewDelay ic) True ic, w')
        | (Inr updatedFedIngress, w') \<Rightarrow> (deliverIngress env ingressName (smallDelay ic) False ic, w'))"

definition deleteIngress ::
  "('c, 'w) icEnv \<Rightarrow> Ingress \<Rightarrow> 'c IngressController \<Rightarrow> 'w \<Rightarrow> error option \<times> 'w" where
  "deleteIngress env ingress ic w =
     (case HandleObjectInUnderlyingClusters (apiUpdateIngress (envAPI env)) (ingressFederatedInformer ic)
             (federatedIngressUpdater (envAPI env)) (envFinished env) ingress w of
        (Inl err, w') \<Rightarrow> (Some err, w')
      | (Inr _, w') \<Rightarrow>
          (case apiDeleteIngress (envAPI env) (omNamespace (inMeta ingress)) (omName (inMeta ingress)) w' of
             (Some err, w'') \<Rightarrow>
               (if \<not> IsNotFound err then Some (wrap ''failed to delete ingress'' err) else None, w'')
           | (None, w'') \<Rightarrow> (None, w'')))"

text \<open>
  One cluster in the loop of \<open>reconcileIngress\<close>: the loop goes on with more operations and the
  status of the cluster's load balancer, or the function returns.
\<close>

datatype ('c, 'w) loopResult =
  Continue "Ingress FederatedOperation list" lb_map
| Return "'c IngressController \<times> 'w"

definition desiredCopy :: "Ingress \<Rightarrow> Ingress" where
  "desiredCopy baseIngress = zeroIngress\<lparr>inMeta := inMeta baseIngress, inSpec := inSpec baseIngress\<rparr>"

definition createOperation :: "string \<Rightarrow> Cluster \<Rightarrow> Ingress \<Rightarrow> Ingress FederatedOperation" where
  "createOperation key cluster baseIngress =
     \<lparr>foType = OperationTypeAdd, foClusterName = clName cluster,
      foObj = (desiredCopy baseIngress)\<lparr>inMeta := DeepCopyRelevantObjectMeta (inMeta baseIngress)\<rparr>, foKey = key\<rparr>"

definition deleteOperation :: "string \<Rightarrow> Cluster \<Rightarrow> Ingress \<Rightarrow> Ingress FederatedOperation" where
  "deleteOperation key cluster baseIngress =
     \<lparr>foType = OperationTypeDelete, foClusterName = clName cluster, foObj = desiredCopy baseIngress, foKey = key\<rparr>"

definition updateOperation :: "string \<Rightarrow> Cluster \<Rightarrow> Ingress \<Rightarrow> Ingress \<Rightarrow> Ingress FederatedOperation" where
  "updateOperation key cluster baseIngress clusterIngress =
     \<lparr>foType = OperationTypeUpdate, foClusterName = clName cluster,
      foObj = (desiredCopy baseIngress)\<lparr>inMeta := (inMeta clusterIngress)\<lparr>
        omAnnotations := map_merge (omAnnotations (inMeta clusterIngress)) (omAnnotations (inMeta baseIngress)),
        omLabels := map_merge (omLabels (inMeta clusterIngress)) (omLabels (inMeta baseIngress))\<rparr>\<rparr>,
      foKey = key\<rparr>"

definition appendStatus :: "string \<Rightarrow> LoadBalancerStatus \<Rightarrow> lb_map \<Rightarrow> lb_map" where
  "appendStatus name status m =
     map_put name ((case map_of m name of Some xs \<Rightarrow> xs | None \<Rightarrow> []) @ [status]) m"

definition reconcileMissing ::
  "('c, 'w) icEnv \<Rightarrow> string \<Rightarrow> Ingress \<Rightarrow> Cluster \<Rightarrow> Ingress FederatedOperation list \<Rightarrow> lb_map
   \<Rightarrow> 'c IngressController \<times> 'w \<Rightarrow> ('c, 'w) loopResult" where
  "reconcileMissing env key baseIngress cluster operations globalLbStat = (\<lambda>(ic, w).
     let annotations = omAnnotations (inMeta baseIngress);
         firstClusterName = (case map_of annotations firstClusterAnnotation of Some n \<Rightarrow> n | None \<Rightarrow> []);
         haveFirstCluster = (map_of annotations firstClusterAnnotation \<noteq> None \<and> firstClusterName \<noteq> [] \<and>
           icIsClusterReady ic firstClusterName)
     in if \<not> haveFirstCluster then
          Return (updateAnnotationOnIngress env baseIngress firstClusterAnnotation (clName cluster) (ic, w))
        else if map_of annotations staticIPNameKeyWritable \<noteq> None \<or> map_of annotations globalIngressType = None \<or>
          firstClusterName = clName cluster then
          Continue (operations @ [createOperation key cluster baseIngress]) globalLbStat
        else Continue operations globalLbStat)"

definition reconcilePresent ::
  "('c, 'w) icEnv \<Rightarrow> NamespacedName \<Rightarrow> string \<Rightarrow> Ingress \<Rightarrow> Cluster \<Rightarrow> Ingress \<Rightarrow> Ingress FederatedOperation list
   \<Rightarrow> lb_map \<Rightarrow> 'c IngressController \<times> 'w \<Rightarrow> ('c, 'w) loopResult" where
  "reconcilePresent env ingress key baseIngress cluster clusterIngress operations globalLbStat = (\<lambda>(ic, w).
     let baseIPAnnotationExists = (map_of (omAnnotations (inMeta baseIngress)) staticIPNameKeyWritable \<noteq> None);
         clusterIPName = map_of (omAnnotations (inMeta clusterIngress)) staticIPNameKeyReadonly;
         baseLBStatusExists = (length (lbsIngress (inStatus baseIngress)) > 0);
         clusterLBStatusExists = (length (lbsIngress (inStatus clusterIngress)) > 0)
     in if \<not> baseIPAnnotationExists \<and> clusterIPName \<noteq> None then
          Return (updateAnnotationOnIngress env baseIngress staticIPNameKeyWritable (the clusterIPName) (ic, w))
        else if \<not> baseLBStatusExists \<and> clusterLBStatusExists then
          Return (case apiUpdateIngressStatus (envAPI env) (baseIngress\<lparr>inStatus := inStatus clusterIngress\<rparr>) w of
            (Inl err, w') \<Rightarrow> (deliverIngress env ingress (ingressReviewDelay ic) True ic, w')
          | (Inr updatedFedIngress, w') \<Rightarrow> (deliverIngress env ingress (smallDelay ic) False ic, w'))
        else
          Continue
            (if ObjectMetaAndSpecEquivalent baseIngress clusterIngress then operations
             else operations @ [updateOperation key cluster baseIngress clusterIngress])
            (if clusterLBStatusExists then appendStatus (clName cluster) (inStatus clusterIngress) globalLbStat
             else globalLbStat))"

definition reconcileInCluster ::
  "('c, 'w) icEnv \<Rightarrow> NamespacedName \<Rightarrow> string \<Rightarrow> Ingress \<Rightarrow> Cluster \<Rightarrow> Ingress FederatedOperation list
   \<Rightarrow> lb_map \<Rightarrow> 'c IngressController \<times> 'w \<Rightarrow> ('c, 'w) loopResult" where
  "reconcileInCluster env ingress key baseIngress cluster operations globalLbStat = (\<lambda>(ic, w).
     case GetByKey (ingressFederatedInformer ic) (clName cluster) key of
       Inl err \<Rightarrow> Return (deliverIngress env ingress 0 True ic, w)
     | Inr clusterIngressObj \<Rightarrow>
         (case SendToCluster (omLabels (clMeta cluster)) (omAnnotations (inMeta baseIngress)) of
            Inl err \<Rightarrow> Return (ic, w)
          | Inr send \<Rightarrow>
              (case (clusterIngressObj, send) of
                 (None, True) \<Rightarrow> reconcileMissing env key baseIngress cluster operations globalLbStat (ic, w)
               | (None, False) \<Rightarrow> Continue operations globalLbStat
               | (Some clusterIngress, False) \<Rightarrow>
                   Continue (operations @ [deleteOperation key cluster baseIngress]) globalLbStat
               | (Some clusterIngress, True) \<Rightarrow>
                   reconcilePresent env ingress key baseIngress cluster clusterIngress operations globalLbStat (ic, w))))"

fun reconcileClusters ::
  "('c, 'w) icEnv \<Rightarrow> NamespacedName \<Rightarrow> string \<Rightarrow> Ingress \<Rightarrow> Cluster list \<Rightarrow> Ingress FederatedOperation list
   \<Rightarrow> lb_map \<Rightarrow> 'c IngressController \<times> 'w \<Rightarrow> ('c, 'w) loopResult" where
  "reconcileClusters env ingress key baseIngress [] operations globalLbStat s = Continue operations globalLbStat"
| "reconcileClusters env ingress key baseIngress (cluster # clusters) operations globalLbStat s =
     (case reconcileInCluster env ingress key baseIngress cluster operations globalLbStat s of
        Return s' \<Rightarrow> Return s'
      | Continue operations' globalLbStat' \<Rightarrow>
          reconcileClusters env ingress key baseIngress clusters operations' globalLbStat' s)"

definition BuildGlobalLbStatusAnnotation :: "lb_map \<Rightarrow> string" where
  "BuildGlobalLbStatusAnnotation globalLbStat = marshalLbStatus globalLbStat"

text \<open>What \<open>reconcileIngress\<close> does with the operations it has collected.\<close>

definition propagate ::
  "('c, 'w) icEnv \<Rightarrow> NamespacedName \<Rightarrow> Ingress \<Rightarrow> Ingress FederatedOperation list \<Rightarrow> lb_map
   \<Rightarrow> 'c IngressController \<times> 'w \<Rightarrow> 'c IngressController \<times> 'w" where
  "propagate env ingress baseIngress operations globalLbStat = (\<lambda>(ic, w).
     let globalLbStatStr = BuildGlobalLbStatusAnnotation globalLbStat
     in if map_of (omAnnotations (inMeta baseIngress)) globalLBStatusKey \<noteq> Some globalLbStatStr then
          updateAnnotationOnIngress env baseIngress globalLBStatusKey globalLbStatStr (ic, w)
        else if length operations = 0 then (ic, w)
        else case fuUpdate (federatedIngressUpdater (envAPI env))
               (GetClientsetForCluster (ingressFederatedInformer ic)) (envFinished env) operations w of
          (Some err, w') \<Rightarrow> (deliverIngress env ingress (ingressReviewDelay ic) True ic, w')
        | (None, w') \<Rightarrow> (deliverIngress env ingress (ingressReviewDelay ic) False ic, w'))"

definition reconcileIngress ::
  "('c, 'w) icEnv \<Rightarrow> NamespacedName \<Rightarrow> 'c IngressController \<times> 'w \<Rightarrow> 'c IngressController \<times> 'w" where
  "reconcileIngress env ingress = (\<lambda>(ic, w).
     if \<not> isSynced ic then (deliverIngress env ingress (clusterAvailableDelay ic) False ic, w)
     else let key = nnString ingress in
       case map_of (ingressInformerStore ic) key of
         None \<Rightarrow> (ic, w)
       | Some baseIngress \<Rightarrow>
           if omDeletionTimestamp (inMeta baseIngress) \<noteq> None then
             (case deleteIngress env baseIngress ic w of
                (Some err, w') \<Rightarrow> (deliverIngress env ingress 0 True ic, w')
              | (None, w') \<Rightarrow> (ic, w'))
           else
             (case EnsureFinalizers (apiUpdateIngress (envAPI env)) baseIngress w of
                (Inl err, w') \<Rightarrow> (deliverIngress env ingress 0 True ic, w')
              | (Inr baseIngress, w') \<Rightarrow>
                  (case GetReadyClusters (ingressFederatedInformer ic) of
                     Inl err \<Rightarrow> (deliverIngress env ingress (clusterAvailableDelay ic) False ic, w')
                   | Inr clusters \<Rightarrow>
                       (case reconcileClusters env ingress key baseIngress clusters [] [] (ic, w') of
                          Return s \<Rightarrow> s
                        | Continue operations globalLbStat \<Rightarrow>
                            propagate env ingress baseIngress operations globalLbStat (ic, w')))))"

section \<open>The handlers of the deliverers\<close>

definition ingressHandler ::
  "('c, 'w) icEnv \<Rightarrow> NamespacedName DelayingDelivererItem \<Rightarrow> 'c IngressController \<times> 'w
   \<Rightarrow> 'c IngressController \<times> 'w" where
  "ingressHandler env item s = reconcileIngress env (dValue item) s"

definition clusterHandler ::
  "('c, 'w) icEnv \<Rightarrow> Cluster option DelayingDelivererItem \<Rightarrow> 'c IngressController \<times> 'w
   \<Rightarrow> panic option \<times> 'c IngressController \<times> 'w" where
  "clusterHandler env item = (\<lambda>(ic, w).
     reconcileConfigMapForCluster env (dKey item) (reconcileIngressesOnClusterChange env (dKey item) ic, w))"

definition configMapHandler ::
  "('c, 'w) icEnv \<Rightarrow> NamespacedName option DelayingDelivererItem \<Rightarrow> 'c IngressController \<times> 'w
   \<Rightarrow> panic option \<times> 'c IngressController \<times> 'w" where
  "configMapHandler env item s = reconcileConfigMapForCluster env (dKey item) s"

end
