(* ===== verification/Ingress_Reconcile.thy ===== *)
theory Ingress_Reconcile
  imports Ingress_Controller
begin

text \<open>
  What \<open>reconcileIngress\<close> does to the member clusters: the operations it plans, that carrying them
  out brings every cluster in line with the federated ingress, when it is a no-op, and what it
  does on errors. The results about member clusters are for API servers that keep objects by
  name, through the interpretation \<open>ingress_servers\<close> of the tracker-based clients.
\<close>

section \<open>Fields that scheduling leaves alone\<close>

lemma deliverIngress_fields [simp]:
  "ingressFederatedInformer (deliverIngress env i d b ic) = ingressFederatedInformer ic"
  "configMapFederatedInformer (deliverIngress env i d b ic) = configMapFederatedInformer ic"
  "ingressInformerStore (deliverIngress env i d b ic) = ingressInformerStore ic"
  "clusterDeliverer (deliverIngress env i d b ic) = clusterDeliverer ic"
  "configMapDeliverer (deliverIngress env i d b ic) = configMapDeliverer ic"
  by (simp_all add: deliverIngress_def Let_def)

section \<open>The plan\<close>

text \<open>Whether the ingress goes to a cluster, and what the cluster has of it.\<close>

abbreviation sendTo :: "Ingress \<Rightarrow> Cluster \<Rightarrow> bool res" where
  "sendTo base c \<equiv> SendToCluster (omLabels (clMeta c)) (omAnnotations (inMeta base))"

abbreviation annotation :: "Ingress \<Rightarrow> string \<Rightarrow> string option" where
  "annotation i k \<equiv> map_of (omAnnotations (inMeta i)) k"

definition haveFirst :: "'c IngressController \<Rightarrow> Ingress \<Rightarrow> bool" where
  "haveFirst ic base \<longleftrightarrow>
     (case annotation base firstClusterAnnotation of
        Some n \<Rightarrow> n \<noteq> [] \<and> icIsClusterReady ic n
      | None \<Rightarrow> False)"

text \<open>An ingress with a global type waits for its first cluster until the static IP is known.\<close>

definition mayCreate :: "Ingress \<Rightarrow> Cluster \<Rightarrow> bool" where
  "mayCreate base c \<longleftrightarrow> annotation base staticIPNameKeyWritable \<noteq> None \<or> annotation base globalIngressType = None \<or>
     annotation base firstClusterAnnotation = Some (clName c)"

text \<open>Nothing about this cluster makes the loop return early.\<close>

definition settled :: "'c IngressController \<Rightarrow> Ingress \<Rightarrow> Cluster \<Rightarrow> Ingress option \<Rightarrow> bool" where
  "settled ic base c found \<longleftrightarrow>
     (case (sendTo base c, found) of
        (Inr True, None) \<Rightarrow> haveFirst ic base
      | (Inr True, Some ci) \<Rightarrow>
          (annotation base staticIPNameKeyWritable \<noteq> None \<or> annotation ci staticIPNameKeyReadonly = None) \<and>
          (lbsIngress (inStatus base) \<noteq> [] \<or> lbsIngress (inStatus ci) = [])
      | (Inr False, _) \<Rightarrow> True
      | (Inl err, _) \<Rightarrow> False)"

definition planned ::
  "string \<Rightarrow> Ingress \<Rightarrow> Cluster \<Rightarrow> Ingress option \<Rightarrow> Ingress FederatedOperation option" where
  "planned key base c found =
     (case (sendTo base c, found) of
        (Inr True, None) \<Rightarrow> if mayCreate base c then Some (createOperation key c base) else None
      | (Inr False, Some ci) \<Rightarrow> Some (deleteOperation key c base)
      | (Inr True, Some ci) \<Rightarrow>
          if ObjectMetaAndSpecEquivalent base ci then None else Some (updateOperation key c base ci)
      | _ \<Rightarrow> None)"

definition reported ::
  "Ingress \<Rightarrow> Cluster \<Rightarrow> Ingress option \<Rightarrow> LoadBalancerStatus option" where
  "reported base c found =
     (case (sendTo base c, found) of
        (Inr True, Some ci) \<Rightarrow> if lbsIngress (inStatus ci) \<noteq> [] then Some (inStatus ci) else None
      | _ \<Rightarrow> None)"

lemma reconcileInCluster_settled:
  assumes "GetByKey (ingressFederatedInformer ic) (clName c) key = Inr found" and "settled ic base c found"
  shows "reconcileInCluster env ingress key base c ops stat (ic, w) =
    Continue (ops @ (case planned key base c found of Some op \<Rightarrow> [op] | None \<Rightarrow> []))
      (case reported base c found of Some s \<Rightarrow> appendStatus (clName c) s stat | None \<Rightarrow> stat)"
proof (cases "sendTo base c")
  case (Inl err)
  then show ?thesis using assms(2) by (simp add: settled_def)
next
  case (Inr b)
  show ?thesis
  proof (cases found)
    case None
    show ?thesis
    proof (cases b)
      case True
      then have "haveFirst ic base" using assms(2) Inr None by (simp add: settled_def)
      then obtain n where n: "annotation base firstClusterAnnotation = Some n" "n \<noteq> []" "icIsClusterReady ic n"
        by (auto simp: haveFirst_def split: option.splits)
      then show ?thesis using assms(1) Inr None True
        by (auto simp: reconcileInCluster_def reconcileMissing_def planned_def reported_def mayCreate_def Let_def)
    next
      case False
      then show ?thesis using assms(1) Inr None by (simp add: reconcileInCluster_def planned_def reported_def)
    qed
  next
    case (Some ci)
    then show ?thesis using assms Inr
      by (cases b) (auto simp: reconcileInCluster_def reconcilePresent_def planned_def reported_def settled_def Let_def)
  qed
qed

text \<open>The plan for a list of clusters; \<open>found\<close> is what the stores show.\<close>

definition plan ::
  "string \<Rightarrow> Ingress \<Rightarrow> (string \<Rightarrow> Ingress option) \<Rightarrow> Cluster list \<Rightarrow> Ingress FederatedOperation list" where
  "plan key base found cs = List.map_filter (\<lambda>c. planned key base c (found (clName c))) cs"

definition statuses ::
  "Ingress \<Rightarrow> (string \<Rightarrow> Ingress option) \<Rightarrow> Cluster list \<Rightarrow> lb_map" where
  "statuses base found cs =
     List.map_filter (\<lambda>c. map_option (\<lambda>s. (clName c, [s])) (reported base c (found (clName c)))) cs"

lemma appendStatus_fresh: "name \<notin> fst ` set m \<Longrightarrow> appendStatus name s m = m @ [(name, [s])]"
proof -
  assume "name \<notin> fst ` set m"
  moreover from this have "map_of m name = None" by (simp add: map_of_eq_None_iff)
  moreover have "map_put name v m = m @ [(name, v)]" if "name \<notin> fst ` set m" for v
    using that by (induction name v m rule: map_put.induct) auto
  ultimately show ?thesis by (simp add: appendStatus_def)
qed

lemma reconcileClusters_settled:
  assumes "\<forall>c \<in> set cs. GetByKey (ingressFederatedInformer ic) (clName c) key = Inr (found (clName c)) \<and>
      settled ic base c (found (clName c))"
    and "distinct (map clName cs)" and "clName ` set cs \<inter> fst ` set stat = {}"
  shows "reconcileClusters env ingress key base cs ops stat (ic, w) =
    Continue (ops @ plan key base found cs) (stat @ statuses base found cs)"
  using assms
proof (induction cs arbitrary: ops stat)
  case (Cons c cs)
  have step: "reconcileInCluster env ingress key base c ops stat (ic, w) =
      Continue (ops @ (case planned key base c (found (clName c)) of Some op \<Rightarrow> [op] | None \<Rightarrow> []))
        (case reported base c (found (clName c)) of Some s \<Rightarrow> appendStatus (clName c) s stat | None \<Rightarrow> stat)"
    using Cons.prems(1) by (intro reconcileInCluster_settled) simp_all
  have "clName c \<notin> fst ` set stat" using Cons.prems(3) by auto
  then have stat: "appendStatus (clName c) s stat = stat @ [(clName c, [s])]" for s by (rule appendStatus_fresh)
  have disj: "clName ` set cs \<inter> fst ` set (stat @ (case reported base c (found (clName c)) of
      Some s \<Rightarrow> [(clName c, [s])] | None \<Rightarrow> [])) = {}"
    using Cons.prems(2,3) by (cases "reported base c (found (clName c))") simp_all
  have eq: "(case reported base c (found (clName c)) of Some s \<Rightarrow> appendStatus (clName c) s stat | None \<Rightarrow> stat) =
      stat @ (case reported base c (found (clName c)) of Some s \<Rightarrow> [(clName c, [s])] | None \<Rightarrow> [])"
    using stat by (simp split: option.splits)
  have plans: "plan key base found (c # cs) =
      (case planned key base c (found (clName c)) of Some op \<Rightarrow> [op] | None \<Rightarrow> []) @ plan key base found cs"
      "statuses base found (c # cs) =
      (case reported base c (found (clName c)) of Some s \<Rightarrow> [(clName c, [s])] | None \<Rightarrow> []) @ statuses base found cs"
    by (simp_all add: plan_def statuses_def map_filter_simps split: option.splits)
  show ?case
    using Cons.IH [OF _ _ disj] Cons.prems(1,2) by (simp add: step eq plans)
qed (simp add: plan_def statuses_def map_filter_simps)

section \<open>A settled ingress\<close>

text \<open>
  The controller is synced and knows the ingress; the ingress is not being deleted, has its
  finalizers and the current status annotation, and no cluster makes the loop return early.
\<close>

definition view_settled ::
  "NamespacedName \<Rightarrow> Ingress \<Rightarrow> (string \<Rightarrow> Ingress option) \<Rightarrow> 'c IngressController \<Rightarrow> bool" where
  "view_settled ingress base found ic \<longleftrightarrow>
     isSynced ic \<and> inf_wf (ingressFederatedInformer ic) \<and>
     map_of (ingressInformerStore ic) (nnString ingress) = Some base \<and>
     omDeletionTimestamp (inMeta base) = None \<and> bothFinalizers \<subseteq> set (omFinalizers (inMeta base)) \<and>
     (\<forall>c \<in> set (readyList (ingressFederatedInformer ic)).
        GetByKey (ingressFederatedInformer ic) (clName c) (nnString ingress) = Inr (found (clName c)) \<and>
        settled ic base c (found (clName c)))"

definition ready_to_sync ::
  "NamespacedName \<Rightarrow> Ingress \<Rightarrow> (string \<Rightarrow> Ingress option) \<Rightarrow> 'c IngressController \<Rightarrow> bool" where
  "ready_to_sync ingress base found ic \<longleftrightarrow>
     view_settled ingress base found ic \<and>
     annotation base globalLBStatusKey =
       Some (marshalLbStatus (statuses base found (readyList (ingressFederatedInformer ic))))"

lemma reconcile_view:
  assumes "view_settled ingress base found ic"
  shows "reconcileIngress env ingress (ic, w) =
    propagate env ingress base (plan (nnString ingress) base found (readyList (ingressFederatedInformer ic)))
      (statuses base found (readyList (ingressFederatedInformer ic))) (ic, w)"
proof -
  let ?cs = "readyList (ingressFederatedInformer ic)"
  note rs = assms [unfolded view_settled_def]
  have fin: "EnsureFinalizers (apiUpdateIngress (envAPI env)) base w = (Inr base, w)"
    unfolding EnsureFinalizers_spec using rs by simp
  have loop: "reconcileClusters env ingress (nnString ingress) base ?cs [] [] (ic, w) =
      Continue (plan (nnString ingress) base found ?cs) (statuses base found ?cs)"
    using reconcileClusters_settled [of ?cs ic "nnString ingress" found base "[]" env ingress "[]" w]
      rs readyList_names(1) [of "ingressFederatedInformer ic"] by simp
  have clusters: "GetReadyClusters (ingressFederatedInformer ic) = Inr ?cs" by (simp add: GetReadyClusters_def)
  show ?thesis using rs by (simp add: reconcileIngress_def fin loop clusters Let_def)
qed

lemma reconcile_runs_plan:
  assumes "ready_to_sync ingress base found ic"
  shows "reconcileIngress env ingress (ic, w) =
    (let ops = plan (nnString ingress) base found (readyList (ingressFederatedInformer ic)) in
     if length ops = 0 then (ic, w)
     else case fuUpdate (federatedIngressUpdater (envAPI env))
            (GetClientsetForCluster (ingressFederatedInformer ic)) (envFinished env) ops w of
       (Some err, w') \<Rightarrow> (deliverIngress env ingress (ingressReviewDelay ic) True ic, w')
     | (None, w') \<Rightarrow> (deliverIngress env ingress (ingressReviewDelay ic) False ic, w'))"
proof -
  have "view_settled ingress base found ic" using assms by (simp add: ready_to_sync_def)
  from reconcile_view [OF this, of env w] assms show ?thesis
    by (simp add: ready_to_sync_def propagate_def BuildGlobalLbStatusAnnotation_def Let_def)
qed

text \<open>
  The stores of the informer show what the member clusters have, and the updater finds their
  clients.
\<close>

definition faithful_view ::
  "(string, Ingress) federatedInformer \<Rightarrow> NamespacedName \<Rightarrow> (string \<Rightarrow> Ingress option) \<Rightarrow> fed_world \<Rightarrow> bool" where
  "faithful_view f ingress found w \<longleftrightarrow> (\<forall>c \<in> set (readyList f).
     found (clName c) = memberIngresses w (clName c) (nnNamespace ingress, nnName ingress) \<and>
     GetClientsetForCluster f (clName c) = Inr (clName c))"

lemma planned_cluster: "planned key base c found = Some op \<Longrightarrow> foClusterName op = clName c"
  by (auto simp: planned_def createOperation_def deleteOperation_def updateOperation_def
      split: sum.splits bool.splits option.splits if_splits)

lemma plan_names: "map foClusterName (plan key base found cs) =
    map clName (filter (\<lambda>c. planned key base c (found (clName c)) \<noteq> None) cs)"
  by (induction cs) (auto simp: plan_def map_filter_simps planned_cluster split: option.splits)

lemma plan_mem:
  "op \<in> set (plan key base found cs) \<longleftrightarrow> (\<exists>c \<in> set cs. planned key base c (found (clName c)) = Some op)"
  by (auto simp: plan_def List.map_filter_def image_iff)

text \<open>The objects that operations write have the name of the ingress.\<close>

lemma planned_key:
  assumes "planned key base c found = Some op" and "objKey ingressKind base = k"
    and "\<And>ci. found = Some ci \<Longrightarrow> objKey ingressKind ci = k"
  shows "objKey ingressKind (foObj op) = k"
proof -
  have copy: "objKey ingressKind (desiredCopy base) = k"
    using assms(2) by (simp add: objKey_def ingressKind_def desiredCopy_def)
  show ?thesis
    using assms copy
    by (auto simp: planned_def createOperation_def deleteOperation_def updateOperation_def objKey_def ingressKind_def
      DeepCopyRelevantObjectMeta_def copyObjectMeta_def zeroMeta_def
      split: sum.splits bool.splits option.splits if_splits)
qed

lemma planned_ok:
  assumes "planned key base c found = Some op"
  shows "(foType op = OperationTypeAdd \<longrightarrow> found = None) \<and> (foType op = OperationTypeUpdate \<longrightarrow> found \<noteq> None)"
  using assms
  by (auto simp: planned_def createOperation_def deleteOperation_def updateOperation_def
      split: sum.splits bool.splits option.splits if_splits)

text \<open>What a planned operation leaves in the cluster under the name of the ingress.\<close>

definition outcome :: "Ingress FederatedOperation option \<Rightarrow> Ingress option \<Rightarrow> Ingress option" where
  "outcome op found =
     (case op of
        None \<Rightarrow> found
      | Some op \<Rightarrow> if foType op = OperationTypeDelete then None else Some (foObj op))"

lemma plan_carried_out:
  assumes "fw_wf w" and "faithful_view f ingress found w" and "inf_wf f"
    and "objKey ingressKind base = (nnNamespace ingress, nnName ingress)" and "validObj ingressKind base"
    and "set finished = {..<length (plan key base found (readyList f))}" and "distinct finished"
    and "fuUpdate (federatedIngressUpdater trackerAPI) (GetClientsetForCluster f) finished
      (plan key base found (readyList f)) w = (err, w')"
  shows "err = None \<and> fw_wf w' \<and>
    (\<forall>c \<in> set (readyList f). memberIngresses w' (clName c) = (memberIngresses w (clName c))
       ((nnNamespace ingress, nnName ingress) := outcome (planned key base c (found (clName c))) (found (clName c)))) \<and>
    (\<forall>name. name \<notin> clName ` set (readyList f) \<longrightarrow> memberIngresses w' name = memberIngresses w name)"
proof -
  let ?k = "(nnNamespace ingress, nnName ingress)" and ?cs = "readyList f"
  define ops where "ops = plan key base found ?cs"
  have view: "found (clName c) = memberIngresses w (clName c) ?k" "GetClientsetForCluster f (clName c) = Inr (clName c)"
    if "c \<in> set ?cs" for c using assms(2) that unfolding faithful_view_def by blast+
  have ops: "\<exists>c \<in> set ?cs. planned key base c (found (clName c)) = Some op" if "op \<in> set ops" for op
    using that unfolding ops_def plan_mem .
  have clients: "\<forall>op \<in> set ops. GetClientsetForCluster f (foClusterName op) = Inr (foClusterName op)"
    using ops planned_cluster view(2) by metis
  have dist: "distinct (map foClusterName ops)"
    unfolding ops_def plan_names using readyList_names(1) [OF assms(3)] by (rule distinct_map_filter)
  have sched: "schedule finished (length ops)" using assms(6,7) by (simp add: schedule_def ops_def)
  have key: "objKey ingressKind (foObj op) = ?k" if "planned key base c (found (clName c)) = Some op" "c \<in> set ?cs" for c op
    using planned_key [OF that(1) assms(4)] view(1) [OF that(2)] ingress_servers.look_key [OF assms(1)] by metis
  have valid: "ingress_servers.op_valid op" if "op \<in> set ops" for op
    using ops [OF that] key assms(4,5) unfolding ingress_servers.op_valid_def validObj_def by metis
  note law = ingress_servers.fuUpdate_law [OF assms(1) ballI dist sched assms(8) [folded ops_def], OF conjI, OF valid bspec [OF clients]]
  have ok: "ingress_servers.op_ok op (memberIngresses w (foClusterName op))" if "op \<in> set ops" for op
  proof -
    obtain c where c: "c \<in> set ?cs" "planned key base c (found (clName c)) = Some op" using ops \<open>op \<in> set ops\<close> by blast
    then show ?thesis using planned_ok [OF c(2)] planned_cluster [OF c(2)] key [OF c(2,1)] view(1) [OF c(1)]
      by (simp add: ingress_servers.op_ok_def split: FederatedOperationType.split)
  qed
  have carried: "memberIngresses w' (clName c) =
      (memberIngresses w (clName c))(?k := outcome (planned key base c (found (clName c))) (found (clName c)))"
    if c: "c \<in> set ?cs" for c
  proof (cases "planned key base c (found (clName c))")
    case None
    have "clName c \<notin> foClusterName ` set ops"
    proof
      assume "clName c \<in> foClusterName ` set ops"
      then obtain op where "op \<in> set ops" "foClusterName op = clName c" by (metis imageE)
      then obtain c' where "c' \<in> set ?cs" "clName c' = clName c" "planned key base c' (found (clName c')) \<noteq> None"
        using ops planned_cluster by (metis option.distinct(1))
      then show False using None readyList_names(1) [OF assms(3)] c by (metis distinct_map inj_onD)
    qed
    then have "memberIngresses w' (clName c) = memberIngresses w (clName c)" using law by blast
    then show ?thesis using None view(1) [OF c] by (simp add: outcome_def)
  next
    case (Some op)
    then have "op \<in> set ops" unfolding ops_def plan_mem using c by blast
    then obtain i where "i < length ops" "ops ! i = op" by (metis in_set_conv_nth)
    then have "memberIngresses w' (clName c) = ingress_servers.op_effect op (memberIngresses w (clName c))"
      using law assms(6) planned_cluster [OF Some] by (auto simp: ops_def)
    then show ?thesis
      using ok [OF \<open>op \<in> set ops\<close>] key [OF Some c] planned_cluster [OF Some] Some
      by (auto simp: ingress_servers.op_effect_def ingress_servers.op_ok_def outcome_def
          split: FederatedOperationType.splits)
  qed
  have "foClusterName ` set ops \<subseteq> clName ` set ?cs" using ops planned_cluster by blast
  moreover have "err = None" using law ok assms(6) by (auto simp: ops_def)
  ultimately show ?thesis using law carried by blast
qed

section \<open>Properties\<close>

text \<open>\<open>i\<close> carries the specification, labels and annotations of \<open>base\<close>.\<close>

definition carries :: "Ingress \<Rightarrow> Ingress \<Rightarrow> bool" where
  "carries base i \<longleftrightarrow> inSpec i = inSpec base \<and>
     map_of (omLabels (inMeta base)) \<subseteq>\<^sub>m map_of (omLabels (inMeta i)) \<and>
     map_of (omAnnotations (inMeta base)) \<subseteq>\<^sub>m map_of (omAnnotations (inMeta i))"

lemma planned_outcome:
  assumes "keys_distinct (omLabels (inMeta base))" and "keys_distinct (omAnnotations (inMeta base))"
    and "sendTo base c = Inr send"
  shows "if \<not> send then outcome (planned key base c found) found = None
    else if found = None \<and> \<not> mayCreate base c then outcome (planned key base c found) found = None
    else \<exists>i. outcome (planned key base c found) found = Some i \<and> carries base i"
proof (cases found)
  case None
  have "user_meta (DeepCopyRelevantObjectMeta (inMeta base)) = user_meta (inMeta base)"
    using DeepCopyRelevantObjectMeta_user assms(1,2) .
  then have "carries base ((desiredCopy base)\<lparr>inMeta := DeepCopyRelevantObjectMeta (inMeta base)\<rparr>)"
    by (simp add: carries_def user_meta_def desiredCopy_def)
  then show ?thesis using None assms(3) by (simp add: planned_def outcome_def createOperation_def)
next
  case (Some ci)
  have equiv: "carries base ci" if "ObjectMetaAndSpecEquivalent base ci"
    using that by (simp add: ObjectMetaAndSpecEquivalent_def ObjectMetaEquivalent_iff carries_def user_meta_def)
  have "carries base (foObj (updateOperation key c base ci))"
    using assms(1,2) by (simp add: updateOperation_def carries_def desiredCopy_def map_of_map_merge)
  with equiv Some assms(3) show ?thesis
    by (auto simp: planned_def outcome_def deleteOperation_def) (simp_all add: updateOperation_def)
qed



text \<open>
  Updates that never end. When the ingress in a selected cluster has an annotation that the
  federated ingress lacks, the update that \<open>reconcileIngress\<close> plans merges the annotations and keeps
  the extra one, so the updated ingress is again not equivalent to the federated one and the same
  update is planned again on every later call.
\<close>

theorem extra_annotation_updates_forever:
  assumes "sendTo base c = Inr True" and "k \<in> fst ` set (omAnnotations (inMeta ci))"
    and "k \<notin> fst ` set (omAnnotations (inMeta base))" and "keys_distinct (omAnnotations (inMeta base))"
  shows "\<exists>op. planned key base c (Some ci) = Some op \<and> foType op = OperationTypeUpdate \<and>
    k \<in> fst ` set (omAnnotations (inMeta (foObj op))) \<and>
    (\<exists>op'. planned key base c (Some (foObj op)) = Some op' \<and> foType op' = OperationTypeUpdate)"
proof -
  have differs: "\<not> ObjectMetaAndSpecEquivalent base i" if "k \<in> fst ` set (omAnnotations (inMeta i))" for i
  proof -
    have "map_of (omAnnotations (inMeta base)) k = None" "map_of (omAnnotations (inMeta i)) k \<noteq> None"
      using assms(3) that by (simp_all add: map_of_eq_None_iff)
    then show ?thesis
      by (auto simp: ObjectMetaAndSpecEquivalent_def ObjectMetaEquivalent_iff user_meta_def)
  qed
  let ?op = "updateOperation key c base ci"
  have "map_of (omAnnotations (inMeta (foObj ?op))) k = map_of (omAnnotations (inMeta ci)) k"
    using assms(3,4) by (simp add: updateOperation_def map_of_map_merge map_add_def map_of_eq_None_iff [THEN iffD2])
  then have kept: "k \<in> fst ` set (omAnnotations (inMeta (foObj ?op)))"
    using assms(2) by (metis map_of_eq_None_iff)
  have "planned key base c (Some ci) = Some ?op"
    using differs [OF assms(2)] assms(1) by (simp add: planned_def)
  moreover have "planned key base c (Some (foObj ?op)) = Some (updateOperation key c base (foObj ?op))"
    using differs [OF kept] assms(1) by (simp add: planned_def)
  ultimately show ?thesis using kept by (simp add: updateOperation_def)
qed

section \<open>Errors\<close>

text \<open>Delivery after a failure waits for the delay and a backoff that is at least the initial one.\<close>

lemma deliverIngress_failed:
  "updateChannel (ingressDeliverer (deliverIngress env ingress d True ic)) = updateChannel (ingressDeliverer ic) @
     [\<lparr>dKey = nnString ingress, dValue = ingress, dTime = envNow env + (d + boGet (nnString ingress)
        (boNext (nnString ingress) (envNow env) (envNow env) (ingressBackoff ic)))\<rparr>]"
  by (simp add: deliverIngress_def DeliverAfter_def DeliverAt_def Let_def)

lemma deliverIngress_ok:
  "updateChannel (ingressDeliverer (deliverIngress env ingress d False ic)) = updateChannel (ingressDeliverer ic) @
     [\<lparr>dKey = nnString ingress, dValue = ingress, dTime = envNow env + d\<rparr>]"
  by (simp add: deliverIngress_def DeliverAfter_def DeliverAt_def Let_def)

definition redelivered :: "NamespacedName \<Rightarrow> 'c IngressController \<Rightarrow> 'c IngressController \<Rightarrow> bool" where
  "redelivered ingress ic ic' \<longleftrightarrow> (\<exists>t. updateChannel (ingressDeliverer ic') =
     updateChannel (ingressDeliverer ic) @ [\<lparr>dKey = nnString ingress, dValue = ingress, dTime = t\<rparr>])"

lemma redelivered_deliverIngress [simp]: "redelivered ingress ic (deliverIngress env ingress d b ic)"
  by (cases b) (simp_all add: redelivered_def deliverIngress_ok deliverIngress_failed)

lemma redelivered_updateAnnotation:
  assumes "nsName (inMeta base) = ingress"
  shows "redelivered ingress ic (fst (updateAnnotationOnIngress env base k v (ic, w)))"
proof -
  have "nsName (setAnnotation k v (inMeta base)) = ingress"
    using assms by (simp add: setAnnotation_def nsName_def)
  then show ?thesis by (simp add: updateAnnotationOnIngress_def Let_def split: prod.split sum.split)
qed

text \<open>The API server answers an update of an object with a name and a namespace by an object of the same name.\<close>

definition keeps_names :: "('c, 'w) kubeAPI \<Rightarrow> bool" where
  "keeps_names api \<longleftrightarrow> (\<forall>i w j w'. nnNamespace (nsName (inMeta i)) \<noteq> [] \<longrightarrow> nnName (nsName (inMeta i)) \<noteq> [] \<longrightarrow>
     apiUpdateIngress api i w = (Inr j, w') \<longrightarrow> nsName (inMeta j) = nsName (inMeta i))"

lemma reconcileClusters_return:
  assumes "reconcileClusters env ingress key base cs ops stat (ic, w) = Return (ic', w')"
    and "nsName (inMeta base) = ingress"
  shows "redelivered ingress ic ic' \<or> ic' = ic \<and> w' = w \<and> (\<exists>c \<in> set cs. isl (sendTo base c))"
  using assms(1)
proof (induction cs arbitrary: ops stat)
  case (Cons c cs)
  show ?case
  proof (cases "reconcileInCluster env ingress key base c ops stat (ic, w)")
    case (Continue ops' stat')
    then show ?thesis using Cons by auto
  next
    case (Return s)
    then have s: "s = (ic', w')" using Cons.prems by simp
    have "redelivered ingress ic (fst s) \<or> s = (ic, w) \<and> isl (sendTo base c)"
      using Return redelivered_updateAnnotation [OF assms(2)]
      by (auto simp: reconcileInCluster_def reconcileMissing_def reconcilePresent_def GetByKey_def Let_def
          split: sum.splits option.splits bool.splits if_splits prod.splits)
    then show ?thesis using s by auto
  qed
qed simp

text \<open>
  C36. No known ingress is forgotten. Every call of \<open>reconcileIngress\<close> for an ingress of the
  federation schedules the ingress again (with backoff after an error), unless its deletion has
  completed, everything is in order, or the cluster selector cannot be read.
\<close>

theorem reconcile_redelivers:
  assumes "map_of (ingressInformerStore ic) (nnString ingress) = Some base" and "nsName (inMeta base) = ingress"
    and "nnNamespace ingress \<noteq> [] \<and> nnName ingress \<noteq> []" and "keeps_names (envAPI env)"
    and "reconcileIngress env ingress (ic, w) = (ic', w')"
  shows "redelivered ingress ic ic' \<or> ic' = ic \<and>
    (omDeletionTimestamp (inMeta base) \<noteq> None \<and> fst (deleteIngress env base ic w) = None \<or>
     (\<exists>base2 w2. EnsureFinalizers (apiUpdateIngress (envAPI env)) base w = (Inr base2, w2) \<and>
        ((\<exists>c \<in> set (readyList (ingressFederatedInformer ic)). isl (sendTo base2 c)) \<or>
         (\<exists>stat. reconcileClusters env ingress (nnString ingress) base2
             (readyList (ingressFederatedInformer ic)) [] [] (ic, w2) = Continue [] stat \<and>
           annotation base2 globalLBStatusKey = Some (marshalLbStatus stat)))))"
proof (cases "\<not> isSynced ic \<or> omDeletionTimestamp (inMeta base) \<noteq> None")
  case True
  then show ?thesis using assms(1,5)
    by (auto simp: reconcileIngress_def Let_def split: prod.splits option.splits if_splits)
next
  case False
  obtain r w2 where fin: "EnsureFinalizers (apiUpdateIngress (envAPI env)) base w = (r, w2)" by fastforce
  show ?thesis
  proof (cases r)
    case (Inl err)
    then show ?thesis using False fin assms(1,5) by (auto simp: reconcileIngress_def Let_def)
  next
    case (Inr base2)
    have ns: "nsName (inMeta base2) = ingress"
      using EnsureFinalizers_result [OF fin [unfolded Inr]] assms(2-4) withFinalizers_meta(1) [of base]
      unfolding keeps_names_def by metis
    let ?cs = "readyList (ingressFederatedInformer ic)"
    have run: "(ic', w') = (case reconcileClusters env ingress (nnString ingress) base2 ?cs [] [] (ic, w2) of
        Return s \<Rightarrow> s | Continue ops stat \<Rightarrow> propagate env ingress base2 ops stat (ic, w2))"
      using False fin Inr assms(1,5) by (simp add: reconcileIngress_def GetReadyClusters_def Let_def)
    show ?thesis
    proof (cases "reconcileClusters env ingress (nnString ingress) base2 ?cs [] [] (ic, w2)")
      case (Return s)
      then have "reconcileClusters env ingress (nnString ingress) base2 ?cs [] [] (ic, w2) = Return (ic', w')"
        using run by simp
      from reconcileClusters_return [OF this ns] show ?thesis using fin Inr by fastforce
    next
      case (Continue ops stat)
      then have run2: "propagate env ingress base2 ops stat (ic, w2) = (ic', w')" using run by simp
      show ?thesis
      proof (cases "annotation base2 globalLBStatusKey = Some (marshalLbStatus stat) \<and> ops = []")
        case True
        then show ?thesis using run2 Continue fin Inr by (auto simp: propagate_def BuildGlobalLbStatusAnnotation_def Let_def)
      next
        case False
        then have "redelivered ingress ic ic'"
          using run2 redelivered_updateAnnotation [OF ns, of ic env globalLBStatusKey "marshalLbStatus stat" w2]
          by (auto simp: propagate_def BuildGlobalLbStatusAnnotation_def Let_def split: if_splits prod.splits option.splits)
        then show ?thesis by blast
      qed
    qed
  qed
qed

text \<open>
  A selector that cannot be read on some cluster reached by the loop ends the call without
  scheduling the ingress again.
\<close>

lemma unreadable_selector_dropped:
  assumes "isSynced ic" and "map_of (ingressInformerStore ic) (nnString ingress) = Some base"
    and "omDeletionTimestamp (inMeta base) = None" and "bothFinalizers \<subseteq> set (omFinalizers (inMeta base))"
    and "readyList (ingressFederatedInformer ic) = c # cs" and "isl (sendTo base c)"
  shows "reconcileIngress env ingress (ic, w) = (ic, w)"
proof -
  have "EnsureFinalizers (apiUpdateIngress (envAPI env)) base w = (Inr base, w)"
    unfolding EnsureFinalizers_spec using assms(4) by simp
  moreover obtain err where "sendTo base c = Inl err" using assms(6) by (auto simp: isl_def)
  moreover obtain found where "GetByKey (ingressFederatedInformer ic) (clName c) (nnString ingress) = Inr found"
    by (cases "map_of (targetInformers (ingressFederatedInformer ic)) (clName c)") (auto simp: GetByKey_def)
  ultimately show ?thesis using assms(1,2,3,5)
    by (simp add: reconcileIngress_def GetReadyClusters_def reconcileInCluster_def Let_def)
qed

end
