(* ===== verification/Ingress_Deletion.thy ===== *)
theory Ingress_Deletion
  imports Ingress_Reconcile
begin

text \<open>
  The life of an ingress at its ends: the finalizers are on the federated ingress before any
  member cluster is touched, and a deleted ingress leaves the federation only after it has left
  the member clusters. On the tracker-based API servers.
\<close>

section \<open>Requests to the federation leave the members alone\<close>

lemma onIngresses_frame:
  "onIngresses req w = (r, w') \<Longrightarrow> memberIngresses w' = memberIngresses w \<and> fwClusters w' = fwClusters w \<and>
     memberConfigMaps w' = memberConfigMaps w"
  by (auto simp: onIngresses_def fun_eq_iff memberIngresses_def memberConfigMaps_def split_beta Let_def)

lemma updateAnnotation_members:
  assumes "envAPI env = trackerAPI"
  shows "memberIngresses (snd (updateAnnotationOnIngress env base k v (ic, w))) = memberIngresses w"
proof -
  let ?i = "base\<lparr>inMeta := setAnnotation k v (inMeta base)\<rparr>"
  obtain r w' where req: "onIngresses (reactUpdate ingressKind ?i) w = (r, w')" by fastforce
  then have "snd (updateAnnotationOnIngress env base k v (ic, w)) = w'"
    using assms by (cases r) (simp_all add: updateAnnotationOnIngress_def trackerAPI_def Let_def)
  then show ?thesis using onIngresses_frame [OF req] by simp
qed

lemma reconcileClusters_members:
  assumes "envAPI env = trackerAPI"
    and "reconcileClusters env ingress key base cs ops stat (ic, w) = Return (ic', w')"
  shows "memberIngresses w' = memberIngresses w"
  using assms(2)
proof (induction cs arbitrary: ops stat)
  case (Cons c cs)
  show ?case
  proof (cases "reconcileInCluster env ingress key base c ops stat (ic, w)")
    case (Continue ops' stat')
    then show ?thesis using Cons by simp
  next
    case (Return s)
    have status: "memberIngresses w1 = memberIngresses w"
      if "apiUpdateIngressStatus trackerAPI i w = (r, w1)" for i r w1
      using that by (auto simp: trackerAPI_def dest: onIngresses_frame)
    have "memberIngresses (snd s) = memberIngresses w"
      using Return updateAnnotation_members [OF assms(1)]
      by (auto simp: reconcileInCluster_def reconcileMissing_def reconcilePresent_def assms(1) status Let_def
          split: sum.splits option.splits bool.splits if_splits prod.splits)
    then show ?thesis using Return Cons.prems by simp
  qed
qed simp


section \<open>Deletion\<close>

text \<open>The updaters leave the federation's own objects alone.\<close>

lemma runOperations_federation:
  "runOperations (federatedIngressUpdater trackerAPI) getClient ops w = (errs, w') \<Longrightarrow> fwIngresses w' = fwIngresses w"
proof (induction ops arbitrary: w errs)
  case (Cons op ops)
  obtain err w1 where run: "runOperation (federatedIngressUpdater trackerAPI) getClient op w = (err, w1)" by fastforce
  have frame: "fwIngresses w2 = fwIngresses w" if "onMember req c w = (x, w2)" for req c x w2
    using that by (auto simp: onMember_def split_beta Let_def)
  have "fwIngresses w1 = fwIngresses w"
    using run by (auto simp: runOperation_def federatedIngressUpdater_def trackerAPI_def errOf_def
        split: sum.splits FederatedOperationType.splits prod.splits option.splits dest: frame)
      (metis frame prod.collapse)+
  moreover obtain errs1 where "runOperations (federatedIngressUpdater trackerAPI) getClient ops w1 = (errs1, w')"
    using Cons.prems run by (cases "runOperations (federatedIngressUpdater trackerAPI) getClient ops w1") simp
  ultimately show ?case using Cons.IH by metis
qed simp

text \<open>
  A cascading deletion is safe: \<open>delete\<close> reports success only when no store of a member cluster
  shows the ingress and every cluster of the federation is ready.
\<close>

theorem delete_waits_for_members:
  assumes "FinalizerDeleteFromUnderlyingClusters \<in> set (omFinalizers (inMeta base))"
    and "FinalizerOrphanDependents \<notin> set (omFinalizers (inMeta base))"
    and "schedule (envFinished env) (card (holders (ingressFederatedInformer ic) (MetaNamespaceKey (inMeta base))))"
    and "deleteIngress env base ic w = (None, w')"
  shows "holders (ingressFederatedInformer ic) (MetaNamespaceKey (inMeta base)) = {} \<and>
    (\<forall>c \<in> snd ` set (clusterStore (ingressFederatedInformer ic)). isClusterReady c)"
proof -
  let ?f = "ingressFederatedInformer ic" and ?key = "MetaNamespaceKey (inMeta base)"
  let ?handle = "HandleObjectInUnderlyingClusters (apiUpdateIngress (envAPI env)) ?f
    (federatedIngressUpdater (envAPI env)) (envFinished env) base w"
  have ok: "\<not> isl (fst ?handle)"
    using assms(4) by (cases ?handle) (auto simp: deleteIngress_def split: sum.splits)
  obtain objs where objs: "GetFromAllClusters ?f ?key = Inr objs" using GetFromAllClusters_eq by blast
  have none: "holders ?f ?key = {}"
    using cascade_waits [OF assms(1,2) objs] ok by (metis fst_conv sum.disc(1))
  obtain unready where unready: "GetUnreadyClusters ?f = Inr unready" by (simp add: GetUnreadyClusters_def)
  have "schedule (envFinished env) 0" using assms(3) none by simp
  then have "unready = []"
    using cascade_unready [OF assms(1,2) none unready] ok by (metis fst_conv sum.disc(1))
  then show ?thesis using none unready by (auto simp: GetUnreadyClusters_def filter_empty_conv)
qed

text \<open>The stores of the informer show the ingress as the member clusters have it.\<close>

definition shows_members :: "(string, Ingress) federatedInformer \<Rightarrow> Ingress \<Rightarrow> fed_world \<Rightarrow> bool" where
  "shows_members f obj w \<longleftrightarrow> (\<forall>(name, i) \<in> set (targetInformers f).
     GetClientsetForCluster f name = Inr name \<and>
     map_of (infStore i) (MetaNamespaceKey (inMeta obj)) = memberIngresses w name (objKey ingressKind obj))"

lemma shows_members_eq: "shows_members f obj w = ingress_servers.mirrors f (\<lambda>name. name) obj w"
  by (simp add: shows_members_def ingress_servers.mirrors_def)

lemma fuUpdate_federation:
  "fwIngresses (snd (fuUpdate (federatedIngressUpdater trackerAPI) getClient finished ops w)) = fwIngresses w"
  using runOperations_federation [of getClient "map ((!) ops) finished" w]
  by (cases "runOperations (federatedIngressUpdater trackerAPI) getClient (map ((!) ops) finished) w")
    (simp add: fuUpdate_def)

lemma delete_first_phase:
  assumes "envAPI env = trackerAPI" and "fw_wf w" and "shows_members (ingressFederatedInformer ic) base w"
    and "keys_distinct (targetInformers (ingressFederatedInformer ic))"
    and fin: "FinalizerDeleteFromUnderlyingClusters \<in> set (omFinalizers (inMeta base))"
      "FinalizerOrphanDependents \<notin> set (omFinalizers (inMeta base))"
    and "holders (ingressFederatedInformer ic) (MetaNamespaceKey (inMeta base)) \<noteq> {}"
    and "set (envFinished env) = {..<card (holders (ingressFederatedInformer ic) (MetaNamespaceKey (inMeta base)))}"
    and "distinct (envFinished env)" and "deleteIngress env base ic w = (err, w1)"
  shows "err \<noteq> None \<and> fw_wf w1 \<and> fwIngresses w1 = fwIngresses w \<and>
    (\<forall>name \<in> fst ` set (targetInformers (ingressFederatedInformer ic)).
       memberIngresses w1 name = (memberIngresses w name)(objKey ingressKind base := None)) \<and>
    (\<forall>name. name \<notin> fst ` set (targetInformers (ingressFederatedInformer ic)) \<longrightarrow>
       memberIngresses w1 name = memberIngresses w name)"
proof -
  let ?f = "ingressFederatedInformer ic"
  obtain r w2 where handle: "HandleObjectInUnderlyingClusters (apiUpdateIngress (envAPI env)) ?f
    (federatedIngressUpdater trackerAPI) (envFinished env) base w = (r, w2)" by fastforce
  note law = ingress_servers.cascade_deletes [OF assms(2) assms(3) [unfolded shows_members_eq] assms(4) _ fin assms(7,8,9) handle]
  obtain e where r: "r = Inl e" using law by (auto simp: isl_def)
  then have w1: "w1 = w2" "err \<noteq> None" using handle assms(1,10) by (auto simp: deleteIngress_def)
  obtain objs where objs: "GetFromAllClusters ?f (MetaNamespaceKey (inMeta base)) = Inr objs"
    using GetFromAllClusters_eq by blast
  have "fwIngresses w2 = fwIngresses w"
    using fuUpdate_federation cascade_waits [OF fin objs assms(7), of "apiUpdateIngress (envAPI env)" "federatedIngressUpdater trackerAPI"
      "envFinished env" w] handle by auto
  then show ?thesis using w1 law by simp
qed

lemma delete_second_phase:
  assumes "envAPI env = trackerAPI" and "fw_wf w"
    and fin: "FinalizerDeleteFromUnderlyingClusters \<in> set (omFinalizers (inMeta base))"
      "FinalizerOrphanDependents \<notin> set (omFinalizers (inMeta base))"
    and "holders (ingressFederatedInformer ic) (MetaNamespaceKey (inMeta base)) = {}"
    and "\<forall>c \<in> snd ` set (clusterStore (ingressFederatedInformer ic)). isClusterReady c"
    and "envFinished env = []" and "trackerMap ingressKind (fwIngresses w) (objKey ingressKind base) \<noteq> None"
    and "deleteIngress env base ic w = (err, w2)"
  shows "err = None \<and> memberIngresses w2 = memberIngresses w \<and>
    trackerMap ingressKind (fwIngresses w2) = (trackerMap ingressKind (fwIngresses w))(objKey ingressKind base := None)"
proof -
  let ?f = "ingressFederatedInformer ic" and ?k = "objKey ingressKind base"
  define base' where "base' = base\<lparr>inMeta := snd (RemoveFinalizers (inMeta base) {FinalizerDeleteFromUnderlyingClusters})\<rparr>"
  have key: "objKey ingressKind base' = ?k"
    by (simp add: base'_def objKey_def ingressKind_def RemoveFinalizers_def Let_def)
  have "GetUnreadyClusters ?f = Inr []" using assms(6) by (auto simp: GetUnreadyClusters_def filter_empty_conv)
  then have handle: "HandleObjectInUnderlyingClusters (apiUpdateIngress trackerAPI) ?f (federatedIngressUpdater trackerAPI)
      [] base w = dhRemoveFinalizers (apiUpdateIngress trackerAPI) base {FinalizerDeleteFromUnderlyingClusters} w"
    using cascade_unready [OF fin assms(5), of "[]" "[]"] by (simp add: schedule_def)
  obtain r objs where react: "reactUpdate ingressKind base' (fwIngresses w) = (r, objs)" by fastforce
  have wf: "trackerWf ingressKind (fwIngresses w)" using assms(2) by (simp add: fw_wf_def)
  have upd: "r = Inr base'" "trackerWf ingressKind objs"
      "trackerMap ingressKind objs = (trackerMap ingressKind (fwIngresses w))(?k \<mapsto> base')"
    using reactUpdate_spec [OF kinds_ok(1) wf react] assms(8) key by (auto split: if_splits)
  have "fst (RemoveFinalizers (inMeta base) {FinalizerDeleteFromUnderlyingClusters})"
    using fin by (simp add: RemoveFinalizers_set)
  then have removed: "dhRemoveFinalizers (apiUpdateIngress trackerAPI) base {FinalizerDeleteFromUnderlyingClusters} w =
      (Inr base', w\<lparr>fwIngresses := objs\<rparr>)"
    using react upd(1) by (simp add: dhRemoveFinalizers_def base'_def trackerAPI_def onIngresses_def split_beta Let_def)
  obtain e objs' where del: "trackerDelete ingressKind (omNamespace (inMeta base)) (omName (inMeta base)) objs = (e, objs')"
    by fastforce
  have gone: "trackerMap ingressKind objs' = (trackerMap ingressKind objs)(?k := None)"
      "e = None \<or> (\<exists>n. e = Some (NotFound n))"
    using trackerDelete_cases [OF kinds_ok(1) upd(2) del] by (simp_all add: objKey_def ingressKind_def)
  have "apiDeleteIngress trackerAPI (omNamespace (inMeta base)) (omName (inMeta base)) (w\<lparr>fwIngresses := objs\<rparr>) =
      (e, w\<lparr>fwIngresses := objs'\<rparr>)"
    using del by (simp add: trackerAPI_def onIngresses_def)
  then have "err = None" "w2 = w\<lparr>fwIngresses := objs'\<rparr>"
    using assms(1,7,9) handle removed gone(2) by (auto simp: deleteIngress_def)
  moreover have "memberIngresses (w\<lparr>fwIngresses := objs'\<rparr>) = memberIngresses w"
    by (simp add: fun_eq_iff memberIngresses_def)
  ultimately show ?thesis using gone(1) upd(3) by simp
qed


end
