(* ===== verification/Ingress_UID.thy ===== *)
theory Ingress_UID
  imports Ingress_Controller
begin

text \<open>
  The ingress UID: \<open>reconcileConfigMap\<close> makes the config map of the ingress controller in a member
  cluster carry the UID that the cluster is annotated with, and annotates a cluster that has no
  UID with the UID of the master, or elects it as the master. What holds when the stores are up to
  date, and what can go wrong when they are not.
\<close>

section \<open>The UID a cluster gets\<close>

definition clusterUID :: "Cluster \<Rightarrow> string" where
  "clusterUID c = (case map_of (omAnnotations (clMeta c)) uidAnnotationKey of Some u \<Rightarrow> u | None \<Rightarrow> [])"

definition masterUID :: "'c IngressController \<Rightarrow> string" where
  "masterUID ic = (case getMasterCluster ic of Inr (c, u) \<Rightarrow> u | Inl err \<Rightarrow> [])"

text \<open>The cluster's own UID, else the master's, else the one its config map came with.\<close>

definition targetUID :: "'c IngressController \<Rightarrow> Cluster \<Rightarrow> ConfigMap \<Rightarrow> string" where
  "targetUID ic cluster configMap =
     (if clusterUID cluster \<noteq> [] then clusterUID cluster
      else if masterUID ic \<noteq> [] then masterUID ic
      else lookupData configMap uidKey)"

lemma findMaster_Inr:
  "findMaster cs = Inr (c, u) \<Longrightarrow> c \<in> set cs \<and> u = clusterUID c \<and> u \<noteq> []"
  by (induction cs) (auto simp: clusterUID_def split: option.splits if_splits)

lemma findMaster_Inl: "findMaster cs = Inl err \<longleftrightarrow>
    (\<forall>c \<in> set cs. clusterUID c = []) \<and> err = noMaster"
  by (induction cs) (auto simp: clusterUID_def split: option.splits)

lemma getMasterCluster_eq: "getMasterCluster ic = findMaster (readyList (configMapFederatedInformer ic))"
  by (simp add: getMasterCluster_def GetReadyClusters_def)

lemma masterUID_Nil: "masterUID ic = [] \<longleftrightarrow> (\<forall>c \<in> set (readyList (configMapFederatedInformer ic)). clusterUID c = [])"
proof (cases "findMaster (readyList (configMapFederatedInformer ic))")
  case (Inl err)
  then have "masterUID ic = []" by (simp add: masterUID_def getMasterCluster_eq)
  then show ?thesis using findMaster_Inl [THEN iffD1, OF Inl] by simp
next
  case (Inr p)
  then obtain c u where "findMaster (readyList (configMapFederatedInformer ic)) = Inr (c, u)" by (cases p) simp
  then show ?thesis using findMaster_Inr by (force simp: masterUID_def getMasterCluster_eq)
qed

section \<open>One step\<close>

definition annotated :: "Cluster \<Rightarrow> string \<Rightarrow> Cluster" where
  "annotated cluster uid = cluster\<lparr>clMeta := setAnnotation uidAnnotationKey uid (clMeta cluster)\<rparr>"

lemma clusterUID_annotated [simp]: "clusterUID (annotated cluster uid) = uid"
  by (simp add: clusterUID_def annotated_def setAnnotation_def)

text \<open>
  How the UID is determined: no request for an annotated cluster; otherwise the cluster is updated
  with the master's UID or the fallback.
\<close>

lemma updateUID_cases:
  assumes "clusterUID cluster = []" and "cluster \<in> set (readyList (configMapFederatedInformer ic))"
    and "inf_wf (configMapFederatedInformer ic)"
  shows "updateClusterIngressUIDToMasters env cluster fallback ic w =
    (if masterUID ic \<noteq> [] then annotateCluster env cluster (masterUID ic) w
     else if fallback \<noteq> [] then annotateCluster env cluster fallback w
     else (Inl noMaster, w))"
proof (cases "findMaster (readyList (configMapFederatedInformer ic))")
  case (Inl err)
  moreover from this have "err = noMaster" using findMaster_Inl [THEN iffD1, OF Inl] by simp
  ultimately show ?thesis by (simp add: updateClusterIngressUIDToMasters_def masterUID_def getMasterCluster_eq)
next
  case (Inr p)
  then obtain c u where m: "findMaster (readyList (configMapFederatedInformer ic)) = Inr (c, u)" by (cases p) simp
  then have c: "c \<in> set (readyList (configMapFederatedInformer ic))" "u = clusterUID c" "u \<noteq> []"
    using findMaster_Inr by blast+
  then have "c \<noteq> cluster" using assms(1) by auto
  then have "clName c \<noteq> clName cluster"
    using c(1) assms(2) readyList_names(1) [OF assms(3)] by (metis distinct_map inj_onD)
  then show ?thesis using m c(3) by (simp add: updateClusterIngressUIDToMasters_def masterUID_def getMasterCluster_eq)
qed

lemma targetSync_view [simp]:
  "clusterStore (targetSync n k v f) = clusterStore f"
  "GetClientsetForCluster (targetSync n k v f) = GetClientsetForCluster f"
proof -
  show store: "clusterStore (targetSync n k v f) = clusterStore f"
    by (simp add: targetSync_def split: option.splits)
  have client: "clientFactory (targetSync n k v f) = clientFactory f"
    by (simp add: targetSync_def split: option.splits)
  show "GetClientsetForCluster (targetSync n k v f) = GetClientsetForCluster f"
    unfolding GetClientsetForCluster_def GetReadyCluster_def store client ..
qed

definition withUIDs :: "ConfigMap \<Rightarrow> string \<Rightarrow> string \<Rightarrow> ConfigMap" where
  "withUIDs cm uid providerUid =
     cm\<lparr>cmData := Some (map_put providerUidKey providerUid (map_put uidKey uid (the (cmData cm))))\<rparr>"

lemma withUIDs_lookup [simp]:
  "lookupData (withUIDs cm u p) uidKey = u" "lookupData (withUIDs cm u p) providerUidKey = p"
  "cmMeta (withUIDs cm u p) = cmMeta cm" "cmData (withUIDs cm u p) \<noteq> None"
  by (simp_all add: withUIDs_def lookupData_def uidKey_def providerUidKey_def)

definition upToDate :: "Cluster \<Rightarrow> ConfigMap \<Rightarrow> string \<Rightarrow> bool" where
  "upToDate cluster cm uid \<longleftrightarrow>
     lookupData cm uidKey = uid \<and> lookupData cm providerUidKey = getProviderUid (clName cluster)"

lemma updateConfigMap_eq:
  "updateConfigMap env cluster cm uid (ic, w) =
     (if upToDate cluster cm uid then (None, ic, w)
      else if cmData cm = None then (Some NilMapWrite, ic, w)
      else
       let cm' = withUIDs cm uid (getProviderUid (clName cluster));
           key = nnString (nsName (cmMeta cm));
           ic' = ic\<lparr>configMapFederatedInformer :=
             targetSync (clName cluster) key (Some cm') (configMapFederatedInformer ic)\<rparr>;
           (err, w') = fuUpdate (federatedConfigMapUpdater (envAPI env))
             (GetClientsetForCluster (configMapFederatedInformer ic)) (envFinished env)
             [\<lparr>foType = OperationTypeUpdate, foClusterName = clName cluster, foObj = cm', foKey = key\<rparr>] w
       in (None, if err = None then ic' else retryConfigMap env (clName cluster) (configMapReviewDelay ic) ic', w'))"
  by (cases "cmData cm")
    (auto simp: updateConfigMap_def upToDate_def withUIDs_def Let_def split: option.splits prod.splits)

lemma reconcileConfigMap_eq:
  "reconcileConfigMap env cluster cm (ic, w) =
     (if clusterUID cluster \<noteq> [] then updateConfigMap env cluster cm (clusterUID cluster) (ic, w)
      else case updateClusterIngressUIDToMasters env cluster (lookupData cm uidKey) ic w of
        (Inl err, w') \<Rightarrow> (None, ic, w')
      | (Inr uid, w') \<Rightarrow> updateConfigMap env cluster cm uid (ic, w'))"
proof (cases "map_of (omAnnotations (clMeta cluster)) uidAnnotationKey")
  case None
  then show ?thesis by (simp add: reconcileConfigMap_def clusterUID_def Let_def)
next
  case (Some uid)
  then show ?thesis by (cases "uid = []") (simp_all add: reconcileConfigMap_def clusterUID_def Let_def)
qed

section \<open>On API servers that keep objects by name\<close>

abbreviation fedClusters :: "fed_world \<Rightarrow> string \<times> string \<rightharpoonup> Cluster" where
  "fedClusters w \<equiv> trackerMap clusterKind (fwClusters w)"

lemma annotateCluster_tracker:
  assumes "envAPI env = trackerAPI" and "fw_wf w" and "fedClusters w (objKey clusterKind cluster) \<noteq> None"
  shows "\<exists>w'. annotateCluster env cluster uid w = (Inr uid, w') \<and> fw_wf w' \<and>
    memberConfigMaps w' = memberConfigMaps w \<and>
    fedClusters w' = (fedClusters w)(objKey clusterKind cluster \<mapsto> annotated cluster uid)"
proof -
  obtain r cls where react: "reactUpdate clusterKind (annotated cluster uid) (fwClusters w) = (r, cls)" by fastforce
  have wf: "trackerWf clusterKind (fwClusters w)" using assms(2) by (simp add: fw_wf_def)
  have key: "objKey clusterKind (annotated cluster uid) = objKey clusterKind cluster"
    by (simp add: objKey_def clusterKind_def annotated_def setAnnotation_def)
  have upd: "trackerWf clusterKind cls" "r = Inr (annotated cluster uid)"
      "trackerMap clusterKind cls = (fedClusters w)(objKey clusterKind cluster \<mapsto> annotated cluster uid)"
    using reactUpdate_spec [OF kinds_ok(3) wf react] assms(3) key by (auto split: if_splits)
  have "annotateCluster env cluster uid w = (Inr uid, w\<lparr>fwClusters := cls\<rparr>)"
    using react upd(2) assms(1) by (simp add: annotateCluster_def trackerAPI_def onClusters_def annotated_def)
  moreover have "memberConfigMaps (w\<lparr>fwClusters := cls\<rparr>) = memberConfigMaps w"
    by (simp add: fun_eq_iff memberConfigMaps_def)
  ultimately show ?thesis using upd assms(2) fw_wf_upd(4) by simp
qed

lemma runOperations_clusters:
  assumes "runOperations (federatedConfigMapUpdater trackerAPI) getClient ops w = (errs, w')"
  shows "fwClusters w' = fwClusters w"
  using assms
proof (induction ops arbitrary: w errs)
  case (Cons op ops)
  obtain err w1 where run: "runOperation (federatedConfigMapUpdater trackerAPI) getClient op w = (err, w1)" by fastforce
  have frame: "fwClusters w2 = fwClusters w" if "onConfigMaps req c w = (x, w2)" for req c x w2
    using that by (auto simp: onConfigMaps_def split_beta Let_def)
  have "fwClusters w1 = fwClusters w"
    using run by (auto simp: runOperation_def federatedConfigMapUpdater_def trackerAPI_def errOf_def
        split: sum.splits FederatedOperationType.splits prod.splits option.splits dest: frame)
      (metis frame prod.collapse)+
  moreover obtain errs1 where "runOperations (federatedConfigMapUpdater trackerAPI) getClient ops w1 = (errs1, w')"
    using Cons.prems run by (cases "runOperations (federatedConfigMapUpdater trackerAPI) getClient ops w1") simp
  ultimately show ?case using Cons.IH by metis
qed simp

lemma fuUpdate_clusters:
  "fuUpdate (federatedConfigMapUpdater trackerAPI) getClient finished ops w = (err, w') \<Longrightarrow> fwClusters w' = fwClusters w"
  by (cases "runOperations (federatedConfigMapUpdater trackerAPI) getClient (map ((!) ops) finished) w")
    (auto simp: fuUpdate_def dest: runOperations_clusters)

text \<open>
  What the config map reconciliation of one cluster needs: the cluster is ready and registered,
  has a client, and its config map is as the store shows it, with some data.
\<close>

definition uid_ready ::
  "(string, fed_world) icEnv \<Rightarrow> string IngressController \<Rightarrow> Cluster \<Rightarrow> ConfigMap \<Rightarrow> fed_world \<Rightarrow> bool" where
  "uid_ready env ic cluster cm w \<longleftrightarrow>
     envAPI env = trackerAPI \<and> envFinished env = [0] \<and> fw_wf w \<and> inf_wf (configMapFederatedInformer ic) \<and>
     cluster \<in> set (readyList (configMapFederatedInformer ic)) \<and>
     GetClientsetForCluster (configMapFederatedInformer ic) (clName cluster) = Inr (clName cluster) \<and>
     fedClusters w (objKey clusterKind cluster) \<noteq> None \<and>
     memberConfigMaps w (clName cluster) (objKey configMapKind cm) = Some cm \<and> cmData cm \<noteq> None"

lemma updateConfigMap_tracker:
  assumes "uid_ready env ic cluster cm w" and "updateConfigMap env cluster cm uid (ic, w) = (p, ic', w')"
  shows "p = None \<and> fw_wf w' \<and> fedClusters w' = fedClusters w \<and>
    (\<exists>cm'. memberConfigMaps w' = (memberConfigMaps w)(clName cluster :=
        (memberConfigMaps w (clName cluster))(objKey configMapKind cm \<mapsto> cm')) \<and>
      cmMeta cm' = cmMeta cm \<and> upToDate cluster cm' uid) \<and>
    clusterStore (configMapFederatedInformer ic') = clusterStore (configMapFederatedInformer ic)"
proof (cases "upToDate cluster cm uid")
  case True
  then have "(p, ic', w') = (None, ic, w)" using assms(2) by (simp add: updateConfigMap_eq)
  moreover have "memberConfigMaps w = (memberConfigMaps w)(clName cluster :=
        (memberConfigMaps w (clName cluster))(objKey configMapKind cm \<mapsto> cm))"
    using assms(1) by (simp add: uid_ready_def fun_upd_idem)
  ultimately show ?thesis using True assms(1) by (auto simp: uid_ready_def)
next
  case False
  let ?cm = "withUIDs cm uid (getProviderUid (clName cluster))"
  let ?op = "\<lparr>foType = OperationTypeUpdate, foClusterName = clName cluster, foObj = ?cm,
    foKey = nnString (nsName (cmMeta cm))\<rparr>"
  note rd = assms(1) [unfolded uid_ready_def]
  obtain err w1 where upd: "fuUpdate (federatedConfigMapUpdater trackerAPI)
      (GetClientsetForCluster (configMapFederatedInformer ic)) [0] [?op] w = (err, w1)" by fastforce
  have key: "objKey configMapKind ?cm = objKey configMapKind cm" by (simp add: objKey_def configMapKind_def)
  have law: "fw_wf w1" "memberConfigMaps w1 (clName cluster) =
        (memberConfigMaps w (clName cluster))(objKey configMapKind cm \<mapsto> ?cm)"
      "\<forall>c. c \<noteq> clName cluster \<longrightarrow> memberConfigMaps w1 c = memberConfigMaps w c" "err = None"
    using config_servers.fuUpdate_law [of w "[?op]" "GetClientsetForCluster (configMapFederatedInformer ic)" foClusterName "[0]" err w1]
      upd rd key
    by (auto simp: schedule_def config_servers.op_effect_def config_servers.op_ok_def config_servers.op_valid_def)
  have "memberConfigMaps w1 = (memberConfigMaps w)(clName cluster :=
        (memberConfigMaps w (clName cluster))(objKey configMapKind cm \<mapsto> ?cm))"
    using law(2,3) by (simp add: fun_eq_iff)
  moreover have "fwClusters w1 = fwClusters w"
    using upd by (rule fuUpdate_clusters)
  moreover have "p = None" "w' = w1" "clusterStore (configMapFederatedInformer ic') = clusterStore (configMapFederatedInformer ic)"
    using assms(2) False rd upd law(4) by (auto simp: updateConfigMap_eq Let_def)
  ultimately show ?thesis using law(1) by (auto simp: upToDate_def intro!: exI [of _ ?cm])
qed

lemma uid_ready_frame:
  assumes "uid_ready env ic cluster cm w" and "fw_wf w'" and "memberConfigMaps w' = memberConfigMaps w"
    and "fedClusters w' (objKey clusterKind cluster) \<noteq> None"
  shows "uid_ready env ic cluster cm w'"
  using assms by (simp add: uid_ready_def)

lemma reconcileConfigMap_tracker:
  assumes "uid_ready env ic cluster cm w" and "targetUID ic cluster cm \<noteq> []"
    and "reconcileConfigMap env cluster cm (ic, w) = (p, ic', w')"
  shows "p = None \<and> fw_wf w' \<and>
    fedClusters w' = (if clusterUID cluster \<noteq> [] then fedClusters w
      else (fedClusters w)(objKey clusterKind cluster \<mapsto> annotated cluster (targetUID ic cluster cm))) \<and>
    (\<exists>cm'. memberConfigMaps w' = (memberConfigMaps w)(clName cluster :=
        (memberConfigMaps w (clName cluster))(objKey configMapKind cm \<mapsto> cm')) \<and>
      cmMeta cm' = cmMeta cm \<and> lookupData cm' uidKey = targetUID ic cluster cm \<and>
      lookupData cm' providerUidKey = getProviderUid (clName cluster)) \<and>
    clusterStore (configMapFederatedInformer ic') = clusterStore (configMapFederatedInformer ic)"
proof (cases "clusterUID cluster = []")
  case False
  then have "updateConfigMap env cluster cm (clusterUID cluster) (ic, w) = (p, ic', w')" "targetUID ic cluster cm = clusterUID cluster"
    using assms(3) by (simp_all add: reconcileConfigMap_eq targetUID_def)
  then show ?thesis using updateConfigMap_tracker [OF assms(1)] False by (auto simp: upToDate_def)
next
  case True
  note rd = assms(1) [unfolded uid_ready_def]
  let ?u = "targetUID ic cluster cm"
  have u: "?u = (if masterUID ic \<noteq> [] then masterUID ic else lookupData cm uidKey)" using True by (simp add: targetUID_def)
  obtain w1 where w1: "annotateCluster env cluster ?u w = (Inr ?u, w1)" "fw_wf w1"
      "memberConfigMaps w1 = memberConfigMaps w"
      "fedClusters w1 = (fedClusters w)(objKey clusterKind cluster \<mapsto> annotated cluster ?u)"
    using annotateCluster_tracker [of env w cluster ?u] rd by blast
  have "updateClusterIngressUIDToMasters env cluster (lookupData cm uidKey) ic w = (Inr ?u, w1)"
    using updateUID_cases [OF True, of ic env "lookupData cm uidKey" w] rd w1(1) u assms(2) by (simp split: if_splits)
  then have "updateConfigMap env cluster cm ?u (ic, w1) = (p, ic', w')"
    using assms(3) True by (simp add: reconcileConfigMap_eq)
  moreover have "uid_ready env ic cluster cm w1" using uid_ready_frame [OF assms(1) w1(2,3)] w1(4) by simp
  ultimately show ?thesis using updateConfigMap_tracker w1(3,4) True by (fastforce simp: upToDate_def)
qed

section \<open>Properties\<close>



text \<open>
  C40. Split election. The lock of the controller does not make the election atomic: the update of the
  first cluster reaches the store of clusters only later. When two clusters without a UID, whose
  config maps have different UIDs, are reconciled one after the other while the store of clusters
  is the same, both become masters with different UIDs.
\<close>

theorem stale_election_splits:
  assumes "uid_ready env ic c1 cm1 w" and "masterUID ic = []" and "c1 \<noteq> c2"
    and "c2 \<in> set (readyList (configMapFederatedInformer ic))"
    and "lookupData cm1 uidKey \<noteq> []" and "lookupData cm2 uidKey \<noteq> []" and "lookupData cm1 uidKey \<noteq> lookupData cm2 uidKey"
    and first: "reconcileConfigMap env c1 cm1 (ic, w) = (p1, ic1, w1)"
    and "clusterStore (configMapFederatedInformer ic2) = clusterStore (configMapFederatedInformer ic)"
    and "uid_ready env2 ic2 c2 cm2 w1"
    and second: "reconcileConfigMap env2 c2 cm2 (ic2, w1) = (p2, ic3, w2)"
  shows "\<exists>a b. fedClusters w2 (objKey clusterKind c1) = Some a \<and> fedClusters w2 (objKey clusterKind c2) = Some b \<and>
    clusterUID a = lookupData cm1 uidKey \<and> clusterUID b = lookupData cm2 uidKey \<and> clusterUID a \<noteq> clusterUID b"
proof -
  have ready: "c1 \<in> set (readyList (configMapFederatedInformer ic))" "inf_wf (configMapFederatedInformer ic)"
    using assms(1) by (auto simp: uid_ready_def)
  have none: "clusterUID c1 = []" "clusterUID c2 = []" "masterUID ic2 = []"
    using assms(2,4) ready(1) masterUID_Nil [of ic] masterUID_Nil [of ic2] assms(9) by auto
  then have t: "targetUID ic c1 cm1 = lookupData cm1 uidKey" "targetUID ic2 c2 cm2 = lookupData cm2 uidKey"
    using assms(2) by (simp_all add: targetUID_def)
  have "clName c1 \<noteq> clName c2"
    using readyList_names(1) [OF ready(2)] ready(1) assms(3,4) by (metis distinct_map inj_onD)
  then have keys: "objKey clusterKind c1 \<noteq> objKey clusterKind c2" by (simp add: objKey_def clusterKind_def)
  have "fedClusters w1 = (fedClusters w)(objKey clusterKind c1 \<mapsto> annotated c1 (lookupData cm1 uidKey))"
    using reconcileConfigMap_tracker [OF assms(1) _ first] t(1) none(1) assms(5) by simp
  moreover have "fedClusters w2 = (fedClusters w1)(objKey clusterKind c2 \<mapsto> annotated c2 (lookupData cm2 uidKey))"
    using reconcileConfigMap_tracker [OF assms(10) _ second] t(2) none(2) assms(6) by simp
  ultimately show ?thesis using keys assms(7) by simp
qed

text \<open>
  A failed update is masked. \<open>reconcileConfigMap\<close> changes the config map in the store before it
  sends the update. When the update fails, a retry is scheduled, but as long as the store is not
  refreshed the retry finds the config map up to date and sends nothing.
\<close>

theorem failed_update_masked:
  assumes "clusterUID cluster \<noteq> []" and "cmData cm \<noteq> None"
    and "\<not> upToDate cluster cm (clusterUID cluster)"
    and "clName cluster \<in> fst ` set (targetInformers (configMapFederatedInformer ic))"
    and "\<And>op. \<exists>e w1. fuUpdate (federatedConfigMapUpdater (envAPI env))
      (GetClientsetForCluster (configMapFederatedInformer ic)) (envFinished env) [op] w = (Some e, w1)"
    and "reconcileConfigMap env cluster cm (ic, w) = (p, ic', w')"
  shows "\<exists>cm'. GetByKey (configMapFederatedInformer ic') (clName cluster) (nnString (nsName (cmMeta cm))) = Inr (Some cm') \<and>
    (\<exists>t. \<lparr>dKey = clName cluster, dValue = None, dTime = t\<rparr> \<in> set (updateChannel (configMapDeliverer ic'))) \<and>
    (\<forall>env' w2. reconcileConfigMap env' cluster cm' (ic', w2) = (None, ic', w2))"
proof -
  let ?cm = "withUIDs cm (clusterUID cluster) (getProviderUid (clName cluster))"
  let ?key = "nnString (nsName (cmMeta cm))"
  let ?ic = "ic\<lparr>configMapFederatedInformer := targetSync (clName cluster) ?key (Some ?cm) (configMapFederatedInformer ic)\<rparr>"
  obtain e w1 where "fuUpdate (federatedConfigMapUpdater (envAPI env)) (GetClientsetForCluster (configMapFederatedInformer ic))
      (envFinished env) [\<lparr>foType = OperationTypeUpdate, foClusterName = clName cluster, foObj = ?cm, foKey = ?key\<rparr>] w = (Some e, w1)"
    using assms(5) by blast
  then have ic': "ic' = retryConfigMap env (clName cluster) (configMapReviewDelay ic) ?ic"
    using assms(1,2,3,6) by (auto simp: reconcileConfigMap_eq updateConfigMap_eq Let_def)
  obtain i where "map_of (targetInformers (configMapFederatedInformer ic)) (clName cluster) = Some i"
    using assms(4) by (metis map_of_eq_None_iff not_None_eq)
  then have "GetByKey (configMapFederatedInformer ic') (clName cluster) ?key = Inr (Some ?cm)"
    unfolding ic' by (simp add: retryConfigMap_def GetByKey_def targetSync_def)
  moreover have "\<lparr>dKey = clName cluster, dValue = None, dTime = envNow env + configMapReviewDelay ic\<rparr>
      \<in> set (updateChannel (configMapDeliverer ic'))"
    unfolding ic' by (simp add: retryConfigMap_def DeliverAfter_def DeliverAt_def)
  moreover have "reconcileConfigMap env' cluster ?cm (ic', w2) = (None, ic', w2)" for env' w2
    using assms(1) by (simp add: reconcileConfigMap_eq updateConfigMap_eq upToDate_def)
  ultimately show ?thesis by blast
qed

text \<open>A config map without data makes the reconciliation of an annotated cluster panic.\<close>

lemma nil_data_panics:
  assumes "clusterUID cluster \<noteq> []" and "cmData cm = None"
  shows "fst (reconcileConfigMap env cluster cm (ic, w)) = Some NilMapWrite"
proof -
  have "lookupData cm uidKey = []" using assms(2) by (simp add: lookupData_def)
  then have "\<not> upToDate cluster cm (clusterUID cluster)" using assms(1) by (simp add: upToDate_def)
  then show ?thesis using assms by (simp add: reconcileConfigMap_eq updateConfigMap_eq)
qed


end
