(* ===== verification/Ingress_Examples.thy ===== *)
theory Ingress_Examples
  imports Ingress_Deletion Ingress_UID
begin

text \<open>
  A small federation on which the theorems about the ingress controller are applied: two ready
  clusters \<open>a\<close> and \<open>b\<close> and one ingress, \<open>web\<close> in namespace \<open>default\<close>.
\<close>

section \<open>The federation\<close>

definition exCluster :: "string \<Rightarrow> Cluster" where
  "exCluster name = exampleCluster name"

definition exName :: NamespacedName where
  "exName = \<lparr>nnNamespace = ''default'', nnName = ''web''\<rparr>"

definition exMeta :: ObjectMeta where
  "exMeta = zeroMeta\<lparr>omName := ''web'', omNamespace := ''default''\<rparr>"

definition exBase :: Ingress where
  "exBase = zeroIngress\<lparr>inMeta := exMeta\<lparr>
     omFinalizers := [FinalizerDeleteFromUnderlyingClusters, FinalizerOrphanDependents],
     omAnnotations := [(firstClusterAnnotation, ''a''), (globalLBStatusKey, marshalLbStatus [])]\<rparr>,
     inSpec := zeroSpec\<lparr>isTLS := [\<lparr>tlsHosts = [''h''], tlsSecretName = ''s''\<rparr>]\<rparr>\<rparr>"

definition exOld :: Ingress where
  "exOld = zeroIngress\<lparr>inMeta := exMeta\<rparr>"

definition exInformer :: "(string \<Rightarrow> (string \<times> 'o) list) \<Rightarrow> (string, 'o) federatedInformer" where
  "exInformer store =
     \<lparr>clusterStore = [(''a'', exCluster ''a''), (''b'', exCluster ''b'')], clusterHasSynced = True,
      targetInformerFactory = (\<lambda>c client. \<lparr>infStore = [], infHasSynced = False\<rparr>),
      targetInformers = [(''a'', \<lparr>infStore = store ''a'', infHasSynced = True\<rparr>),
        (''b'', \<lparr>infStore = store ''b'', infHasSynced = True\<rparr>)],
      clientFactory = (\<lambda>c. Inr (clName c))\<rparr>"

definition exController ::
  "(string \<times> Ingress) list \<Rightarrow> (string \<Rightarrow> (string \<times> Ingress) list) \<Rightarrow> string IngressController" where
  "exController base store =
     (NewIngressController (\<lambda>c client. \<lparr>infStore = [], infHasSynced = False\<rparr>)
        (\<lambda>c client. \<lparr>infStore = [], infHasSynced = False\<rparr>) (\<lambda>c. Inr (clName c)))
     \<lparr>ingressFederatedInformer := exInformer store, configMapFederatedInformer := exInformer (\<lambda>c. []),
      ingressInformerStore := base\<rparr>"

definition exEnv :: "nat list \<Rightarrow> (string, fed_world) icEnv" where
  "exEnv finished =
     \<lparr>envNow = 0, envAPI = trackerAPI, envFinished = finished\<rparr>"

definition exWorld :: "Ingress list \<Rightarrow> (string \<Rightarrow> Ingress list) \<Rightarrow> fed_world" where
  "exWorld fed members =
     \<lparr>fwIngresses = fed, fwClusters = [exCluster ''a'', exCluster ''b''], fwMemberIngresses = members,
      fwMemberConfigMaps = (\<lambda>c. [])\<rparr>"

text \<open>Cluster \<open>b\<close> has an outdated copy, cluster \<open>a\<close> none.\<close>

definition exStore :: "string \<Rightarrow> (string \<times> Ingress) list" where
  "exStore c = (if c = ''b'' then [(''default/web'', exOld)] else [])"

definition exMembers :: "string \<Rightarrow> Ingress list" where
  "exMembers c = (if c = ''b'' then [exOld] else [])"

definition exFound :: "string \<Rightarrow> Ingress option" where
  "exFound c = (if c = ''b'' then Some exOld else None)"

lemma exInformer_wf: "inf_wf (exInformer store)"
  by (simp add: inf_wf_def exInformer_def exCluster_def exampleCluster_def zeroMeta_def)

lemma exReady: "readyList (exInformer store) = [exCluster ''a'', exCluster ''b'']"
  by (simp add: exInformer_def exCluster_def exampleCluster_def isClusterReady_def)

lemma exWorld_wf: "(\<And>c. trackerWf ingressKind (members c)) \<Longrightarrow> trackerWf ingressKind fed \<Longrightarrow> fw_wf (exWorld fed members)"
  by (simp add: fw_wf_def exWorld_def trackerWf_def addressable_def objKey_def clusterKind_def exCluster_def exampleCluster_def
      zeroMeta_def)

lemma exObj_addressable [simp]: "addressable ingressKind (objKey ingressKind exBase)" "addressable ingressKind (objKey ingressKind exOld)"
  by (simp_all add: addressable_def objKey_def ingressKind_def exBase_def exOld_def exMeta_def)

lemma exTargetsSynced: "ClustersSynced (exInformer st) [exCluster ''a'', exCluster ''b'']"
  by (simp add: ClustersSynced_def exInformer_def exCluster_def exampleCluster_def zeroMeta_def)

lemma exGetReady: "GetReadyClusters (exInformer st) = Inr [exCluster ''a'', exCluster ''b'']"
  unfolding GetReadyClusters_def exReady ..

lemma exSynced: "isSynced (exController base store)"
proof -
  have "clusterHasSynced (exInformer st)" for st :: "string \<Rightarrow> (string \<times> ConfigMap) list" by (simp add: exInformer_def)
  moreover have "clusterHasSynced (exInformer st)" for st :: "string \<Rightarrow> (string \<times> Ingress) list" by (simp add: exInformer_def)
  ultimately show ?thesis by (simp add: isSynced_def exController_def exGetReady exTargetsSynced)
qed

lemma ex_ready_to_sync:
  "ready_to_sync exName exBase exFound (exController [(''default/web'', exBase)] exStore)"
proof -
  have 1: "map_of (ingressInformerStore (exController [(''default/web'', exBase)] exStore)) (nnString exName) = Some exBase"
    by (simp add: exController_def nnString_def exName_def)
  have 2: "omDeletionTimestamp (inMeta exBase) = None" "bothFinalizers \<subseteq> set (omFinalizers (inMeta exBase))"
    by (simp_all add: exBase_def exMeta_def zeroMeta_def zeroIngress_def)
  have 3: "annotation exBase globalLBStatusKey = Some (marshalLbStatus [])"
      "statuses exBase exFound [exCluster ''a'', exCluster ''b''] = []"
    by (simp add: exBase_def globalLBStatusKey_def firstClusterAnnotation_def) code_simp
  have 4: "GetByKey (exInformer exStore) (clName c) (nnString exName) = Inr (exFound (clName c))"
    if "c \<in> set [exCluster ''a'', exCluster ''b'']" for c
    using that by (auto simp: GetByKey_def exInformer_def exStore_def exFound_def nnString_def exName_def
        exCluster_def exampleCluster_def zeroMeta_def)
  have 5: "settled (exController [(''default/web'', exBase)] exStore) exBase c (exFound (clName c))"
    if "c \<in> set [exCluster ''a'', exCluster ''b'']" for c
    using that by (auto simp: settled_def exFound_def SendToCluster_def exBase_def exOld_def exMeta_def zeroMeta_def
        zeroIngress_def exCluster_def exampleCluster_def FederationClusterSelectorAnnotation_def haveFirst_def
        globalLBStatusKey_def firstClusterAnnotation_def icIsClusterReady_def GetReadyCluster_def exController_def
        exInformer_def isClusterReady_def staticIPNameKeyWritable_def staticIPNameKeyReadonly_def)
  show ?thesis
    unfolding ready_to_sync_def view_settled_def
    using exSynced 1 2 3 4 5 exInformer_wf [of exStore] exReady [of exStore]
    by (simp add: exController_def)
qed

section \<open>Propagation\<close>

definition exIC :: "string IngressController" where
  "exIC = exController [(''default/web'', exBase)] exStore"

definition exW :: fed_world where
  "exW = exWorld [exBase] exMembers"

lemma exIC_informer [simp]: "ingressFederatedInformer exIC = exInformer exStore"
  by (simp add: exIC_def exController_def)

lemma exW_wf: "fw_wf exW"
  unfolding exW_def by (rule exWorld_wf) (simp_all add: exMembers_def trackerWf_def)

lemma exClient: "c \<in> {''a'', ''b''} \<Longrightarrow> GetClientsetForCluster (exInformer st) c = Inr c"
  by (auto simp: GetClientsetForCluster_def GetReadyCluster_def exInformer_def exCluster_def exampleCluster_def
      isClusterReady_def zeroMeta_def)

lemma exBase_key: "objKey ingressKind exBase = (nnNamespace exName, nnName exName)"
  by (simp add: objKey_def ingressKind_def exBase_def exMeta_def exName_def)

lemma exName_named: "nnNamespace exName \<noteq> [] \<and> nnName exName \<noteq> []"
  by (simp add: exName_def)

lemma exName_cluster [simp]: "clName (exCluster n) = n"
  by (simp add: exCluster_def exampleCluster_def)

lemma ex_view: "faithful_view (exInformer exStore) exName exFound exW"
  unfolding faithful_view_def exReady
  by (auto simp: exClient exFound_def exW_def exWorld_def exMembers_def memberIngresses_def exName_def
      objKey_def ingressKind_def exOld_def exMeta_def)



definition exExtra :: Ingress where
  "exExtra = exBase\<lparr>inMeta := setAnnotation ''x'' ''y'' (inMeta exBase)\<rparr>"

lemma extra_annotation_updates_forever_witness:
  "\<exists>op. planned ''default/web'' exBase (exCluster ''a'') (Some exExtra) = Some op \<and>
     (\<exists>op'. planned ''default/web'' exBase (exCluster ''a'') (Some (foObj op)) = Some op' \<and>
       foType op' = OperationTypeUpdate)"
proof -
  have "sendTo exBase (exCluster ''a'') = Inr True" by code_simp
  moreover have "''x'' \<in> fst ` set (omAnnotations (inMeta exExtra))" by code_simp
  moreover have "''x'' \<notin> fst ` set (omAnnotations (inMeta exBase))" by code_simp
  moreover have "keys_distinct (omAnnotations (inMeta exBase))" by code_simp
  ultimately show ?thesis using extra_annotation_updates_forever by blast
qed

lemma trackerGet_names:
  assumes "trackerGet k ns name objs = Inr obj" and "ns \<noteq> []" and "name \<noteq> []"
  shows "sameObject k ns name obj"
proof -
  have "filterByNamespaceAndName k objs ns name = [obj]"
    using assms(1) by (simp add: trackerGet_def split: list.splits)
  then have "obj \<in> set (filterByNamespaceAndName k objs ns name)" by (simp only: list.set_intros)
  then show ?thesis using assms(2,3) by (simp add: filterByNamespaceAndName_def sameObject_def)
qed

lemma tracker_keeps_names: "keeps_names trackerAPI"
  unfolding keeps_names_def trackerAPI_def onIngresses_def reactUpdate_def
  by (auto simp: nsName_def Let_def split: prod.splits option.splits dest!: trackerGet_names)
    (simp_all add: sameObject_def ingressKind_def)

lemma reconcile_redelivers_witness:
  "redelivered exName (exIC\<lparr>ingressFederatedInformer := (exInformer exStore)\<lparr>clusterHasSynced := False\<rparr>\<rparr>)
     (fst (reconcileIngress (exEnv []) exName
        (exIC\<lparr>ingressFederatedInformer := (exInformer exStore)\<lparr>clusterHasSynced := False\<rparr>\<rparr>, exW)))"
proof -
  let ?ic = "exIC\<lparr>ingressFederatedInformer := (exInformer exStore)\<lparr>clusterHasSynced := False\<rparr>\<rparr>"
  obtain ic' w' where run: "reconcileIngress (exEnv []) exName (?ic, exW) = (ic', w')" by fastforce
  have "map_of (ingressInformerStore ?ic) (nnString exName) = Some exBase" "nsName (inMeta exBase) = exName"
    by (simp_all add: exIC_def exController_def nnString_def exName_def exBase_def exMeta_def nsName_def)
  moreover have "keeps_names (envAPI (exEnv []))" using tracker_keeps_names by (simp add: exEnv_def)
  ultimately have "redelivered exName ?ic ic' \<or> ic' = ?ic" using reconcile_redelivers [OF _ _ exName_named _ run] by blast
  moreover have "updateChannel (ingressDeliverer ic') \<noteq> []"
  proof -
    have "\<not> isSynced ?ic" by (simp add: isSynced_def exInformer_def)
    then show ?thesis using run by (auto simp: reconcileIngress_def deliverIngress_ok)
  qed
  moreover have "updateChannel (ingressDeliverer ?ic) = []"
    by (simp add: exIC_def exController_def NewIngressController_def NewDelayingDeliverer_def)
  ultimately show ?thesis using run by auto
qed

section \<open>Finalizers and deletion\<close>

definition exFresh :: Ingress where
  "exFresh = exBase\<lparr>inMeta := (inMeta exBase)\<lparr>omFinalizers := []\<rparr>\<rparr>"

lemma exFresh_addressable [simp]: "addressable ingressKind (objKey ingressKind exFresh)"
  by (simp add: addressable_def objKey_def ingressKind_def exFresh_def exBase_def exMeta_def)


definition exGone :: Ingress where
  "exGone = exBase\<lparr>inMeta := (inMeta exBase)\<lparr>omFinalizers := [FinalizerDeleteFromUnderlyingClusters],
     omDeletionTimestamp := Some ''now''\<rparr>\<rparr>"

lemma exGone_addressable [simp]: "addressable ingressKind (objKey ingressKind exGone)"
  by (simp add: addressable_def objKey_def ingressKind_def exGone_def exBase_def exMeta_def)

definition exGoneIC :: "(string \<Rightarrow> (string \<times> Ingress) list) \<Rightarrow> string IngressController" where
  "exGoneIC store = exController [(''default/web'', exGone)] store"

lemma exGone_finalizers:
  "FinalizerDeleteFromUnderlyingClusters \<in> set (omFinalizers (inMeta exGone))"
  "FinalizerOrphanDependents \<notin> set (omFinalizers (inMeta exGone))"
  by code_simp+

lemma exGoneIC_informer [simp]: "ingressFederatedInformer (exGoneIC st) = exInformer st"
  by (simp add: exGoneIC_def exController_def)

lemma delete_waits_for_members_witness:
  "holders (exInformer (\<lambda>c. [])) ''default/web'' = {} \<and>
   list_all isClusterReady (map snd (clusterStore (exInformer (\<lambda>c. [] :: (string \<times> Ingress) list))))"
proof -
  have key: "MetaNamespaceKey (inMeta exGone) = ''default/web''" by code_simp
  have none: "holders (exInformer (\<lambda>c. [])) ''default/web'' = {}" by (auto simp: holders_def exInformer_def)
  have "fst (deleteIngress (exEnv []) exGone (exGoneIC (\<lambda>c. [])) (exWorld [exGone] (\<lambda>c. []))) = None" by code_simp
  then obtain w' where run: "deleteIngress (exEnv []) exGone (exGoneIC (\<lambda>c. [])) (exWorld [exGone] (\<lambda>c. [])) = (None, w')"
    by (metis prod.collapse)
  show ?thesis
    using delete_waits_for_members [OF exGone_finalizers _ run] none
    unfolding exGoneIC_informer key list_all_iff set_map by (simp add: exEnv_def schedule_def)
qed


section \<open>The ingress UID\<close>

text \<open>Neither cluster is annotated, and their config maps have different UIDs.\<close>

definition exUIDMap :: "string \<Rightarrow> ConfigMap" where
  "exUIDMap uid = \<lparr>cmMeta = zeroMeta\<lparr>omName := uidConfigMapName, omNamespace := uidConfigMapNamespace\<rparr>,
     cmData = Some [(uidKey, uid)]\<rparr>"

definition exUIDIC :: "string IngressController" where
  "exUIDIC = (exController [] (\<lambda>c. []))\<lparr>configMapFederatedInformer :=
     exInformer (\<lambda>c. [(uidConfigMapKey, exUIDMap (''u'' @ c))])\<rparr>"

definition exUIDWorld :: fed_world where
  "exUIDWorld = (exWorld [] (\<lambda>c. []))\<lparr>fwMemberConfigMaps := (\<lambda>c. [exUIDMap (''u'' @ c)])\<rparr>"

lemma exUIDIC_informer [simp]:
  "configMapFederatedInformer exUIDIC = exInformer (\<lambda>c. [(uidConfigMapKey, exUIDMap (''u'' @ c))])"
  by (simp add: exUIDIC_def)

lemma exUID_lookup [simp]: "lookupData (exUIDMap u) uidKey = u" "cmData (exUIDMap u) \<noteq> None"
  by (simp_all add: exUIDMap_def lookupData_def)

lemma exCluster_unannotated [simp]: "clusterUID (exCluster n) = []"
  by (simp add: clusterUID_def exCluster_def exampleCluster_def zeroMeta_def)

lemma exUID_master [simp]: "masterUID exUIDIC = []"
  by (simp add: masterUID_Nil exReady del: set_filter)

lemma exUIDWorld_wf: "fw_wf exUIDWorld"
  by (simp add: fw_wf_def exUIDWorld_def exWorld_def trackerWf_def addressable_def objKey_def clusterKind_def exCluster_def
      exampleCluster_def zeroMeta_def configMapKind_def exUIDMap_def uidConfigMapName_def uidConfigMapNamespace_def)

lemma trackerMap_mem: "trackerMap k objs key = Some obj \<Longrightarrow> obj \<in> set objs"
  by (induction objs) (auto split: if_splits)

lemma exUIDWorld_unannotated: "fedClusters exUIDWorld k = Some c \<Longrightarrow> clusterUID c = []"
  by (drule trackerMap_mem) (auto simp: exUIDWorld_def exWorld_def)

lemma exUID_registered: "n \<in> {''a'', ''b''} \<Longrightarrow> fedClusters exUIDWorld (objKey clusterKind (exCluster n)) \<noteq> None"
  by (auto simp: exUIDWorld_def exWorld_def objKey_def clusterKind_def exCluster_def exampleCluster_def zeroMeta_def)

lemma exUID_ready:
  assumes "n \<in> {''a'', ''b''}" and "fw_wf w" and "fedClusters w (objKey clusterKind (exCluster n)) \<noteq> None"
    and "memberConfigMaps w n (objKey configMapKind (exUIDMap u)) = Some (exUIDMap u)"
  shows "uid_ready (exEnv [0]) exUIDIC (exCluster n) (exUIDMap u) w"
proof -
  have "exCluster n \<in> set (readyList (configMapFederatedInformer exUIDIC))"
    using assms(1) by (auto simp only: exUIDIC_informer exReady list.set)
  moreover have "envAPI (exEnv [0]) = trackerAPI" "envFinished (exEnv [0]) = [0]" by (simp_all add: exEnv_def)
  moreover have "GetClientsetForCluster (configMapFederatedInformer exUIDIC) (clName (exCluster n)) = Inr (clName (exCluster n))"
    using exClient [OF assms(1)] by simp
  ultimately show ?thesis
    unfolding uid_ready_def using assms(2-) exInformer_wf by simp
qed

lemma exUID_member: "memberConfigMaps exUIDWorld n (objKey configMapKind (exUIDMap (''u'' @ n))) = Some (exUIDMap (''u'' @ n))"
  by (simp add: memberConfigMaps_def exUIDWorld_def)

lemma exUID_target: "targetUID exUIDIC (exCluster n) (exUIDMap u) = u"
  by (simp add: targetUID_def)



lemma stale_election_splits_witness:
  "\<exists>a b. fedClusters (snd (snd (reconcileConfigMap (exEnv [0]) (exCluster ''b'') (exUIDMap ''ub'')
        (exUIDIC, snd (snd (reconcileConfigMap (exEnv [0]) (exCluster ''a'') (exUIDMap ''ua'') (exUIDIC, exUIDWorld)))))))
      (objKey clusterKind (exCluster ''a'')) = Some a \<and>
    fedClusters (snd (snd (reconcileConfigMap (exEnv [0]) (exCluster ''b'') (exUIDMap ''ub'')
        (exUIDIC, snd (snd (reconcileConfigMap (exEnv [0]) (exCluster ''a'') (exUIDMap ''ua'') (exUIDIC, exUIDWorld)))))))
      (objKey clusterKind (exCluster ''b'')) = Some b \<and> clusterUID a = ''ua'' \<and> clusterUID b = ''ub''"
proof -
  obtain p1 ic1 w1 where first: "reconcileConfigMap (exEnv [0]) (exCluster ''a'') (exUIDMap ''ua'') (exUIDIC, exUIDWorld) = (p1, ic1, w1)"
    by (rule prod_cases3)
  obtain p2 ic2 w2 where second: "reconcileConfigMap (exEnv [0]) (exCluster ''b'') (exUIDMap ''ub'') (exUIDIC, w1) = (p2, ic2, w2)"
    by (rule prod_cases3)
  have ready1: "uid_ready (exEnv [0]) exUIDIC (exCluster ''a'') (exUIDMap ''ua'') exUIDWorld"
    using exUID_ready [of "''a''", OF _ exUIDWorld_wf exUID_registered] exUID_member [of "''a''"] by simp
  have names: "exCluster ''a'' \<noteq> exCluster ''b''" using exName_cluster [of "''a''"] exName_cluster [of "''b''"] by fastforce
  have w1: "fw_wf w1" "fedClusters w1 (objKey clusterKind (exCluster ''b'')) \<noteq> None"
      "memberConfigMaps w1 ''b'' = memberConfigMaps exUIDWorld ''b''"
  proof -
    have "''ua'' \<noteq> []" by simp
    note law = reconcileConfigMap_tracker [OF ready1 _ first, unfolded exUID_target, OF this]
    show "fw_wf w1" using law by blast
    have "fedClusters w1 = (fedClusters exUIDWorld)(objKey clusterKind (exCluster ''a'') \<mapsto> annotated (exCluster ''a'') ''ua'')"
      using law by simp
    then show "fedClusters w1 (objKey clusterKind (exCluster ''b'')) \<noteq> None" using exUID_registered [of "''b''"] by simp
    obtain m where "memberConfigMaps w1 = (memberConfigMaps exUIDWorld)(''a'' := m)" using law exName_cluster by metis
    then show "memberConfigMaps w1 ''b'' = memberConfigMaps exUIDWorld ''b''" by simp
  qed
  have ready2: "uid_ready (exEnv [0]) exUIDIC (exCluster ''b'') (exUIDMap ''ub'') w1"
    using exUID_ready [of "''b''", OF _ w1(1,2)] exUID_member [of "''b''"] w1(3) by simp
  have member: "exCluster ''b'' \<in> set (readyList (configMapFederatedInformer exUIDIC))"
    by (simp only: exUIDIC_informer exReady list.set) simp
  show ?thesis
    using stale_election_splits [OF ready1 exUID_master names member _ _ _ first _ ready2 second]
    unfolding first second snd_conv by auto
qed

lemma failed_update_masked_witness:
  "\<exists>cm'. GetByKey (configMapFederatedInformer (fst (snd (reconcileConfigMap (exEnv []) (annotated (exCluster ''a'') ''u'')
      (exUIDMap ''ua'') (exUIDIC, exUIDWorld))))) ''a'' (nnString (nsName (cmMeta (exUIDMap ''ua'')))) = Inr (Some cm')"
proof -
  let ?c = "annotated (exCluster ''a'') ''u''"
  obtain p ic' w' where run: "reconcileConfigMap (exEnv []) ?c (exUIDMap ''ua'') (exUIDIC, exUIDWorld) = (p, ic', w')"
    by (rule prod_cases3)
  have name: "clName ?c = ''a''" by code_simp
  have "\<not> upToDate ?c (exUIDMap ''ua'') (clusterUID ?c)" by (simp add: upToDate_def)
  moreover have "clName ?c \<in> fst ` set (targetInformers (configMapFederatedInformer exUIDIC))"
    unfolding name by (simp add: exInformer_def)
  moreover have "\<exists>e w1. fuUpdate (federatedConfigMapUpdater (envAPI (exEnv [])))
      (GetClientsetForCluster (configMapFederatedInformer exUIDIC)) (envFinished (exEnv [])) [op] exUIDWorld = (Some e, w1)" for op
    by (simp add: exEnv_def fuUpdate_def)
  ultimately show ?thesis using failed_update_masked [OF _ _ _ _ _ run] run name by fastforce
qed

end
