(* ===== verification/Dyndns_Records.thy ===== *)
theory Dyndns_Records
  imports Go_Prelude
begin

text \<open>
  The data of the DynDNS provider: the record of the \<open>go-dynect\<close> client, the hosted zone,
  the resource record set (\<open>rrset.go\<close>) and the constructors of \<open>rrsets.go\<close> that
  translate between a record set with many values and the one-value records of the DynECT
  API. The lemmas show that the translation loses nothing: names, values and times to live
  survive the round trip.
\<close>

section \<open>Records, zones and record sets\<close>

text \<open>The struct \<open>Record\<close> of \<open>go-dynect\<close>.\<close>

record Record =
  rID :: string
  rZone :: string
  rName :: string
  rValue :: string
  rType :: string
  rFQDN :: string
  rTTL :: string

definition zeroRecord :: Record where
  "zeroRecord = \<lparr>rID = [], rZone = [], rName = [], rValue = [], rType = [], rFQDN = [], rTTL = []\<rparr>"

text \<open>
  The struct \<open>Zone\<close>; its back pointer to the provider is the API argument of the
  operations that follow it.
\<close>

record Zone =
  zdomain :: string
  zid :: string

definition zoneName :: "Zone \<Rightarrow> string" where
  "zoneName z = zdomain z"

definition zoneID :: "Zone \<Rightarrow> string" where
  "zoneID z = zid z"

text \<open>
  A value of the interface \<open>dnsprovider.ResourceRecordSet\<close> that this provider makes holds
  either a pointer to the struct (made by \<open>New\<close> and \<open>List\<close>) or the struct itself
  (made by \<open>Get\<close>); the type assertion in \<open>GetRecordsFromDNSRRS\<close> tells them apart.
\<close>

datatype ResourceRecordSet = RrsetPtr (impl: Record) | RrsetVal (impl: Record)

definition Name :: "ResourceRecordSet \<Rightarrow> string" where
  "Name rrset = rName (impl rrset)"

definition Rrdatas :: "ResourceRecordSet \<Rightarrow> string list" where
  "Rrdatas rrset = Split (rValue (impl rrset)) CHR '',''"

definition Ttl :: "ResourceRecordSet \<Rightarrow> int" where
  "Ttl rrset =
     (case ParseInt (rTTL (impl rrset)) of
        None \<Rightarrow> 60
      | Some ttl \<Rightarrow> if ttl < 0 then 60 else ttl)"

definition Type :: "ResourceRecordSet \<Rightarrow> string" where
  "Type rrset = rType (impl rrset)"

lemmas rrset_accessors = Name_def Rrdatas_def Ttl_def Type_def

section \<open>Making records\<close>

definition populateRecordWithName :: "string \<Rightarrow> Record \<Rightarrow> Record" where
  "populateRecordWithName name record =
     (let name = TrimSuffix name ''.'' in
      if HasSuffix name (''.'' @ rZone record)
      then record\<lparr>rFQDN := name, rName := TrimSuffix name (''.'' @ rZone record)\<rparr>
      else record\<lparr>rName := name, rFQDN := name @ ''.'' @ rZone record\<rparr>)"

definition newRecord :: "Zone \<Rightarrow> string \<Rightarrow> string list \<Rightarrow> int \<Rightarrow> string \<Rightarrow> Record" where
  "newRecord zone name rrdatas ttl rrsType =
     (let record = populateRecordWithName name (zeroRecord\<lparr>rZone := zoneName zone\<rparr>)
      in record\<lparr>rType := rrsType, rTTL := FormatInt ttl, rValue := Join rrdatas '',''\<rparr>)"

definition New :: "Zone \<Rightarrow> string \<Rightarrow> string list \<Rightarrow> int \<Rightarrow> string \<Rightarrow> ResourceRecordSet" where
  "New zone name rrdatas ttl rrsType = RrsetPtr (newRecord zone name rrdatas ttl rrsType)"

definition GetRecordsFromDNSRRS :: "Zone \<Rightarrow> ResourceRecordSet \<Rightarrow> Record list" where
  "GetRecordsFromDNSRRS zone rrs =
     (let record =
            (case rrs of
               RrsetPtr r \<Rightarrow> r
             | RrsetVal r \<Rightarrow> newRecord zone (Name rrs) (Rrdatas rrs) (Ttl rrs) (Type rrs));
          rdatas = Split (rValue record) CHR '',''
      in if length rdatas = 1 then [record]
         else map (\<lambda>rdata. newRecord zone (Name rrs) [rdata] (Ttl rrs) (Type rrs)) rdatas)"

section \<open>Names relative to a zone\<close>

text \<open>
  A relative name is one that \<open>populateRecordWithName\<close> leaves alone: it has no trailing
  dot and does not end in the zone's name. A zone is well formed when its name has no
  trailing dot.
\<close>

definition zone_ok :: "Zone \<Rightarrow> bool" where
  "zone_ok z \<longleftrightarrow> zdomain z \<noteq> [] \<and> last (zdomain z) \<noteq> CHR ''.''"

definition relative :: "Zone \<Rightarrow> string \<Rightarrow> bool" where
  "relative z s \<longleftrightarrow>
     s \<noteq> [] \<and> last s \<noteq> CHR ''.'' \<and> \<not> HasSuffix s (''.'' @ zdomain z)"

text \<open>The absolute spelling of a relative name, the one the controller uses.\<close>

definition fqdn :: "Zone \<Rightarrow> string \<Rightarrow> string" where
  "fqdn z s = s @ ''.'' @ zdomain z"

lemma fqdn_inj [simp]: "fqdn z s = fqdn z t \<longleftrightarrow> s = t"
  by (simp add: fqdn_def)

lemma populate_relative:
  assumes "relative z s" and "rZone r = zdomain z"
  shows "populateRecordWithName s r = r\<lparr>rName := s, rFQDN := fqdn z s\<rparr>"
  using assms
  by (simp add: populateRecordWithName_def relative_def TrimSuffix_singleton fqdn_def)

lemma populate_absolute:
  assumes "zone_ok z" and "rZone r = zdomain z"
  shows "populateRecordWithName (fqdn z s) r = r\<lparr>rName := s, rFQDN := fqdn z s\<rparr>"
proof -
  have "TrimSuffix (fqdn z s) ''.'' = fqdn z s"
    using assms by (simp add: TrimSuffix_singleton fqdn_def zone_ok_def)
  moreover have "HasSuffix (fqdn z s) (''.'' @ zdomain z)"
    unfolding fqdn_def by (rule HasSuffix_append)
  moreover have "TrimSuffix (fqdn z s) (''.'' @ zdomain z) = s"
    unfolding fqdn_def by (rule TrimSuffix_append)
  ultimately show ?thesis
    using assms(2) by (simp add: populateRecordWithName_def Let_def)
qed

lemma populate_trailing_dot:
  "last s \<noteq> CHR ''.'' \<Longrightarrow>
   populateRecordWithName (s @ ''.'') r = populateRecordWithName s r"
  by (auto simp: populateRecordWithName_def TrimSuffix_singleton)

text \<open>The record of a name, its values, its time to live and its type, spelled out.\<close>

definition mkRecord :: "Zone \<Rightarrow> string \<Rightarrow> string \<Rightarrow> string \<Rightarrow> string \<Rightarrow> Record" where
  "mkRecord z s ttl ty v =
     \<lparr>rID = [], rZone = zdomain z, rName = s, rValue = v, rType = ty,
      rFQDN = fqdn z s, rTTL = ttl\<rparr>"

lemma newRecord_relative:
  "relative z s \<Longrightarrow> newRecord z s ds t ty = mkRecord z s (FormatInt t) ty (Join ds '','')"
  by (simp add: newRecord_def zoneName_def populate_relative mkRecord_def zeroRecord_def)

lemma newRecord_absolute:
  "zone_ok z \<Longrightarrow>
   newRecord z (fqdn z s) ds t ty = mkRecord z s (FormatInt t) ty (Join ds '','')"
  by (simp add: newRecord_def zoneName_def populate_absolute mkRecord_def zeroRecord_def)

lemmas newRecord_name = newRecord_relative newRecord_absolute

section \<open>Round trips\<close>

definition comma_free :: "string list \<Rightarrow> bool" where
  "comma_free ds \<longleftrightarrow> ds \<noteq> [] \<and> (\<forall>d \<in> set ds. CHR '','' \<notin> set d)"

lemma Ttl_FormatInt [simp]:
  "ttl_ok t \<Longrightarrow> rTTL (impl rr) = FormatInt t \<Longrightarrow> Ttl rr = t"
  by (auto simp: Ttl_def ttl_ok_def ParseInt_FormatInt)

lemma mkRecord_sel [simp]:
  "rName (mkRecord z s t ty v) = s" "rTTL (mkRecord z s t ty v) = t"
  "rType (mkRecord z s t ty v) = ty" "rValue (mkRecord z s t ty v) = v"
  by (simp_all add: mkRecord_def)

lemma New_accessors:
  assumes "zone_ok z" and "comma_free ds" and "ttl_ok t"
  shows "Name (New z (fqdn z s) ds t ty) = s"
    and "Rrdatas (New z (fqdn z s) ds t ty) = ds"
    and "Ttl (New z (fqdn z s) ds t ty) = t"
    and "Type (New z (fqdn z s) ds t ty) = ty"
  using assms
  by (simp_all add: New_def newRecord_absolute Name_def Rrdatas_def Type_def comma_free_def
      Split_Join)

text \<open>
  A record set read back by \<open>Get\<close> (a struct value) yields the same records as the
  pointer it was created from.
\<close>

lemma GetRecords_ptr:
  assumes "relative z s" and "ttl_ok t"
  shows "GetRecordsFromDNSRRS z (RrsetPtr (mkRecord z s (FormatInt t) ty v)) =
    map (mkRecord z s (FormatInt t) ty) (Split v CHR '','')"
proof (cases "length (Split v CHR '','') = 1")
  case True
  then have "CHR '','' \<notin> set v"
    by (simp add: length_Split count_list_0_iff)
  then show ?thesis
    using True by (simp add: GetRecordsFromDNSRRS_def Split_no_sep)
next
  case False
  have "newRecord z s [d] t ty = mkRecord z s (FormatInt t) ty d" for d
    using assms(1) by (simp add: newRecord_relative)
  then show ?thesis
    using False assms(2) by (simp add: GetRecordsFromDNSRRS_def Name_def Type_def)
qed

lemma newRecord_reread:
  assumes "relative z s" and "ttl_ok t" and "rr = RrsetVal r"
    and "rName r = s" and "rTTL r = FormatInt t"
  shows "newRecord z (Name rr) (Rrdatas rr) (Ttl rr) (Type rr) =
    mkRecord z s (FormatInt t) (rType r) (rValue r)"
  using assms
  by (simp add: Name_def Rrdatas_def Type_def newRecord_relative)

lemma GetRecords_val:
  assumes "relative z s" and "ttl_ok t"
    and "rName r = s" and "rTTL r = FormatInt t"
  shows "GetRecordsFromDNSRRS z (RrsetVal r) =
    map (mkRecord z s (FormatInt t) (rType r)) (Split (rValue r) CHR '','')"
proof -
  have "newRecord z (Name (RrsetVal r)) [d] (Ttl (RrsetVal r)) (Type (RrsetVal r)) =
      mkRecord z s (FormatInt t) (rType r) d" for d
    using assms by (simp add: Name_def Type_def newRecord_relative)
  moreover have "length (Split (rValue r) CHR '','') = 1 \<Longrightarrow> CHR '','' \<notin> set (rValue r)"
    by (simp add: length_Split count_list_0_iff)
  ultimately show ?thesis
    using newRecord_reread [OF assms(1,2) refl assms(3,4)]
    by (auto simp: GetRecordsFromDNSRRS_def Split_no_sep Let_def)
qed
section \<open>Properties\<close>

definition example_zone :: Zone where
  "example_zone = \<lparr>zdomain = ''ex.com'', zid = ''0''\<rparr>"

text \<open>
  A record set made by \<open>New\<close> for a name of the zone gives back what it was made from: the
  name relative to the zone, the values in order, the time to live and the type. Values are
  joined with commas and split again, so they must hold none; the time to live is printed and
  parsed as a signed 64-bit number.
\<close>

theorem New_roundtrip:
  assumes "zone_ok z" and "comma_free ds" and "ttl_ok t"
  shows "Name (New z (fqdn z s) ds t ty) = s \<and> Rrdatas (New z (fqdn z s) ds t ty) = ds \<and>
    Ttl (New z (fqdn z s) ds t ty) = t \<and> Type (New z (fqdn z s) ds t ty) = ty"
  using New_accessors [OF assms] by simp

theorem New_roundtrip_witness:
  "zone_ok example_zone \<and> comma_free [''10.0.0.1'', ''10.0.0.2''] \<and> ttl_ok 180 \<and>
   Rrdatas (New example_zone ''a.ex.com'' [''10.0.0.1'', ''10.0.0.2''] 180 ''A'') = [''10.0.0.1'', ''10.0.0.2'']"
proof -
  have h: "zone_ok example_zone" "comma_free [''10.0.0.1'', ''10.0.0.2'']" "ttl_ok 180"
    by (simp_all add: zone_ok_def example_zone_def comma_free_def ttl_ok_def)
  from New_roundtrip [OF h, of "''a''" "''A''"] h show ?thesis
    by (simp add: fqdn_def example_zone_def)
qed

text \<open>
  C25: the three spellings of a name in a zone (relative, absolute, absolute with the trailing
  dot) give the same record, so records made under one spelling are found under another.
\<close>

theorem newRecord_spellings:
  assumes "zone_ok z" and "relative z s"
  shows "newRecord z (fqdn z s) ds t ty = newRecord z s ds t ty \<and>
    newRecord z (fqdn z s @ ''.'') ds t ty = newRecord z s ds t ty"
proof -
  have "last (fqdn z s) \<noteq> CHR ''.''" using assms(1) by (simp add: fqdn_def zone_ok_def)
  then have "newRecord z (fqdn z s @ ''.'') ds t ty = newRecord z (fqdn z s) ds t ty"
    unfolding newRecord_def by (subst populate_trailing_dot) (simp_all add: fqdn_def)
  then show ?thesis using assms by (simp add: newRecord_relative newRecord_absolute)
qed

theorem newRecord_spellings_witness:
  "zone_ok example_zone \<and> relative example_zone ''a.b'' \<and>
   newRecord example_zone ''a.b.ex.com.'' [''1.2.3.4''] 60 ''A'' = newRecord example_zone ''a.b'' [''1.2.3.4''] 60 ''A''"
proof -
  have h: "zone_ok example_zone" "relative example_zone ''a.b''"
    by (simp_all add: zone_ok_def relative_def example_zone_def HasSuffix_def)
  from newRecord_spellings [OF h, of "[''1.2.3.4'']" 60 "''A''"] h show ?thesis
    by (simp add: fqdn_def example_zone_def)
qed

text \<open>
  A record set with many values becomes one record per value, in order, each with the
  name, time to live and type of the set; reading such a record back as a record set (a struct
  value, as \<open>Get\<close> returns it) and converting again gives the same record.
\<close>

theorem GetRecords_one_per_value:
  assumes "zone_ok z" and "relative z s" and "comma_free ds" and "ttl_ok t"
  shows "GetRecordsFromDNSRRS z (New z (fqdn z s) ds t ty) = map (mkRecord z s (FormatInt t) ty) ds \<and>
    (\<forall>d \<in> set ds. GetRecordsFromDNSRRS z (RrsetVal (mkRecord z s (FormatInt t) ty d)) =
       [mkRecord z s (FormatInt t) ty d])"
proof
  show "GetRecordsFromDNSRRS z (New z (fqdn z s) ds t ty) = map (mkRecord z s (FormatInt t) ty) ds"
    using assms by (simp add: New_def newRecord_absolute GetRecords_ptr Split_Join comma_free_def)
  show "\<forall>d \<in> set ds. GetRecordsFromDNSRRS z (RrsetVal (mkRecord z s (FormatInt t) ty d)) =
       [mkRecord z s (FormatInt t) ty d]"
    using assms by (auto simp: GetRecords_val Split_no_sep comma_free_def)
qed

theorem GetRecords_one_per_value_witness:
  "zone_ok example_zone \<and> relative example_zone ''a'' \<and> comma_free [''10.0.0.1'', ''10.0.0.2''] \<and> ttl_ok 180 \<and>
   length (GetRecordsFromDNSRRS example_zone
     (New example_zone (fqdn example_zone ''a'') [''10.0.0.1'', ''10.0.0.2''] 180 ''A'')) = 2"
proof -
  have h: "zone_ok example_zone" "relative example_zone ''a''"
    "comma_free [''10.0.0.1'', ''10.0.0.2'']" "ttl_ok 180"
    by (simp_all add: zone_ok_def relative_def example_zone_def HasSuffix_def comma_free_def ttl_ok_def)
  from GetRecords_one_per_value [OF h, of "''A''"] h show ?thesis by simp
qed

end
