(* ===== verification/Dyndns_API.thy ===== *)
theory Dyndns_API
  imports Dyndns_Records
begin

text \<open>
  The interface \<open>stubs.DynDNSAPI\<close> through which the provider reaches the DynDNS
  service, as a record of functions over the service's state; the contract a reliable service
  keeps, as the locale \<open>dyn_service\<close>; and the in-memory implementation
  \<open>DynDNSAPIStub\<close>, which is shown to keep the contract.
\<close>

section \<open>The interface\<close>

text \<open>
  A call that changes the service returns an optional error and the new state, a query
  returns a result. \<open>GetRecordID\<close> writes the ID into the record it is given, so it
  returns the updated record.
\<close>

record 's DynDNSAPI =
  apiLogin :: "string \<Rightarrow> string \<Rightarrow> 's \<Rightarrow> error option"
  apiCreateRecord :: "Record \<Rightarrow> 's \<Rightarrow> error option \<times> 's"
  apiDeleteRecord :: "Record \<Rightarrow> 's \<Rightarrow> error option \<times> 's"
  apiGetRecordByName :: "Record \<Rightarrow> 's \<Rightarrow> Record list res"
  apiGetRecordID :: "Record \<Rightarrow> 's \<Rightarrow> Record res"
  apiGetAllRecordList :: "Record \<Rightarrow> 's \<Rightarrow> Record list res"
  apiPublishZone :: "string \<Rightarrow> 's \<Rightarrow> error option \<times> 's"

text \<open>What identifies a record: its name, time to live, type and value.\<close>

type_synonym rkey = "string \<times> string \<times> string \<times> string"

definition rkey :: "Record \<Rightarrow> rkey" where
  "rkey r = (rName r, rTTL r, rType r, rValue r)"

lemma rkey_mkRecord [simp]: "rkey (mkRecord z s t ty v) = (s, t, ty, v)"
  by (simp add: rkey_def)

section \<open>The contract of a reliable service\<close>

text \<open>
  The records the contract speaks about: a name in lower case (as every Kubernetes name is), a
  numeric time to live, and a type that starts with a capital letter (\<open>A\<close>, \<open>CNAME\<close>).
\<close>

definition upper :: "char \<Rightarrow> bool" where
  "upper c \<longleftrightarrow> CHR ''A'' \<le> c \<and> c \<le> CHR ''Z''"

definition key_wf :: "Record \<Rightarrow> bool" where
  "key_wf r \<longleftrightarrow>
     list_all (\<lambda>c. \<not> upper c) (rName r) \<and>
     list_all is_digit (rTTL r) \<and>
     rType r \<noteq> [] \<and> upper (hd (rType r)) \<and> CHR ''-'' \<notin> set (rType r)"

text \<open>
  \<open>recs\<close> is the set of records the service holds. Creating a record that is there, or
  removing one that is not, fails and changes nothing.
\<close>

locale dyn_service =
  fixes api :: "'s DynDNSAPI"
    and invar :: "'s \<Rightarrow> bool"
    and recs :: "'s \<Rightarrow> rkey set"
  assumes create_new: "invar s \<Longrightarrow> key_wf r \<Longrightarrow> rkey r \<notin> recs s \<Longrightarrow>
      \<exists>s'. apiCreateRecord api r s = (None, s') \<and> invar s' \<and> recs s' = insert (rkey r) (recs s)"
    and create_dup: "invar s \<Longrightarrow> key_wf r \<Longrightarrow> rkey r \<in> recs s \<Longrightarrow>
      \<exists>e. apiCreateRecord api r s = (Some e, s)"
    and find_id: "invar s \<Longrightarrow> key_wf r \<Longrightarrow> rkey r \<in> recs s \<Longrightarrow>
      \<exists>r'. apiGetRecordID api r s = Inr r' \<and> rkey r' = rkey r \<and> key_wf r'
        \<and> (\<exists>s'. apiDeleteRecord api r' s = (None, s') \<and> invar s' \<and> recs s' = recs s - {rkey r})"
    and delete_missing: "invar s \<Longrightarrow> key_wf r \<Longrightarrow> rkey r \<notin> recs s \<Longrightarrow>
      apiGetRecordID api r s = Inr r' \<Longrightarrow> \<exists>e. apiDeleteRecord api r' s = (Some e, s)"
    and get_by_name: "invar s \<Longrightarrow>
      \<exists>rs. apiGetRecordByName api r s = Inr rs \<and> distinct (map rkey rs)
        \<and> set (map rkey rs) = {k \<in> recs s. fst k = rName r} \<and> (\<forall>r \<in> set rs. key_wf r)"
    and publish: "invar s \<Longrightarrow>
      \<exists>s'. apiPublishZone api zone s = (None, s') \<and> invar s' \<and> recs s' = recs s"

section \<open>The in-memory service\<close>

text \<open>
  \<open>DynDNSAPIStub\<close> keeps its records in a map from \<open>hashKey\<close> to the record. The map
  is an association list whose order is an order in which \<open>range\<close> visits it.
\<close>

record DynDNSAPIStub =
  stub_rrsets :: "(string \<times> Record) list"

definition NewDynDNSAPIStub :: DynDNSAPIStub where
  "NewDynDNSAPIStub = \<lparr>stub_rrsets = []\<rparr>"

definition hashKey :: "Record \<Rightarrow> string" where
  "hashKey r = rName r @ ''-'' @ rTTL r @ ''-'' @ rType r @ ''-'' @ rValue r"

definition stub_Login :: "string \<Rightarrow> string \<Rightarrow> DynDNSAPIStub \<Rightarrow> error option" where
  "stub_Login user password stub =
     (if user \<noteq> ''foo'' \<or> password \<noteq> ''bar''
      then Some (Errorf ''Failed to login with user name and password'') else None)"

definition stub_CreateRecord :: "Record \<Rightarrow> DynDNSAPIStub \<Rightarrow> error option \<times> DynDNSAPIStub" where
  "stub_CreateRecord r stub =
     (let key = hashKey r in
      case map_of (stub_rrsets stub) key of
        Some _ \<Rightarrow> (Some (Errorf ''Attempt to create duplicate record''), stub)
      | None \<Rightarrow> (None, stub\<lparr>stub_rrsets := map_put key r (stub_rrsets stub)\<rparr>))"

definition stub_DeleteRecord :: "Record \<Rightarrow> DynDNSAPIStub \<Rightarrow> error option \<times> DynDNSAPIStub" where
  "stub_DeleteRecord r stub =
     (let key = hashKey r in
      case map_of (stub_rrsets stub) key of
        None \<Rightarrow> (Some (Errorf ''Attempt to delete non-existent record''), stub)
      | Some _ \<Rightarrow> (None, stub\<lparr>stub_rrsets := map_del key (stub_rrsets stub)\<rparr>))"

definition stub_GetRecordByName :: "Record \<Rightarrow> DynDNSAPIStub \<Rightarrow> Record list res" where
  "stub_GetRecordByName r stub =
     Inr (filter (\<lambda>rec. rName rec = rName r) (map snd (stub_rrsets stub)))"

definition stub_GetRecordID :: "Record \<Rightarrow> DynDNSAPIStub \<Rightarrow> Record res" where
  "stub_GetRecordID r stub = Inr r"

definition stub_GetAllRecordList :: "Record \<Rightarrow> DynDNSAPIStub \<Rightarrow> Record list res" where
  "stub_GetAllRecordList r stub = Inr (map snd (stub_rrsets stub))"

definition stub_PublishZone :: "string \<Rightarrow> DynDNSAPIStub \<Rightarrow> error option \<times> DynDNSAPIStub" where
  "stub_PublishZone zone stub = (None, stub)"

definition stub_api :: "DynDNSAPIStub DynDNSAPI" where
  "stub_api =
     \<lparr>apiLogin = stub_Login, apiCreateRecord = stub_CreateRecord,
      apiDeleteRecord = stub_DeleteRecord, apiGetRecordByName = stub_GetRecordByName,
      apiGetRecordID = stub_GetRecordID, apiGetAllRecordList = stub_GetAllRecordList,
      apiPublishZone = stub_PublishZone\<rparr>"

lemmas stub_defs [go_defs] = stub_CreateRecord_def stub_DeleteRecord_def stub_GetRecordByName_def
  stub_GetRecordID_def stub_GetAllRecordList_def stub_PublishZone_def stub_Login_def

section \<open>When the hash key identifies a record\<close>

text \<open>
  The key joins four fields with dashes, and a Kubernetes name may hold dashes itself. The
  key still determines the fields when names are lower case, the time to live is a number
  and the type starts with a capital letter, as \<open>A\<close> and \<open>CNAME\<close> do: the first capital
  letter of the key is where the type starts.
\<close>

lemma digit_not_upper: "is_digit c \<Longrightarrow> \<not> upper c"
  by (auto simp: is_digit_def upper_def less_eq_char_def)

lemma digit_not_dash: "is_digit c \<Longrightarrow> c \<noteq> CHR ''-''"
  by (auto simp: is_digit_def)

lemma split_at_first:
  assumes "xs @ y # ys = xs' @ y' # ys'"
    and "\<forall>x \<in> set xs. \<not> P x" and "\<forall>x \<in> set xs'. \<not> P x" and "P y" and "P y'"
  shows "xs = xs' \<and> y = y' \<and> ys = ys'"
  using assms
proof (induction xs arbitrary: xs')
  case Nil
  then show ?case by (cases xs') auto
next
  case (Cons x xs)
  then show ?case by (cases xs') auto
qed

lemma split_at_last:
  assumes "xs @ y # ys = xs' @ y' # ys'"
    and "\<forall>x \<in> set ys. \<not> P x" and "\<forall>x \<in> set ys'. \<not> P x" and "P y" and "P y'"
  shows "xs = xs' \<and> y = y' \<and> ys = ys'"
proof -
  have "rev ys @ y # rev xs = rev ys' @ y' # rev xs'"
    using arg_cong [OF assms(1), of rev] by simp
  from split_at_first [OF this, of P] assms(2-5) show ?thesis by simp
qed

lemma hashKey_inj:
  assumes wf: "key_wf r" "key_wf r'" and eq: "hashKey r = hashKey r'"
  shows "rkey r = rkey r'"
proof -
  obtain c u where t: "rType r = c # u" and c: "upper c"
    using wf(1) by (cases "rType r") (auto simp: key_wf_def)
  obtain c' u' where t': "rType r' = c' # u'" and c': "upper c'"
    using wf(2) by (cases "rType r'") (auto simp: key_wf_def)
  have low: "\<forall>x \<in> set (rName q @ ''-'' @ rTTL q @ ''-''). \<not> upper x" if "key_wf q" for q
    using that digit_not_upper by (auto simp: key_wf_def list_all_iff upper_def less_eq_char_def)
  have no_dash: "\<forall>x \<in> set (rTTL q). x \<noteq> CHR ''-''" if "key_wf q" for q
    using that digit_not_dash by (auto simp: key_wf_def list_all_iff)
  have "(rName r @ ''-'' @ rTTL r @ ''-'') @ c # (u @ ''-'' @ rValue r) =
      (rName r' @ ''-'' @ rTTL r' @ ''-'') @ c' # (u' @ ''-'' @ rValue r')"
    using eq by (simp add: hashKey_def t t')
  from split_at_first [OF this low [OF wf(1)] low [OF wf(2)] c c']
  have pre: "rName r @ CHR ''-'' # rTTL r = rName r' @ CHR ''-'' # rTTL r'"
    and cc: "c = c'" and post: "u @ CHR ''-'' # rValue r = u' @ CHR ''-'' # rValue r'"
    by simp_all
  have "rName r = rName r' \<and> rTTL r = rTTL r'"
    using split_at_last [OF pre, of "\<lambda>x. x = CHR ''-''"] no_dash [OF wf(1)] no_dash [OF wf(2)]
    by blast
  moreover have "u = u' \<and> rValue r = rValue r'"
    using split_at_first [OF post, of "\<lambda>x. x = CHR ''-''"] wf t t'
    by (auto simp: key_wf_def)
  ultimately show ?thesis by (simp add: rkey_def t t' cc)
qed

lemma hashKey_rkey: "rkey r = rkey r' \<Longrightarrow> hashKey r = hashKey r'"
  by (simp add: rkey_def hashKey_def)

lemma key_wf_rkey: "rkey r = rkey r' \<Longrightarrow> key_wf r = key_wf r'"
  by (simp add: rkey_def key_wf_def)

section \<open>The stub keeps the contract\<close>

definition stub_inv :: "DynDNSAPIStub \<Rightarrow> bool" where
  "stub_inv stub \<longleftrightarrow>
     keys_distinct (stub_rrsets stub) \<and>
     (\<forall>(k, r) \<in> set (stub_rrsets stub). k = hashKey r \<and> key_wf r)"

definition stub_recs :: "DynDNSAPIStub \<Rightarrow> rkey set" where
  "stub_recs stub = (rkey \<circ> snd) ` set (stub_rrsets stub)"

lemma stub_inv_new [simp]: "stub_inv NewDynDNSAPIStub"
  by (simp add: stub_inv_def NewDynDNSAPIStub_def)

lemma stub_recs_new [simp]: "stub_recs NewDynDNSAPIStub = {}"
  by (simp add: stub_recs_def NewDynDNSAPIStub_def)

lemma stub_invD:
  "stub_inv stub \<Longrightarrow> (k, r) \<in> set (stub_rrsets stub) \<Longrightarrow> k = hashKey r \<and> key_wf r"
  by (auto simp: stub_inv_def)

lemma stub_recsE:
  assumes "x \<in> stub_recs stub"
  obtains k q where "(k, q) \<in> set (stub_rrsets stub)" and "x = rkey q"
  using assms by (auto simp: stub_recs_def)

lemma stub_recsI: "(k, q) \<in> set (stub_rrsets stub) \<Longrightarrow> rkey q \<in> stub_recs stub"
  by (force simp: stub_recs_def)

lemma stub_lookup_iff:
  assumes "stub_inv stub" and "key_wf r"
  shows "hashKey r \<in> fst ` set (stub_rrsets stub) \<longleftrightarrow> rkey r \<in> stub_recs stub"
proof
  assume "hashKey r \<in> fst ` set (stub_rrsets stub)"
  then obtain r' where "(hashKey r, r') \<in> set (stub_rrsets stub)" by force
  then have "hashKey r = hashKey r'" and "key_wf r'" and "rkey r' \<in> stub_recs stub"
    using stub_invD [OF assms(1)] stub_recsI by blast+
  with assms(2) show "rkey r \<in> stub_recs stub" by (metis hashKey_inj)
next
  assume "rkey r \<in> stub_recs stub"
  then obtain k r' where kr: "(k, r') \<in> set (stub_rrsets stub)" and "rkey r = rkey r'"
    by (rule stub_recsE)
  with assms(1) have "k = hashKey r"
    by (metis hashKey_rkey stub_invD)
  with kr show "hashKey r \<in> fst ` set (stub_rrsets stub)" by force
qed

lemma stub_recs_delete:
  assumes "stub_inv stub" and "key_wf r"
  shows "stub_recs (stub\<lparr>stub_rrsets := map_del (hashKey r) (stub_rrsets stub)\<rparr>) =
    stub_recs stub - {rkey r}"
proof -
  have "k \<noteq> hashKey r \<longleftrightarrow> rkey q \<noteq> rkey r" if "(k, q) \<in> set (stub_rrsets stub)" for k q
    using stub_invD [OF assms(1) that] assms(2) by (metis hashKey_inj hashKey_rkey)
  then show ?thesis
    by (auto simp: stub_recs_def image_iff)
qed

lemma stub_distinct_rkeys:
  assumes "stub_inv stub"
  shows "distinct (map rkey (map snd (stub_rrsets stub)))"
proof -
  have "inj_on (\<lambda>e. rkey (snd e)) (set (stub_rrsets stub))"
  proof (rule inj_onI)
    fix e e' assume e: "e \<in> set (stub_rrsets stub)" "e' \<in> set (stub_rrsets stub)"
      and "rkey (snd e) = rkey (snd e')"
    then have "fst e = fst e'"
      using stub_invD [OF assms] by (metis hashKey_rkey prod.collapse)
    moreover have "inj_on fst (set (stub_rrsets stub))"
      using assms by (simp add: stub_inv_def distinct_map)
    ultimately show "e = e'" using e by (simp add: inj_on_eq_iff)
  qed
  moreover have "distinct (stub_rrsets stub)"
    using assms by (simp add: stub_inv_def distinct_map)
  ultimately show ?thesis by (simp add: distinct_map comp_def)
qed

interpretation stub_service: dyn_service stub_api stub_inv stub_recs
proof unfold_locales
  fix s r assume inv: "stub_inv s" and wf: "key_wf r"
  {
    assume "rkey r \<notin> stub_recs s"
    then have fresh: "hashKey r \<notin> fst ` set (stub_rrsets s)"
      using stub_lookup_iff inv wf by blast
    then have "map_of (stub_rrsets s) (hashKey r) = None"
      by (simp add: map_of_eq_None_iff)
    with fresh inv wf
    show "\<exists>s'. apiCreateRecord stub_api r s = (None, s') \<and> stub_inv s'
        \<and> stub_recs s' = insert (rkey r) (stub_recs s)"
      by (auto simp: stub_api_def stub_defs Let_def stub_inv_def stub_recs_def set_map_put_fresh)
  next
    assume "rkey r \<in> stub_recs s"
    then have "hashKey r \<in> fst ` set (stub_rrsets s)"
      using stub_lookup_iff inv wf by blast
    then obtain q where q: "map_of (stub_rrsets s) (hashKey r) = Some q"
      by (metis map_of_eq_None_iff option.exhaust)
    then show "\<exists>e. apiCreateRecord stub_api r s = (Some e, s)"
      by (simp add: stub_api_def stub_defs Let_def)
    from q inv wf show "\<exists>r'. apiGetRecordID stub_api r s = Inr r' \<and> rkey r' = rkey r \<and> key_wf r'
        \<and> (\<exists>s'. apiDeleteRecord stub_api r' s = (None, s') \<and> stub_inv s'
          \<and> stub_recs s' = stub_recs s - {rkey r})"
      using stub_recs_delete [OF inv wf]
      by (auto simp: stub_api_def stub_defs Let_def stub_inv_def)
  next
    fix r' assume "rkey r \<notin> stub_recs s" and "apiGetRecordID stub_api r s = Inr r'"
    then have "r' = r" and "hashKey r \<notin> fst ` set (stub_rrsets s)"
      using stub_lookup_iff inv wf by (auto simp: stub_api_def stub_defs)
    then show "\<exists>e. apiDeleteRecord stub_api r' s = (Some e, s)"
      by (simp add: stub_api_def stub_defs Let_def map_of_eq_None_iff [THEN iffD2])
  }
next
  fix s :: DynDNSAPIStub and r :: Record
  assume inv: "stub_inv s"
  let ?rs = "filter (\<lambda>q. rName q = rName r) (map snd (stub_rrsets s))"
  have "distinct (map rkey ?rs)"
    using stub_distinct_rkeys [OF inv] by (rule distinct_map_filter)
  moreover have "set (map rkey ?rs) = {k \<in> stub_recs s. fst k = rName r}"
    by (auto simp: stub_recs_def rkey_def image_iff) (metis snd_conv)
  moreover have "\<forall>q \<in> set ?rs. key_wf q"
    using inv by (auto simp: stub_inv_def)
  ultimately show "\<exists>rs. apiGetRecordByName stub_api r s = Inr rs \<and> distinct (map rkey rs)
      \<and> set (map rkey rs) = {k \<in> stub_recs s. fst k = rName r} \<and> (\<forall>r \<in> set rs. key_wf r)"
    by (intro exI [of _ ?rs]) (simp add: stub_api_def stub_defs)
next
  fix s zone assume "stub_inv s"
  then show "\<exists>s'. apiPublishZone stub_api zone s = (None, s') \<and> stub_inv s'
      \<and> stub_recs s' = stub_recs s"
    by (simp add: stub_api_def stub_defs)
qed

section \<open>Properties\<close>

text \<open>
  The in-memory service implements a set of records. Creating a record succeeds exactly
  when it is not there and inserts it; deleting a record succeeds exactly when it is there and
  removes it; a call that fails changes nothing; and the invariant is kept.
\<close>

theorem stub_refines_set:
  assumes "stub_inv s" and "key_wf r"
  shows "(case stub_CreateRecord r s of
      (None, s') \<Rightarrow> rkey r \<notin> stub_recs s \<and> stub_inv s' \<and> stub_recs s' = insert (rkey r) (stub_recs s)
    | (Some e, s') \<Rightarrow> rkey r \<in> stub_recs s \<and> s' = s)
   \<and> (case stub_DeleteRecord r s of
      (None, s') \<Rightarrow> rkey r \<in> stub_recs s \<and> stub_inv s' \<and> stub_recs s' = stub_recs s - {rkey r}
    | (Some e, s') \<Rightarrow> rkey r \<notin> stub_recs s \<and> s' = s)"
proof (cases "rkey r \<in> stub_recs s")
  case True
  then obtain e r' s' where "apiCreateRecord stub_api r s = (Some e, s)"
      "apiGetRecordID stub_api r s = Inr r'" "apiDeleteRecord stub_api r' s = (None, s')"
      "stub_inv s'" "stub_recs s' = stub_recs s - {rkey r}"
    using stub_service.create_dup [OF assms] stub_service.find_id [OF assms] by blast
  with True show ?thesis by (simp add: stub_api_def stub_GetRecordID_def)
next
  case False
  have "apiGetRecordID stub_api r s = Inr r" by (simp add: stub_api_def stub_GetRecordID_def)
  with False obtain e s' where "apiCreateRecord stub_api r s = (None, s')" "stub_inv s'"
      "stub_recs s' = insert (rkey r) (stub_recs s)" "apiDeleteRecord stub_api r s = (Some e, s)"
    using stub_service.create_new [OF assms] stub_service.delete_missing [OF assms] by blast
  with False show ?thesis by (simp add: stub_api_def)
qed

definition example_record :: Record where
  "example_record = mkRecord example_zone ''a-b'' ''180'' ''A'' ''10.0.0.1''"

lemma example_record_wf: "key_wf example_record"
  by (simp add: key_wf_def example_record_def mkRecord_def upper_def less_eq_char_def is_digit_def)

theorem stub_refines_set_witness:
  "stub_inv NewDynDNSAPIStub \<and> key_wf example_record \<and>
   stub_recs (snd (stub_CreateRecord example_record NewDynDNSAPIStub)) = {rkey example_record}"
  using stub_refines_set [OF stub_inv_new example_record_wf] example_record_wf
  by (auto split: prod.splits option.splits)

end
