(* ===== verification/DNS_Provider.thy ===== *)
theory DNS_Provider
  imports Go_Prelude
begin

text \<open>
  The provider-independent interface of \<open>k8s.io/kubernetes/federation/pkg/dnsprovider\<close>
  through which the controller manages resource record sets. The Go interfaces
  \<open>ResourceRecordSets\<close>, \<open>ResourceRecordSet\<close> and \<open>ResourceRecordChangeset\<close> are
  one record of functions over the state \<open>'s\<close> of the DNS service, the record sets
  \<open>'r\<close> and the changesets \<open>'c\<close> of the provider. The locale \<open>rrset_provider\<close> is
  the contract the controller relies on.
\<close>

record ('s, 'r, 'c) rrsets_ops =
  opGet :: "string \<Rightarrow> 's \<Rightarrow> 'r list res"
  opNew :: "string \<Rightarrow> string list \<Rightarrow> int \<Rightarrow> string \<Rightarrow> 'r"
  opStartChangeset :: 'c
  opAdd :: "'c \<Rightarrow> 'r \<Rightarrow> 'c"
  opRemove :: "'c \<Rightarrow> 'r \<Rightarrow> 'c"
  opApply :: "'c \<Rightarrow> 's \<Rightarrow> error option \<times> 's"
  opName :: "'r \<Rightarrow> string"
  opRrdatas :: "'r \<Rightarrow> string list"
  opTtl :: "'r \<Rightarrow> int"
  opType :: "'r \<Rightarrow> string"

text \<open>The interfaces \<open>Zones\<close> and \<open>Zone\<close>; \<open>None\<close> is an interface the provider does not support.\<close>

record ('s, 'z, 'r, 'c) zones_ops =
  zsList :: "'s \<Rightarrow> 'z list res"
  zsAdd :: "'z \<Rightarrow> 's \<Rightarrow> 'z res \<times> 's"
  zsRemove :: "'z \<Rightarrow> 's \<Rightarrow> error option \<times> 's"
  zsNew :: "string \<Rightarrow> 's \<Rightarrow> 'z res"
  zsName :: "'z \<Rightarrow> string"
  zsID :: "'z \<Rightarrow> string"
  zsRrsets :: "'z \<Rightarrow> ('s, 'r, 'c) rrsets_ops option"

text \<open>The interface \<open>Interface\<close> of a provider.\<close>

record ('s, 'z, 'r, 'c) provider =
  prZones :: "('s, 'z, 'r, 'c) zones_ops option"

definition rrsA :: string where "rrsA = ''A''"
definition rrsCNAME :: string where "rrsCNAME = ''CNAME''"

definition ResourceRecordSetsEquivalent :: "('s, 'r, 'c) rrsets_ops \<Rightarrow> 'r \<Rightarrow> 'r \<Rightarrow> bool" where
  "ResourceRecordSetsEquivalent ops r1 r2 \<longleftrightarrow>
     opName ops r1 = opName ops r2 \<and> opRrdatas ops r1 = opRrdatas ops r2 \<and>
     opTtl ops r1 = opTtl ops r2 \<and> opType ops r1 = opType ops r2"

section \<open>The contract\<close>

text \<open>
  What a resolver sees at a name is a set of resource records: type, time to live, value.
  \<open>view s n\<close> is that set. A changeset that removes what \<open>Get\<close> returned for a name and
  adds one new record set replaces the records at that name and leaves every other name
  alone.
\<close>

type_synonym rr = "string \<times> int \<times> string"

definition rrs_of :: "('s, 'r, 'c) rrsets_ops \<Rightarrow> 'r \<Rightarrow> rr set" where
  "rrs_of ops r = (\<lambda>d. (opType ops r, opTtl ops r, d)) ` set (opRrdatas ops r)"

locale rrset_provider =
  fixes ops :: "('s, 'r, 'c) rrsets_ops"
    and invar :: "'s \<Rightarrow> bool"
    and view :: "'s \<Rightarrow> string \<Rightarrow> rr set"
    and name_ok :: "string \<Rightarrow> bool"
    and data_ok :: "string \<Rightarrow> string \<Rightarrow> bool"
  assumes get_view: "invar s \<Longrightarrow> name_ok n \<Longrightarrow>
      \<exists>rs. opGet ops n s = Inr rs \<and> (\<Union>r \<in> set rs. rrs_of ops r) = view s n
        \<and> (\<forall>r \<in> set rs. opRrdatas ops r \<noteq> [])"
    and new_accessors: "name_ok n \<Longrightarrow> ds \<noteq> [] \<Longrightarrow> \<forall>d \<in> set ds. data_ok ty d \<Longrightarrow> ttl_ok t \<Longrightarrow>
      opRrdatas ops (opNew ops n ds t ty) = ds \<and> opTtl ops (opNew ops n ds t ty) = t
        \<and> opType ops (opNew ops n ds t ty) = ty"
    and replace: "invar s \<Longrightarrow> name_ok n \<Longrightarrow> opGet ops n s = Inr rs \<Longrightarrow>
      ds \<noteq> [] \<Longrightarrow> distinct ds \<Longrightarrow> \<forall>d \<in> set ds. data_ok ty d \<Longrightarrow> ttl_ok t \<Longrightarrow>
      \<exists>s'. opApply ops (opAdd ops (foldl (opRemove ops) (opStartChangeset ops) rs)
             (opNew ops n ds t ty)) s = (None, s')
        \<and> invar s' \<and> view s' = (view s)(n := (\<lambda>d. (ty, t, d)) ` set ds)"
    and clear: "invar s \<Longrightarrow> name_ok n \<Longrightarrow> opGet ops n s = Inr rs \<Longrightarrow> rs \<noteq> [] \<Longrightarrow>
      \<exists>s'. opApply ops (foldl (opRemove ops) (opStartChangeset ops) rs) s = (None, s')
        \<and> invar s' \<and> view s' = (view s)(n := {})"
begin

lemma get_empty_iff:
  assumes "invar s" and "name_ok n" and "opGet ops n s = Inr rs"
  shows "rs = [] \<longleftrightarrow> view s n = {}"
  using get_view [OF assms(1,2)] assms(3) by (cases rs) (auto simp: rrs_of_def)

lemma add_fresh:
  assumes "invar s" and "name_ok n" and "opGet ops n s = Inr []"
    and "ds \<noteq> []" and "distinct ds" and "\<forall>d \<in> set ds. data_ok ty d" and "ttl_ok t"
  obtains s' where "opApply ops (opAdd ops (opStartChangeset ops) (opNew ops n ds t ty)) s = (None, s')"
    and "invar s'" and "view s' = (view s)(n := (\<lambda>d. (ty, t, d)) ` set ds)"
  using replace [OF assms] by auto

lemma equivalent_new:
  assumes "name_ok n" and "ds \<noteq> []" and "\<forall>d \<in> set ds. data_ok ty d" and "ttl_ok t"
    and "ResourceRecordSetsEquivalent ops (opNew ops n ds t ty) r"
  shows "rrs_of ops r = (\<lambda>d. (ty, t, d)) ` set ds"
  using assms new_accessors [OF assms(1-4)]
  by (auto simp: ResourceRecordSetsEquivalent_def rrs_of_def)

end

end
