(* ===== verification/DNS_Util.thy ===== *)
theory DNS_Util
  imports DNS_Provider "HOL-Library.Multiset"
begin

text \<open>
  The shared DNS logic of \<open>pkg/controller/util/dns.go\<close>: resolving endpoints, choosing the
  hosted zone, and \<open>EnsureDNSRrsets\<close>, which brings the records at one name in line with
  the endpoints. The provider is any \<open>rrsets_ops\<close>; the lemmas about the effect on the
  DNS are proved once in the locale \<open>rrset_provider\<close>.
\<close>

section \<open>Addresses: net.ParseIP\<close>

text \<open>
  \<open>ParseIP s\<close> says whether \<open>net.ParseIP(s)\<close> is not nil. The code uses nothing else of
  the result. The model follows the standard library of Go 1.8, which the README names: four
  decimal octets separated by dots, or up to eight groups of hexadecimal digits separated by
  colons with at most one ellipsis and an optional trailing IPv4 address.
\<close>

definition octet :: "string \<Rightarrow> string option" where
  "octet s =
     (let ds = takeWhile is_digit s in
      case ParseUint ds of
        None \<Rightarrow> None
      | Some n \<Rightarrow> if n \<le> 255 then Some (drop (length ds) s) else None)"

fun dotOctets :: "nat \<Rightarrow> string \<Rightarrow> string option" where
  "dotOctets 0 s = Some s"
| "dotOctets (Suc n) [] = None"
| "dotOctets (Suc n) (c # s) =
     (if c = CHR ''.''
      then (case octet s of None \<Rightarrow> None | Some t \<Rightarrow> dotOctets n t)
      else None)"

definition parseIPv4 :: "string \<Rightarrow> bool" where
  "parseIPv4 s = (case octet s of None \<Rightarrow> False | Some t \<Rightarrow> dotOctets 3 t = Some [])"

definition hexDigit :: "char \<Rightarrow> nat option" where
  "hexDigit c =
     (let n = of_char c :: nat in
      if 48 \<le> n \<and> n \<le> 57 then Some (n - 48)
      else if 97 \<le> n \<and> n \<le> 102 then Some (n - 87)
      else if 65 \<le> n \<and> n \<le> 70 then Some (n - 55)
      else None)"

definition is_hex :: "char \<Rightarrow> bool" where
  "is_hex c \<longleftrightarrow> hexDigit c \<noteq> None"

definition hexVal :: "string \<Rightarrow> nat" where
  "hexVal s = foldl (\<lambda>n c. 16 * n + (case hexDigit c of None \<Rightarrow> 0 | Some d \<Rightarrow> d)) 0 s"

text \<open>\<open>r\<close> counts the groups still missing, \<open>ell\<close> whether an ellipsis was seen.\<close>

definition ipv6End :: "nat \<Rightarrow> bool \<Rightarrow> bool" where
  "ipv6End r ell = (if 0 < r then ell else \<not> ell)"

fun ipv6Groups :: "nat \<Rightarrow> bool \<Rightarrow> string \<Rightarrow> bool" where
  "ipv6Groups 0 ell s = (s = [] \<and> ipv6End 0 ell)"
| "ipv6Groups (Suc r) ell s =
     (let ds = takeWhile is_hex s; t = drop (length ds) s in
      if ds = [] \<or> 65535 < hexVal ds then False
      else if t \<noteq> [] \<and> hd t = CHR ''.''
      then (ell \<or> Suc r = 2) \<and> 2 \<le> Suc r \<and> parseIPv4 s \<and> ipv6End (Suc r - 2) ell
      else case t of
        [] \<Rightarrow> ipv6End r ell
      | c # u \<Rightarrow>
          if c \<noteq> CHR '':'' \<or> u = [] then False
          else if hd u = CHR '':''
          then \<not> ell \<and> (if tl u = [] then ipv6End r True else ipv6Groups r True (tl u))
          else ipv6Groups r ell u)"

definition parseIPv6 :: "string \<Rightarrow> bool" where
  "parseIPv6 s =
     (if HasPrefix s ''::''
      then drop 2 s = [] \<or> ipv6Groups 8 True (drop 2 s)
      else ipv6Groups 8 False s)"

definition ParseIP :: "string \<Rightarrow> bool" where
  "ParseIP s =
     (case dropWhile (\<lambda>c. c \<noteq> CHR ''.'' \<and> c \<noteq> CHR '':'') s of
        [] \<Rightarrow> False
      | c # t \<Rightarrow> if c = CHR ''.'' then parseIPv4 s else parseIPv6 s)"

section \<open>Resolving endpoints\<close>

text \<open>
  \<open>lookup\<close> stands for \<open>net.LookupHost\<close>, a query to the network. It returns the addresses
  of the host, and an error when there are none.
\<close>

type_synonym lookup = "string \<Rightarrow> string list res"

definition lookup_ok :: "lookup \<Rightarrow> bool" where
  "lookup_ok lookup \<longleftrightarrow> (\<forall>h as. lookup h = Inr as \<longrightarrow> as \<noteq> [] \<and> list_all ParseIP as)"

fun resolveLoop :: "lookup \<Rightarrow> string_set \<Rightarrow> string list \<Rightarrow> string list \<times> error option" where
  "resolveLoop lookup resolved [] = (List_set resolved, None)"
| "resolveLoop lookup resolved (endpoint # endpoints) =
     (if \<not> ParseIP endpoint
      then (case lookup endpoint of
              Inl err \<Rightarrow> (List_set resolved, Some err)
            | Inr ipAddrs \<Rightarrow>
                resolveLoop lookup
                  (foldl (\<lambda>s ip. Union_sets s (NewString [ip])) resolved ipAddrs) endpoints)
      else resolveLoop lookup (Union_sets resolved (NewString [endpoint])) endpoints)"

definition GetResolvedEndpoints :: "lookup \<Rightarrow> string list \<Rightarrow> string list \<times> error option" where
  "GetResolvedEndpoints lookup endpoints = resolveLoop lookup (NewString []) endpoints"

section \<open>Choosing the hosted zone\<close>

text \<open>
  \<open>sortSlice\<close> stands for \<open>sort.Slice\<close> with the comparison on the length of the name;
  it is not stable, so the order of zones with names of equal length is not determined.
\<close>

definition sorts_by_length :: "('z \<Rightarrow> string) \<Rightarrow> ('z list \<Rightarrow> 'z list) \<Rightarrow> bool" where
  "sorts_by_length nameOf sortSlice \<longleftrightarrow>
     (\<forall>zs. mset (sortSlice zs) = mset zs \<and>
        sorted_wrt (\<lambda>a b. length (nameOf b) \<le> length (nameOf a)) (sortSlice zs))"

fun firstContained :: "('z \<Rightarrow> string) \<Rightarrow> string \<Rightarrow> 'z list \<Rightarrow> 'z option" where
  "firstContained nameOf findName [] = None"
| "firstContained nameOf findName (z # zs) =
     (let cleanZone = TrimSuffix (nameOf z) ''.'' in
      if \<not> Contains findName cleanZone then firstContained nameOf findName zs else Some z)"

definition GetDNSZone ::
  "('z list \<Rightarrow> 'z list) \<Rightarrow> ('z \<Rightarrow> string) \<Rightarrow> string \<Rightarrow> 'z list res \<Rightarrow> 'z option res" where
  "GetDNSZone sortSlice nameOf domain listing =
     (case listing of
        Inl err \<Rightarrow> Inl err
      | Inr dnsZones \<Rightarrow>
          Inr (firstContained nameOf (TrimSuffix domain ''.'') (sortSlice dnsZones)))"

section \<open>Ensuring the records at one name\<close>

definition minDNSTTL :: int where "minDNSTTL = 180"

fun findRrset :: "('s, 'r, 'c) rrsets_ops \<Rightarrow> 'r list \<Rightarrow> 'r \<Rightarrow> 'r option" where
  "findRrset ops [] rrset = None"
| "findRrset ops (elem # list) rrset =
     (if length (opRrdatas ops elem) \<noteq> length (opRrdatas ops rrset) then findRrset ops list rrset
      else if ResourceRecordSetsEquivalent ops rrset elem then Some elem
      else findRrset ops list rrset)"

definition GetRrset :: "('s, 'r, 'c) rrsets_ops \<Rightarrow> string \<Rightarrow> 's \<Rightarrow> 'r list res" where
  "GetRrset ops dnsName s = opGet ops dnsName s"

text \<open>
  \<open>rrsets\<close> is what \<open>dnsZone.ResourceRecordSets()\<close> returned, \<open>None\<close> when the
  provider does not support the interface.
\<close>

definition EnsureDNSRrsets ::
  "lookup \<Rightarrow> ('s, 'r, 'c) rrsets_ops option \<Rightarrow> string \<Rightarrow> string list \<Rightarrow> string \<Rightarrow> 's \<Rightarrow>
   error option \<times> 's" where
  "EnsureDNSRrsets lookup rrsets dnsName endpoints uplevelCname s =
     (case rrsets of
        None \<Rightarrow> (Some (Errorf ''Failed to ensure DNS records''), s)
      | Some ops \<Rightarrow>
          (case GetRrset ops dnsName s of
             Inl err \<Rightarrow> (Some err, s)
           | Inr rrsetList \<Rightarrow>
               if length rrsetList = 0 then
                 if length endpoints < 1 then
                   if uplevelCname \<noteq> [] then
                     let newRrset = opNew ops dnsName [uplevelCname] minDNSTTL rrsCNAME
                     in opApply ops (opAdd ops (opStartChangeset ops) newRrset) s
                   else (None, s)
                 else
                   (case GetResolvedEndpoints lookup endpoints of
                      (_, Some err) \<Rightarrow> (Some err, s)
                    | (resolvedEndpoints, None) \<Rightarrow>
                        let newRrset = opNew ops dnsName resolvedEndpoints minDNSTTL rrsA
                        in opApply ops (opAdd ops (opStartChangeset ops) newRrset) s)
               else
                 if length endpoints < 1 then
                   let newRrset = opNew ops dnsName [uplevelCname] minDNSTTL rrsCNAME in
                   case findRrset ops rrsetList newRrset of
                     Some found \<Rightarrow> (None, s)
                   | None \<Rightarrow>
                       let changeSet = foldl (opRemove ops) (opStartChangeset ops) rrsetList in
                       if uplevelCname \<noteq> [] then opApply ops (opAdd ops changeSet newRrset) s
                       else opApply ops changeSet s
                 else
                   (case GetResolvedEndpoints lookup endpoints of
                      (_, Some err) \<Rightarrow> (Some err, s)
                    | (resolvedEndpoints, None) \<Rightarrow>
                        let newRrset = opNew ops dnsName resolvedEndpoints minDNSTTL rrsA in
                        case findRrset ops rrsetList newRrset of
                          Some found \<Rightarrow> (None, s)
                        | None \<Rightarrow>
                            let changeSet = foldl (opRemove ops) (opStartChangeset ops) rrsetList
                            in opApply ops (opAdd ops changeSet newRrset) s)))"

section \<open>Lemmas on addresses\<close>

definition addr_char :: "char \<Rightarrow> bool" where
  "addr_char c \<longleftrightarrow> is_hex c \<or> c = CHR ''.'' \<or> c = CHR '':''"

lemma digit_is_hex: "is_digit c \<Longrightarrow> is_hex c"
  by (simp add: is_digit_def is_hex_def hexDigit_def)

lemma takeWhile_drop: "s = takeWhile P s @ drop (length (takeWhile P s)) s"
  by (metis dropWhile_eq_drop takeWhile_dropWhile_id)

lemma octet_chars:
  assumes "octet s = Some t" and "list_all addr_char t"
  shows "list_all addr_char s"
proof -
  have "t = drop (length (takeWhile is_digit s)) s"
    using assms(1) by (auto simp: octet_def Let_def split: option.splits if_splits)
  then have "s = takeWhile is_digit s @ t" using takeWhile_drop by metis
  moreover have "list_all addr_char (takeWhile is_digit s)"
    using set_takeWhileD digit_is_hex by (fastforce simp: list_all_iff addr_char_def)
  ultimately show ?thesis using assms(2) by (metis list_all_append)
qed

lemma dotOctets_chars: "dotOctets n s = Some [] \<Longrightarrow> list_all addr_char s"
  by (induction n s rule: dotOctets.induct)
    (auto simp: addr_char_def split: if_splits option.splits intro: octet_chars)

lemma parseIPv4_chars: "parseIPv4 s \<Longrightarrow> list_all addr_char s"
  by (auto simp: parseIPv4_def split: option.splits intro: octet_chars dotOctets_chars)

lemma hex_prefix_chars:
  assumes "list_all addr_char (drop (length (takeWhile is_hex s)) s)"
  shows "list_all addr_char s"
proof -
  have "list_all addr_char (takeWhile is_hex s)"
    using set_takeWhileD by (fastforce simp: list_all_iff addr_char_def)
  with assms show ?thesis using takeWhile_drop [of s is_hex] by (metis list_all_append)
qed

lemma ipv6Groups_chars: "ipv6Groups r ell s \<Longrightarrow> list_all addr_char s"
proof (induction r ell s rule: ipv6Groups.induct)
  case (2 r ell s)
  let ?t = "drop (length (takeWhile is_hex s)) s"
  have "parseIPv4 s \<or> list_all addr_char ?t"
  proof (cases ?t)
    case Nil
    then show ?thesis by simp
  next
    case (Cons c u)
    show ?thesis
    proof (cases "c = CHR ''.''")
      case True
      with "2.prems" Cons show ?thesis by (auto simp: Let_def split: if_splits)
    next
      case False
      with "2.prems" Cons have c: "c = CHR '':''" and u: "u \<noteq> []"
        by (auto simp: Let_def split: if_splits)
      have "list_all addr_char u"
      proof (cases "hd u = CHR '':''")
        case True
        with "2.prems" "2.IH"(1) Cons c u have "tl u = [] \<or> list_all addr_char (tl u)"
          by (auto simp: Let_def split: if_splits)
        with True u show ?thesis by (cases u) (auto simp: addr_char_def)
      next
        case False
        with "2.prems" "2.IH"(2) Cons c u show ?thesis
          by (auto simp: Let_def split: if_splits)
      qed
      with Cons c show ?thesis by (simp add: addr_char_def)
    qed
  qed
  then show ?case using parseIPv4_chars hex_prefix_chars by blast
qed simp

lemma ParseIP_chars:
  assumes "ParseIP s"
  shows "list_all addr_char s"
proof -
  have "list_all addr_char s" if "parseIPv6 s"
  proof (cases "HasPrefix s ''::''")
    case True
    then obtain t where t: "s = ''::'' @ t" by (auto simp: HasPrefix_iff)
    with that True have "t = [] \<or> ipv6Groups 8 True t" by (simp add: parseIPv6_def)
    with t show ?thesis using ipv6Groups_chars by (auto simp: addr_char_def)
  next
    case False
    with that show ?thesis by (auto simp: parseIPv6_def intro: ipv6Groups_chars)
  qed
  with assms show ?thesis
    by (auto simp: ParseIP_def split: list.splits if_splits intro: parseIPv4_chars)
qed

lemma comma_not_addr: "\<not> addr_char CHR '',''"
  by (simp add: addr_char_def is_hex_def hexDigit_def)

text \<open>An address holds no comma, so a list of addresses survives being joined by commas.\<close>

lemma ParseIP_no_comma: "ParseIP s \<Longrightarrow> CHR '','' \<notin> set s"
  using ParseIP_chars [of s] comma_not_addr by (auto simp: list_all_iff)

section \<open>Lemmas on resolution\<close>

text \<open>The addresses an endpoint stands for.\<close>

definition addrs_of :: "lookup \<Rightarrow> string \<Rightarrow> string list res" where
  "addrs_of lookup e = (if ParseIP e then Inr [e] else lookup e)"

definition resolvable :: "lookup \<Rightarrow> string list \<Rightarrow> bool" where
  "resolvable lookup es \<longleftrightarrow> list_all (\<lambda>e. \<exists>as. addrs_of lookup e = Inr as) es"

definition addresses :: "lookup \<Rightarrow> string list \<Rightarrow> string set" where
  "addresses lookup es = (\<Union>e \<in> set es. case addrs_of lookup e of Inl _ \<Rightarrow> {} | Inr as \<Rightarrow> set as)"

lemma finite_addresses [simp]: "finite (addresses lookup es)"
  by (auto simp: addresses_def split: sum.splits)

lemma addresses_Nil [simp]: "addresses lookup [] = {}"
  by (simp add: addresses_def)

lemma addresses_Cons:
  "addrs_of lookup e = Inr as \<Longrightarrow> addresses lookup (e # es) = set as \<union> addresses lookup es"
  by (simp add: addresses_def)

lemma addresses_ips:
  assumes "\<forall>e \<in> set es. ParseIP e"
  shows "addresses lookup es = set es" and "resolvable lookup es"
proof -
  show "addresses lookup es = set es"
    using assms by (induction es) (simp_all add: addresses_Cons addrs_of_def)
  show "resolvable lookup es"
    using assms by (simp add: resolvable_def addrs_of_def list_all_iff)
qed

lemma foldl_insert_addrs [simp]:
  "foldl (\<lambda>s ip. Union_sets s (NewString [ip])) S as = S \<union> set as"
  by (induction as arbitrary: S) (auto simp: Union_sets_def NewString_def)

lemma resolveLoop_step:
  "resolveLoop lookup S (e # es) =
     (case addrs_of lookup e of
        Inl err \<Rightarrow> (List_set S, Some err)
      | Inr as \<Rightarrow> resolveLoop lookup (S \<union> set as) es)"
proof (cases "ParseIP e")
  case True
  then show ?thesis by (simp add: addrs_of_def Union_sets_def NewString_def)
next
  case False
  then show ?thesis by (cases "lookup e") (simp_all add: addrs_of_def)
qed

lemma resolveLoop_ok:
  "resolvable lookup es \<Longrightarrow> resolveLoop lookup S es = (List_set (S \<union> addresses lookup es), None)"
proof (induction es arbitrary: S)
  case (Cons e es)
  then obtain as where "addrs_of lookup e = Inr as" by (auto simp: resolvable_def)
  with Cons show ?case
    by (simp add: resolveLoop_step addresses_Cons resolvable_def Un_assoc del: resolveLoop.simps)
qed simp

lemma resolveLoop_error:
  assumes "resolvable lookup es" and "addrs_of lookup e = Inl err"
  shows "resolveLoop lookup S (es @ e # es') = (List_set (S \<union> addresses lookup es), Some err)"
  using assms
proof (induction es arbitrary: S)
  case Nil
  then show ?case by (simp add: resolveLoop_step del: resolveLoop.simps)
next
  case (Cons d es)
  then obtain as where "addrs_of lookup d = Inr as" by (auto simp: resolvable_def)
  with Cons show ?case
    by (simp add: resolveLoop_step addresses_Cons resolvable_def Un_assoc del: resolveLoop.simps)
qed

lemma GetResolvedEndpoints_ok:
  "resolvable lookup es \<Longrightarrow> GetResolvedEndpoints lookup es = (List_set (addresses lookup es), None)"
  by (simp add: GetResolvedEndpoints_def resolveLoop_ok NewString_def)

lemma addresses_ParseIP:
  assumes "lookup_ok lookup" and "a \<in> addresses lookup es"
  shows "ParseIP a"
proof -
  from assms(2) obtain e where e: "a \<in> (case addrs_of lookup e of Inl _ \<Rightarrow> {} | Inr as \<Rightarrow> set as)"
    by (auto simp: addresses_def)
  then obtain as where "addrs_of lookup e = Inr as" "a \<in> set as"
    by (cases "addrs_of lookup e") auto
  with assms(1) show ?thesis
    by (auto simp: addrs_of_def lookup_ok_def list_all_iff split: if_splits)
qed

lemma addresses_nonempty:
  assumes "lookup_ok lookup" and "resolvable lookup es" and "es \<noteq> []"
  shows "addresses lookup es \<noteq> {}"
proof -
  from assms(2,3) obtain e es' as where "es = e # es'" "addrs_of lookup e = Inr as"
    by (cases es) (auto simp: resolvable_def)
  moreover from this assms(1) have "as \<noteq> []"
    by (auto simp: addrs_of_def lookup_ok_def split: if_splits)
  ultimately show ?thesis by (simp add: addresses_Cons)
qed

section \<open>Lemmas on the choice of the zone\<close>

lemma firstContained_None:
  "firstContained nameOf f zs = None \<longleftrightarrow> (\<forall>z \<in> set zs. \<not> Contains f (TrimSuffix (nameOf z) ''.''))"
  by (induction zs) (auto simp: Let_def)

lemma firstContained_Some:
  assumes "firstContained nameOf f zs = Some z"
    and "sorted_wrt (\<lambda>a b. length (nameOf b) \<le> length (nameOf a)) zs"
  shows "z \<in> set zs \<and> Contains f (TrimSuffix (nameOf z) ''.'') \<and>
    (\<forall>z' \<in> set zs. Contains f (TrimSuffix (nameOf z') ''.'') \<longrightarrow> length (nameOf z') \<le> length (nameOf z))"
  using assms by (induction zs) (auto simp: Let_def split: if_splits)

text \<open>A stable sort is one implementation of \<open>sort.Slice\<close>.\<close>

definition sortByLength :: "('z \<Rightarrow> string) \<Rightarrow> 'z list \<Rightarrow> 'z list" where
  "sortByLength nameOf zs = rev (sort_key (\<lambda>z. length (nameOf z)) zs)"

lemma sorts_by_length_sortByLength: "sorts_by_length nameOf (sortByLength nameOf)"
proof -
  have "sorted_wrt (\<lambda>a b. length (nameOf a) \<le> length (nameOf b)) (sort_key (\<lambda>z. length (nameOf z)) zs)"
    for zs :: "'a list"
    using sorted_sort_key [of "\<lambda>z. length (nameOf z)" zs] by (simp add: sorted_map)
  then show ?thesis
    by (simp add: sorts_by_length_def sortByLength_def sorted_wrt_rev)
qed

section \<open>What EnsureDNSRrsets does to the records of a name\<close>

text \<open>
  The records the code compares with (\<open>wanted\<close>), and the records that should be there
  afterwards (\<open>desired\<close>): one A record per address if there are endpoints, a CNAME record
  to the level above if there is one, and nothing otherwise.
\<close>

definition wanted :: "lookup \<Rightarrow> string list \<Rightarrow> string \<Rightarrow> rr set" where
  "wanted lookup endpoints up =
     (if endpoints = [] then {(rrsCNAME, minDNSTTL, up)}
      else (\<lambda>a. (rrsA, minDNSTTL, a)) ` addresses lookup endpoints)"

definition desired :: "lookup \<Rightarrow> string list \<Rightarrow> string \<Rightarrow> rr set" where
  "desired lookup endpoints up =
     (if endpoints = [] \<and> up = [] then {} else wanted lookup endpoints up)"

text \<open>
  Records that \<open>EnsureDNSRrsets\<close> leaves alone although they are not the desired ones: the
  wanted records, and others beside them.
\<close>

definition stale :: "lookup \<Rightarrow> rr set \<Rightarrow> string list \<Rightarrow> string \<Rightarrow> bool" where
  "stale lookup R endpoints up \<longleftrightarrow>
     wanted lookup endpoints up \<subseteq> R \<and> R \<noteq> desired lookup endpoints up"

lemma desired_wanted [simp]:
  "endpoints \<noteq> [] \<or> up \<noteq> [] \<Longrightarrow> desired lookup endpoints up = wanted lookup endpoints up"
  by (auto simp: desired_def)

lemma minDNSTTL_ok [simp]: "ttl_ok minDNSTTL"
  by (simp add: ttl_ok_def minDNSTTL_def)

lemma findRrset_Some:
  "findRrset ops l r = Some e \<Longrightarrow> e \<in> set l \<and> ResourceRecordSetsEquivalent ops r e"
  by (induction ops l r rule: findRrset.induct) (auto split: if_splits)

lemma findRrset_None:
  "findRrset ops l r = None \<longleftrightarrow> (\<forall>e \<in> set l. \<not> ResourceRecordSetsEquivalent ops r e)"
  by (induction ops l r rule: findRrset.induct) (auto simp: ResourceRecordSetsEquivalent_def)

text \<open>
  The three ways through \<open>EnsureDNSRrsets\<close> once the records at the name are read:
  a CNAME record to the level above, no record, and A records for the endpoints.
\<close>

lemma EnsureDNSRrsets_cname:
  assumes "opGet ops n s = Inr rs" and "up \<noteq> []"
  shows "EnsureDNSRrsets lookup (Some ops) n [] up s =
    (case findRrset ops rs (opNew ops n [up] minDNSTTL rrsCNAME) of
       Some found \<Rightarrow> (None, s)
     | None \<Rightarrow> opApply ops (opAdd ops (foldl (opRemove ops) (opStartChangeset ops) rs)
         (opNew ops n [up] minDNSTTL rrsCNAME)) s)"
  using assms by (cases "rs = []") (simp_all add: EnsureDNSRrsets_def GetRrset_def Let_def split: option.split)

lemma EnsureDNSRrsets_none:
  assumes "opGet ops n s = Inr rs"
  shows "EnsureDNSRrsets lookup (Some ops) n [] [] s =
    (if rs = [] then (None, s)
     else case findRrset ops rs (opNew ops n [[]] minDNSTTL rrsCNAME) of
       Some found \<Rightarrow> (None, s)
     | None \<Rightarrow> opApply ops (foldl (opRemove ops) (opStartChangeset ops) rs) s)"
  using assms by (simp add: EnsureDNSRrsets_def GetRrset_def Let_def split: option.split)

lemma EnsureDNSRrsets_addresses:
  assumes "opGet ops n s = Inr rs" and "resolvable lookup eps" and "eps \<noteq> []"
  shows "EnsureDNSRrsets lookup (Some ops) n eps up s =
    (case findRrset ops rs (opNew ops n (List_set (addresses lookup eps)) minDNSTTL rrsA) of
       Some found \<Rightarrow> (None, s)
     | None \<Rightarrow> opApply ops (opAdd ops (foldl (opRemove ops) (opStartChangeset ops) rs)
         (opNew ops n (List_set (addresses lookup eps)) minDNSTTL rrsA)) s)"
  using assms GetResolvedEndpoints_ok [OF assms(2)]
  by (cases "rs = []") (simp_all add: EnsureDNSRrsets_def GetRrset_def Let_def split: option.split)

lemma EnsureDNSRrsets_unresolvable:
  assumes "opGet ops n s = Inr rs" and "resolvable lookup es" and "addrs_of lookup e = Inl err"
  shows "EnsureDNSRrsets lookup (Some ops) n (es @ e # es') up s = (Some err, s)"
  using assms(1) resolveLoop_error [OF assms(2,3), of "NewString []" es']
  by (simp add: EnsureDNSRrsets_def GetRrset_def GetResolvedEndpoints_def Let_def)

context rrset_provider
begin

text \<open>A record set found to be equivalent has its records among those of the name.\<close>

lemma found_subset:
  assumes "invar s" and "name_ok n" and "opGet ops n s = Inr rs"
    and "ds \<noteq> []" and "\<forall>d \<in> set ds. data_ok ty d"
    and "findRrset ops rs (opNew ops n ds minDNSTTL ty) = Some r"
  shows "(\<lambda>d. (ty, minDNSTTL, d)) ` set ds \<subseteq> view s n"
proof -
  have "r \<in> set rs" and "rrs_of ops r = (\<lambda>d. (ty, minDNSTTL, d)) ` set ds"
    using findRrset_Some [OF assms(6)] equivalent_new [OF assms(2,4,5) minDNSTTL_ok] by auto
  moreover obtain rs' where "opGet ops n s = Inr rs'" and "(\<Union>r \<in> set rs'. rrs_of ops r) = view s n"
    using get_view [OF assms(1,2)] by blast
  ultimately show ?thesis using assms(3) by auto
qed

text \<open>Replace the records unless an equivalent set is among them.\<close>

lemma reconcile_existing:
  assumes "invar s" and "name_ok n" and "opGet ops n s = Inr rs"
    and "ds \<noteq> []" and "distinct ds" and "\<forall>d \<in> set ds. data_ok ty d"
    and W: "W = (\<lambda>d. (ty, minDNSTTL, d)) ` set ds"
  shows "\<exists>s'. (case findRrset ops rs (opNew ops n ds minDNSTTL ty) of
        Some found \<Rightarrow> (None, s)
      | None \<Rightarrow> opApply ops (opAdd ops (foldl (opRemove ops) (opStartChangeset ops) rs)
          (opNew ops n ds minDNSTTL ty)) s) = (None, s') \<and> invar s' \<and>
      (view s' = (view s)(n := W) \<or> s' = s \<and> W \<subseteq> view s n)"
proof (cases "findRrset ops rs (opNew ops n ds minDNSTTL ty)")
  case None
  with replace [OF assms(1-6) minDNSTTL_ok] W show ?thesis by auto
next
  case (Some r)
  with found_subset [OF assms(1-4,6)] W assms(1) show ?thesis by auto
qed

text \<open>
  The call succeeds. Either the records at the name become the desired ones and no other name
  changes, or nothing changes because the wanted records are all there already.
\<close>

lemma ensure_outcome:
  assumes inv: "invar s" and n: "name_ok n"
    and res: "resolvable lookup eps" "lookup_ok lookup"
    and dat: "\<forall>a. ParseIP a \<longrightarrow> data_ok rrsA a" "data_ok rrsCNAME up"
  shows "\<exists>s'. EnsureDNSRrsets lookup (Some ops) n eps up s = (None, s') \<and> invar s' \<and>
    (view s' = (view s)(n := desired lookup eps up) \<or> s' = s \<and> wanted lookup eps up \<subseteq> view s n)"
proof -
  obtain rs where get: "opGet ops n s = Inr rs" using get_view [OF inv n] by blast
  have cname: "\<forall>d \<in> set [up]. data_ok rrsCNAME d" using dat(2) by simp
  consider (addresses) "eps \<noteq> []" | (cname) "eps = []" "up \<noteq> []" | (none) "eps = []" "up = []"
    by blast
  then show ?thesis
  proof cases
    case addresses
    let ?ds = "List_set (addresses lookup eps)"
    have ds: "?ds \<noteq> []" "distinct ?ds" "\<forall>d \<in> set ?ds. data_ok rrsA d"
      using addresses_nonempty [OF res(2,1) addresses] addresses_ParseIP [OF res(2)] dat(1) by auto
    have W: "wanted lookup eps up = (\<lambda>d. (rrsA, minDNSTTL, d)) ` set ?ds"
      using addresses by (simp add: wanted_def)
    from reconcile_existing [OF inv n get ds W] addresses show ?thesis
      by (simp add: EnsureDNSRrsets_addresses [OF get res(1) addresses])
  next
    case cname
    have W: "wanted lookup eps up = (\<lambda>d. (rrsCNAME, minDNSTTL, d)) ` set [up]"
      using cname by (simp add: wanted_def)
    from reconcile_existing [OF inv n get _ _ \<open>\<forall>d \<in> set [up]. data_ok rrsCNAME d\<close> W] cname
    show ?thesis by (simp add: EnsureDNSRrsets_cname [OF get])
  next
    case none
    then have D: "desired lookup eps up = {}" and W: "wanted lookup eps up = {(rrsCNAME, minDNSTTL, up)}"
      by (simp_all add: desired_def wanted_def)
    show ?thesis
    proof (cases "rs = []")
      case True
      then have "view s n = {}" using get_empty_iff [OF inv n get] by simp
      with True none D inv show ?thesis by (simp add: EnsureDNSRrsets_none [OF get] fun_upd_idem)
    next
      case False
      show ?thesis
      proof (cases "findRrset ops rs (opNew ops n [[]] minDNSTTL rrsCNAME)")
        case None
        with clear [OF inv n get False] False none D show ?thesis
          by (auto simp: EnsureDNSRrsets_none [OF get])
      next
        case (Some r)
        with found_subset [OF inv n get, of "[[]]" rrsCNAME r] False none W inv
          \<open>\<forall>d \<in> set [up]. data_ok rrsCNAME d\<close> show ?thesis
          by (auto simp: EnsureDNSRrsets_none [OF get])
      qed
    qed
  qed
qed

text \<open>
  Unless they are stale, the records at the name become exactly the desired ones.
\<close>

lemma ensure_exact:
  assumes "invar s" and "name_ok n"
    and "resolvable lookup eps" "lookup_ok lookup"
    and "\<forall>a. ParseIP a \<longrightarrow> data_ok rrsA a" "data_ok rrsCNAME up"
    and "\<not> stale lookup (view s n) eps up"
  shows "\<exists>s'. EnsureDNSRrsets lookup (Some ops) n eps up s = (None, s') \<and> invar s' \<and>
    view s' = (view s)(n := desired lookup eps up)"
  using ensure_outcome [OF assms(1-6)] assms(7) unfolding stale_def by (metis fun_upd_idem)

text \<open>A second call with the same arguments changes nothing a resolver can see.\<close>

lemma ensure_idem:
  assumes inv: "invar s" and n: "name_ok n"
    and res: "resolvable lookup eps" "lookup_ok lookup"
    and dat: "\<forall>a. ParseIP a \<longrightarrow> data_ok rrsA a" "data_ok rrsCNAME up"
    and first: "EnsureDNSRrsets lookup (Some ops) n eps up s = (None, s1)"
  shows "\<exists>s2. EnsureDNSRrsets lookup (Some ops) n eps up s1 = (None, s2) \<and> invar s2 \<and> view s2 = view s1"
proof -
  have one: "invar s1" and out:
    "view s1 = (view s)(n := desired lookup eps up) \<or> s1 = s \<and> wanted lookup eps up \<subseteq> view s n"
    using ensure_outcome [OF inv n res dat] first by auto
  show ?thesis
  proof (cases "s1 = s")
    case True
    with first one show ?thesis by auto
  next
    case False
    with out have "view s1 n = desired lookup eps up" by simp
    with ensure_outcome [OF one n res dat] show ?thesis by (metis fun_upd_idem)
  qed
qed

end

section \<open>Properties\<close>


definition example_lookup :: lookup where
  "example_lookup h =
     (if h = ''lb.example.com'' then Inr [''10.0.0.2'', ''10.0.0.1''] else Inl (External ''no such host''))"

lemma example_lookup_ok: "lookup_ok example_lookup"
proof -
  have "ParseIP ''10.0.0.2''" "ParseIP ''10.0.0.1''" by code_simp+
  then show ?thesis by (simp add: lookup_ok_def example_lookup_def)
qed


text \<open>
  Resolution stops at the first endpoint that is neither an address nor a resolvable name,
  with the resolver's error and the sorted addresses of the endpoints before it;
  \<open>EnsureDNSRrsets\<close> then returns that error and leaves the DNS as it is.
\<close>

theorem unresolvable_endpoint:
  assumes "resolvable lookup es" and "\<not> ParseIP e" and "lookup e = Inl err"
    and "opGet ops n s = Inr rs"
  shows "GetResolvedEndpoints lookup (es @ e # es') = (List_set (addresses lookup es), Some err) \<and>
    EnsureDNSRrsets lookup (Some ops) n (es @ e # es') up s = (Some err, s)"
proof -
  have e: "addrs_of lookup e = Inl err" using assms(2,3) by (simp add: addrs_of_def)
  show ?thesis
    using resolveLoop_error [OF assms(1) e, of "NewString []"]
      EnsureDNSRrsets_unresolvable [OF assms(4,1) e]
    by (simp add: GetResolvedEndpoints_def NewString_def)
qed

theorem unresolvable_endpoint_witness:
  "snd (GetResolvedEndpoints example_lookup ([''10.0.0.1''] @ ''nowhere'' # [''10.0.0.3''])) =
   Some (External ''no such host'')"
proof -
  have ip: "ParseIP ''10.0.0.1''" "\<not> ParseIP ''nowhere''" by code_simp+
  then have "resolvable example_lookup [''10.0.0.1'']" by (simp add: resolvable_def addrs_of_def)
  from unresolvable_endpoint [OF this ip(2), of "External ''no such host''"
      "\<lparr>opGet = \<lambda>_ _. Inr [], opNew = \<lambda>_ _ _ _. (), opStartChangeset = (), opAdd = \<lambda>_ _. (),
        opRemove = \<lambda>_ _. (), opApply = \<lambda>_ s. (None, s), opName = \<lambda>_. [], opRrdatas = \<lambda>_. [],
        opTtl = \<lambda>_. 0, opType = \<lambda>_. []\<rparr>" _ "()"]
  show ?thesis by (simp add: example_lookup_def)
qed



text \<open>
  Containment is not being a parent domain. For a domain under \<open>org\<close> that merely
  contains the text \<open>example.com\<close>, the zone \<open>example.com\<close> is chosen although \<open>org\<close>
  is the only zone of the list the domain lies in.
\<close>

theorem GetDNSZone_not_suffix:
  "GetDNSZone (sortByLength (\<lambda>z. z)) (\<lambda>z. z) ''example.com.mirror.org'' (Inr [''org'', ''example.com'']) =
     Inr (Some ''example.com'') \<and>
   \<not> HasSuffix ''example.com.mirror.org'' ''.example.com'' \<and> HasSuffix ''example.com.mirror.org'' ''.org''"
  by (simp add: GetDNSZone_def sortByLength_def TrimSuffix_def HasSuffix_def HasPrefix_def)

lemma ParseIP_ipv6_example: "ParseIP ''2001:db8::1''"
proof -
  have eight: "(8::nat) = Suc (Suc (Suc (Suc (Suc (Suc (Suc (Suc 0)))))))" by simp
  show ?thesis
    unfolding ParseIP_def parseIPv6_def eight
    by (simp add: HasPrefix_def Let_def is_hex_def hexDigit_def hexVal_def ipv6End_def cong: if_weak_cong)
qed

text \<open>
  The resolver's answers are not restricted to IPv4: an IPv6 endpoint passes as an address
  and ends up in the list that is published as A records.
\<close>

theorem ipv6_endpoint_accepted:
  "GetResolvedEndpoints lookup [''2001:db8::1''] = ([''2001:db8::1''], None)"
proof -
  define e where "e = ''2001:db8::1''"
  have "ParseIP e" unfolding e_def by (rule ParseIP_ipv6_example)
  then have "addrs_of lookup e = Inr [e]" by (simp add: addrs_of_def)
  then have "GetResolvedEndpoints lookup [e] = (List_set {e}, None)"
    using GetResolvedEndpoints_ok [of lookup "[e]"] by (simp add: resolvable_def addresses_Cons)
  then show ?thesis by (simp add: List_set_def e_def)
qed

end
