(* ===== verification/Workqueue.thy ===== *)
theory Workqueue
  imports Go_Prelude
begin

text \<open>
  The work queue of \<open>client-go/util/workqueue/queue.go\<close>, which feeds the DNS controller.
  The condition variable is the guard of the blocking \<open>Get\<close>: it returns \<open>None\<close> while
  the caller has to wait. Every method holds the queue's lock for all of its body, so a run
  of producers and workers is a sequence of these operations in some order, which the step
  relation \<open>wq_step\<close> makes explicit.
\<close>

section \<open>The queue\<close>

record 'a wq =
  queue :: "'a list"
  dirty :: "'a set"
  processing :: "'a set"
  shuttingDown :: bool

definition wqNew :: "'a wq" where
  "wqNew = \<lparr>queue = [], dirty = {}, processing = {}, shuttingDown = False\<rparr>"

definition wqAdd :: "'a \<Rightarrow> 'a wq \<Rightarrow> 'a wq" where
  "wqAdd item q =
     (if shuttingDown q then q
      else if item \<in> dirty q then q
      else
        let q = q\<lparr>dirty := insert item (dirty q)\<rparr> in
        if item \<in> processing q then q else q\<lparr>queue := queue q @ [item]\<rparr>)"

definition wqLen :: "'a wq \<Rightarrow> nat" where
  "wqLen q = length (queue q)"

text \<open>\<open>None\<close>: the caller waits. \<open>Some (None, q)\<close>: shutdown. \<open>Some (Some item, q)\<close>: an item.\<close>

definition wqGet :: "'a wq \<Rightarrow> ('a option \<times> 'a wq) option" where
  "wqGet q =
     (case queue q of
        [] \<Rightarrow> if shuttingDown q then Some (None, q) else None
      | item # rest \<Rightarrow>
          Some (Some item,
            q\<lparr>queue := rest, processing := insert item (processing q),
              dirty := dirty q - {item}\<rparr>))"

definition wqDone :: "'a \<Rightarrow> 'a wq \<Rightarrow> 'a wq" where
  "wqDone item q =
     (let q = q\<lparr>processing := processing q - {item}\<rparr> in
      if item \<in> dirty q then q\<lparr>queue := queue q @ [item]\<rparr> else q)"

definition wqShutDown :: "'a wq \<Rightarrow> 'a wq" where
  "wqShutDown q = q\<lparr>shuttingDown := True\<rparr>"

section \<open>Runs of the queue\<close>

text \<open>
  A worker marks as done only an item it was given. The producers add and shut down at any
  time.
\<close>

inductive wq_step :: "'a wq \<Rightarrow> 'a wq \<Rightarrow> bool" where
  step_add: "wq_step q (wqAdd item q)"
| step_get: "wqGet q = Some (Some item, q') \<Longrightarrow> wq_step q q'"
| step_done: "item \<in> processing q \<Longrightarrow> wq_step q (wqDone item q)"
| step_shutdown: "wq_step q (wqShutDown q)"

inductive wq_reach :: "'a wq \<Rightarrow> bool" where
  reach_new: "wq_reach wqNew"
| reach_step: "wq_reach q \<Longrightarrow> wq_step q q' \<Longrightarrow> wq_reach q'"

inductive_cases wq_stepE: "wq_step q q'"

section \<open>The invariant\<close>

text \<open>
  The comment in the code: every element of \<open>queue\<close> is in the dirty set and not in the
  processing set. Conversely every dirty item that is not being processed is queued, so no
  item is forgotten, and no item is queued twice.
\<close>

definition wq_inv :: "'a wq \<Rightarrow> bool" where
  "wq_inv q \<longleftrightarrow>
     distinct (queue q) \<and> set (queue q) = dirty q - processing q \<and>
     finite (dirty q) \<and> finite (processing q)"

lemma wq_inv_new: "wq_inv wqNew"
  by (simp add: wq_inv_def wqNew_def)

lemma wq_inv_add: "wq_inv q \<Longrightarrow> wq_inv (wqAdd item q)"
  by (auto simp: wq_inv_def wqAdd_def Let_def)

lemma wq_inv_get: "wq_inv q \<Longrightarrow> wqGet q = Some (r, q') \<Longrightarrow> wq_inv q'"
  by (auto simp: wq_inv_def wqGet_def split: list.splits if_splits)

lemma wq_inv_done: "wq_inv q \<Longrightarrow> item \<in> processing q \<Longrightarrow> wq_inv (wqDone item q)"
  by (auto simp: wq_inv_def wqDone_def Let_def)

lemma wq_inv_shutdown: "wq_inv q \<Longrightarrow> wq_inv (wqShutDown q)"
  by (simp add: wq_inv_def wqShutDown_def)

lemma wq_inv_step: "wq_step q q' \<Longrightarrow> wq_inv q \<Longrightarrow> wq_inv q'"
  by (induction rule: wq_step.induct)
    (simp_all add: wq_inv_add wq_inv_done wq_inv_shutdown wq_inv_get)

lemma wq_reach_inv: "wq_reach q \<Longrightarrow> wq_inv q"
  by (induction rule: wq_reach.induct) (auto intro: wq_inv_new wq_inv_step)

section \<open>What the queue promises its users\<close>

text \<open>The items that will still be handed out: the dirty ones.\<close>

lemma add_dirty: "\<not> shuttingDown q \<Longrightarrow> dirty (wqAdd item q) = insert item (dirty q)"
  by (auto simp: wqAdd_def Let_def)

lemma add_after_shutdown: "shuttingDown q \<Longrightarrow> wqAdd item q = q"
  by (simp add: wqAdd_def)

lemma wqGet_Cons:
  "queue q = item # rest \<Longrightarrow> wqGet q = Some (Some item,
     q\<lparr>queue := rest, processing := insert item (processing q), dirty := dirty q - {item}\<rparr>)"
  by (simp add: wqGet_def)

lemma wqGet_ItemE:
  assumes "wqGet q = Some (Some item, q')"
  obtains rest where "queue q = item # rest"
    and "q' = q\<lparr>queue := rest, processing := insert item (processing q), dirty := dirty q - {item}\<rparr>"
  using assms by (cases "queue q") (auto simp: wqGet_def split: if_splits)

lemma get_fresh:
  assumes "wq_inv q" and "wqGet q = Some (Some item, q')"
  shows "item \<notin> processing q \<and> item \<in> processing q' \<and> item \<notin> dirty q' \<and>
    dirty q = insert item (dirty q')"
proof -
  obtain rest where q: "queue q = item # rest"
    and q': "q' = q\<lparr>queue := rest, processing := insert item (processing q), dirty := dirty q - {item}\<rparr>"
    using assms(2) by (rule wqGet_ItemE)
  have "item \<in> dirty q - processing q" using assms(1) q by (auto simp: wq_inv_def)
  then show ?thesis by (auto simp: q')
qed

lemma get_waits_iff:
  assumes "wq_inv q"
  shows "wqGet q = None \<longleftrightarrow> dirty q \<subseteq> processing q \<and> \<not> shuttingDown q"
proof (cases "queue q")
  case Nil
  with assms have "dirty q - processing q = {}" by (simp add: wq_inv_def)
  with Nil show ?thesis by (auto simp: wqGet_def)
next
  case (Cons item rest)
  with assms have "item \<in> dirty q - processing q" by (auto simp: wq_inv_def)
  with Cons show ?thesis by (auto simp: wqGet_def)
qed

lemma get_quit_iff:
  "wqGet q = Some (None, q') \<longleftrightarrow> queue q = [] \<and> shuttingDown q \<and> q' = q"
  by (cases "queue q") (auto simp: wqGet_def)

lemma done_requeues:
  assumes "item \<in> dirty q"
  shows "queue (wqDone item q) = queue q @ [item] \<and> dirty (wqDone item q) = dirty q"
  using assms by (simp add: wqDone_def Let_def)

section \<open>Serving a queue\<close>

text \<open>
  A worker takes an item, handles it, marks it as done and goes on until the queue tells it
  to quit. The loop may wait for ever, so it has fuel; the result says why it stopped.
\<close>

datatype 's served = Quit 's | Blocked 's | Crashed error 's | OutOfFuel 's

fun serve :: "('q \<Rightarrow> ('a option \<times> 'q) option) \<Rightarrow> ('a \<Rightarrow> 'q \<Rightarrow> 'q) \<Rightarrow>
    ('a \<Rightarrow> 's \<Rightarrow> error option \<times> 's) \<Rightarrow> nat \<Rightarrow> 'q \<Rightarrow> 's \<Rightarrow> 'q \<times> 's served" where
  "serve get finish handle 0 q s = (q, OutOfFuel s)"
| "serve get finish handle (Suc n) q s =
     (case get q of
        None \<Rightarrow> (q, Blocked s)
      | Some (None, q') \<Rightarrow> (q', Quit s)
      | Some (Some item, q') \<Rightarrow>
          (case handle item s of
             (Some e, s') \<Rightarrow> (finish item q', Crashed e s')
           | (None, s') \<Rightarrow> serve get finish handle n (finish item q') s'))"

text \<open>
  The contract of a queue that one worker serves: items come out in the order of
  \<open>pending\<close>, taking and finishing an item removes it, and a closed empty queue says quit.
\<close>

locale work_queue =
  fixes get :: "'q \<Rightarrow> ('a option \<times> 'q) option"
    and finish :: "'a \<Rightarrow> 'q \<Rightarrow> 'q"
    and invar :: "'q \<Rightarrow> bool"
    and pending :: "'q \<Rightarrow> 'a list"
    and closed :: "'q \<Rightarrow> bool"
  assumes take_finish: "invar q \<Longrightarrow> pending q = x # xs \<Longrightarrow>
      \<exists>q'. get q = Some (Some x, q') \<and> invar (finish x q') \<and> pending (finish x q') = xs
        \<and> closed (finish x q') = closed q"
    and take_empty: "invar q \<Longrightarrow> pending q = [] \<Longrightarrow>
      get q = (if closed q then Some (None, q) else None)"
begin

text \<open>With more fuel than items, a worker of a closed queue handles them all in order and quits.\<close>

lemma serve_all:
  assumes "invar q" and "length (pending q) < n" and "\<And>x s. x \<in> set (pending q) \<Longrightarrow> fst (handle x s) = None"
  shows "\<exists>q'. serve get finish handle n q s =
      (q', (if closed q then Quit else Blocked) (foldl (\<lambda>s x. snd (handle x s)) s (pending q)))
    \<and> invar q' \<and> pending q' = [] \<and> closed q' = closed q"
  using assms
proof (induction n arbitrary: q s)
  case (Suc n)
  show ?case
  proof (cases "pending q")
    case Nil
    with Suc.prems(1) take_empty [of q] show ?thesis by simp
  next
    case (Cons x xs)
    with take_finish [OF Suc.prems(1) Cons] obtain q1 where
      q1: "get q = Some (Some x, q1)" "invar (finish x q1)" "pending (finish x q1) = xs"
        "closed (finish x q1) = closed q"
      by blast
    obtain s1 where s1: "handle x s = (None, s1)"
      using Suc.prems(3) [of x s] Cons by (cases "handle x s") auto
    have "\<exists>q'. serve get finish handle n (finish x q1) s1 =
        (q', (if closed q then Quit else Blocked) (foldl (\<lambda>s x. snd (handle x s)) s1 xs))
      \<and> invar q' \<and> pending q' = [] \<and> closed q' = closed q"
      using Suc.IH [of "finish x q1" s1] Suc.prems q1 Cons by simp
    with q1 s1 Cons show ?thesis by simp
  qed
qed simp

end

definition quiet :: "'a wq \<Rightarrow> bool" where
  "quiet q \<longleftrightarrow> wq_inv q \<and> processing q = {}"

interpretation one_worker: work_queue wqGet wqDone quiet queue shuttingDown
proof unfold_locales
  fix q :: "'a wq" and x xs assume q: "quiet q" "queue q = x # xs"
  then have "dirty q = set (x # xs)" "distinct (x # xs)"
    by (auto simp: quiet_def wq_inv_def)
  with q show "\<exists>q'. wqGet q = Some (Some x, q') \<and> quiet (wqDone x q') \<and> queue (wqDone x q') = xs
      \<and> shuttingDown (wqDone x q') = shuttingDown q"
    by (auto simp: wqGet_Cons wqDone_def quiet_def wq_inv_def)
next
  fix q :: "'a wq" assume "quiet q" "queue q = []"
  then show "wqGet q = (if shuttingDown q then Some (None, q) else None)"
    by (simp add: wqGet_def)
qed

section \<open>Properties\<close>

text \<open>
  C20: in every state the producers and workers can reach, each queued item is marked dirty and
  is not being processed, each dirty item that is not being processed is queued (so no work is
  lost), and no item is queued twice.
\<close>

theorem workqueue_invariant:
  assumes "wq_reach q"
  shows "distinct (queue q) \<and> set (queue q) = dirty q - processing q"
  using wq_reach_inv [OF assms] by (simp add: wq_inv_def)

theorem workqueue_invariant_witness:
  "wq_reach (wqAdd (1::nat) wqNew) \<and> set (queue (wqAdd (1::nat) wqNew)) = {1}"
proof -
  have r: "wq_reach (wqAdd (1::nat) wqNew)"
    by (rule reach_step [OF reach_new step_add])
  from workqueue_invariant [OF r] r show ?thesis by (simp add: wqAdd_def wqNew_def)
qed

text \<open>
  An item is handed to one worker at a time: \<open>Get\<close> never returns an item that is being
  processed, and an item that is added while it is processed is queued again when it is done.
\<close>

theorem workqueue_exclusive:
  assumes "wq_reach q" and "wqGet q = Some (Some item, q')"
  shows "item \<notin> processing q \<and> item \<in> processing q' \<and>
    (\<not> shuttingDown q' \<longrightarrow>
       queue (wqAdd item q') = queue q' \<and> queue (wqDone item (wqAdd item q')) = queue q' @ [item])"
proof -
  have g: "item \<notin> processing q" "item \<in> processing q'" "item \<notin> dirty q'"
    using get_fresh [OF wq_reach_inv [OF assms(1)] assms(2)] by blast+
  then show ?thesis by (simp add: wqAdd_def wqDone_def Let_def)
qed

theorem workqueue_exclusive_witness:
  "\<exists>q'. wqGet (wqAdd (1::nat) wqNew) = Some (Some 1, q') \<and> 1 \<in> processing q'"
proof -
  have r: "wq_reach (wqAdd (1::nat) wqNew)"
    by (rule reach_step [OF reach_new step_add])
  obtain q' where g: "wqGet (wqAdd (1::nat) wqNew) = Some (Some 1, q')"
    by (simp add: wqGet_def wqAdd_def wqNew_def)
  from workqueue_exclusive [OF r g] g show ?thesis by blast
qed

end
