(* ===== verification/Ingress_DNS.thy ===== *)
theory Ingress_DNS
  imports DNS_Util LB_Annotation Workqueue
begin

text \<open>
  The DNS controller of \<open>pkg/controller/ingress/dns/dns.go\<close>: it publishes the addresses
  of a federated ingress under three names (zone, region and global level). The state
  \<open>'s\<close> is the DNS service behind the provider. What the controller asks of others is the
  record \<open>dns_env\<close>: the cluster registry of the federation API server, the resolver, and
  the order in which \<open>range\<close> visits the map of statuses. The clusters are read as they are during one
  call.
\<close>

section \<open>The controller\<close>

record dns_env =
  getCluster :: "string \<Rightarrow> Cluster res"
  lookupHost :: lookup
  rangeOrder :: "lb_map \<Rightarrow> lb_map"

record ('s, 'z, 'r, 'c) IngressDNSController =
  dns :: "('s, 'z, 'r, 'c) provider option"
  domain :: string
  federationName :: string
  ingressDNSSuffix :: string
  dnsZone :: "'z option"
  dnsZones :: "('s, 'z, 'r, 'c) zones_ops option"
  workQueue :: "(nat \<times> Ingress) wq"

definition defaultIngressSeperator :: string where
  "defaultIngressSeperator = ''ing''"

definition globalIngressLBStatus :: string where
  "globalIngressLBStatus = ''kubernetes.io/ingress.global-ingress-lb-status''"

section \<open>Construction\<close>

definition validateConfig ::
  "('s, 'z, 'r, 'c) IngressDNSController \<Rightarrow> ('s, 'z, 'r, 'c) IngressDNSController res" where
  "validateConfig idc =
     (if federationName idc = [] then
        Inl (Errorf ''DNSController should not be run without federationName'')
      else if domain idc = [] then Inl (Errorf ''DNSController must be run with a domain'')
      else case dns idc of
        None \<Rightarrow> Inl (Errorf ''DNSController should not be run without a dnsprovider'')
      | Some p \<Rightarrow>
          (case prZones p of
             None \<Rightarrow> Inl (Errorf ''the dns provider does not support zone enumeration'')
           | Some zones \<Rightarrow> Inr (idc\<lparr>dnsZones := Some zones\<rparr>)))"

text \<open>
  \<open>dnsZones\<close> is nil only before \<open>validateConfig\<close> has run; calling a method of a nil
  interface panics.
\<close>

definition retrieveOrCreateDNSZone ::
  "('z list \<Rightarrow> 'z list) \<Rightarrow> ('s, 'z, 'r, 'c) IngressDNSController \<Rightarrow> 's \<Rightarrow>
   ('s, 'z, 'r, 'c) IngressDNSController res" where
  "retrieveOrCreateDNSZone sortSlice idc s =
     (case dnsZones idc of
        None \<Rightarrow> Inl (Panic NilDereference)
      | Some zones \<Rightarrow>
          (case GetDNSZone sortSlice (zsName zones) (domain idc) (zsList zones s) of
             Inl err \<Rightarrow> Inl (wrap ''error querying for DNS zones'' err)
           | Inr None \<Rightarrow>
               if domain idc = [] then
                 Inl (Errorf ''DNSController must be run with domain to create zone automatically'')
               else
                 (case zsNew zones (domain idc) s of
                    Inl err \<Rightarrow> Inl err
                  | Inr newZone \<Rightarrow> Inr (idc\<lparr>dnsZone := Some newZone\<rparr>))
           | Inr (Some zone) \<Rightarrow> Inr (idc\<lparr>dnsZone := Some zone\<rparr>)))"

definition newIngressDNSController ::
  "('z list \<Rightarrow> 'z list) \<Rightarrow> ('s, 'z, 'r, 'c) provider option \<Rightarrow> string \<Rightarrow> string \<Rightarrow> string \<Rightarrow> 's \<Rightarrow>
   ('s, 'z, 'r, 'c) IngressDNSController res" where
  "newIngressDNSController sortSlice p federation sfx domainName s =
     (let sfx = (if sfx = [] then defaultIngressSeperator else sfx);
          d = \<lparr>dns = p, domain = domainName, federationName = federation, ingressDNSSuffix = sfx,
               dnsZone = None, dnsZones = None, workQueue = wqNew\<rparr>
      in case validateConfig d of
           Inl err \<Rightarrow> Inl err
         | Inr d \<Rightarrow>
             (case retrieveOrCreateDNSZone sortSlice d s of
                Inl err \<Rightarrow> Inl err
              | Inr d \<Rightarrow> Inr d))"

text \<open>\<open>initDnsProvider\<close> is \<open>dnsprovider.InitDnsProvider\<close>.\<close>

definition NewIngressDNSController ::
  "(string \<Rightarrow> string \<Rightarrow> 's \<Rightarrow> ('s, 'z, 'r, 'c) provider option res) \<Rightarrow> ('z list \<Rightarrow> 'z list) \<Rightarrow>
   string \<Rightarrow> string \<Rightarrow> string \<Rightarrow> string \<Rightarrow> string \<Rightarrow> 's \<Rightarrow> ('s, 'z, 'r, 'c) IngressDNSController res" where
  "NewIngressDNSController initDnsProvider sortSlice dnsProvider dnsProviderConfig federation sfx domainName s =
     (case initDnsProvider dnsProvider dnsProviderConfig s of
        Inl err \<Rightarrow> Inl err
      | Inr p \<Rightarrow> newIngressDNSController sortSlice p federation sfx domainName s)"

section \<open>The healthy endpoints\<close>

definition wantsDNSRecords :: "Ingress \<Rightarrow> bool" where
  "wantsDNSRecords ingress \<longleftrightarrow> 0 < length (lbsIngress (inStatus ingress))"

text \<open>\<open>None\<close> is the nil pointer the function returns when the annotation is absent.\<close>

definition parseGlobalLbStatusAnnotation :: "dns_env \<Rightarrow> Ingress \<Rightarrow> lb_map option res" where
  "parseGlobalLbStatusAnnotation env ingress =
     (case map_of (omAnnotations (inMeta ingress)) globalIngressLBStatus of
        None \<Rightarrow> Inr None
      | Some globalLbStatString \<Rightarrow>
          (case unmarshalLbStatus globalLbStatString of
             Inl err \<Rightarrow> Inl err
           | Inr globalLbStat \<Rightarrow> Inr (Some (rangeOrder env globalLbStat))))"

definition getClusterZoneNames :: "dns_env \<Rightarrow> string \<Rightarrow> (string list option \<times> string) res" where
  "getClusterZoneNames env clusterName =
     (case getCluster env clusterName of
        Inl err \<Rightarrow> Inl err
      | Inr cluster \<Rightarrow> Inr (clZones cluster, clRegion cluster))"

text \<open>Ranging over a nil slice visits nothing.\<close>

definition names_of :: "string list option \<Rightarrow> string list" where
  "names_of zones = (case zones of None \<Rightarrow> [] | Some zs \<Rightarrow> zs)"

type_synonym levels = "string list \<times> string list \<times> string list"

definition lbAddress :: "LoadBalancerIngress \<Rightarrow> string" where
  "lbAddress i = (if lbIP i \<noteq> [] then lbIP i else if lbHostname i \<noteq> [] then lbHostname i else [])"

definition addEndpoint ::
  "string list \<Rightarrow> string \<Rightarrow> string list \<Rightarrow> string \<Rightarrow> LoadBalancerIngress \<Rightarrow> levels \<Rightarrow> levels res" where
  "addEndpoint zoneNames regionName lbZoneNames lbRegionName lbIngress acc =
     (let address = lbAddress lbIngress; (zoneEps, regionEps, globalEps) = acc in
      if length address \<le> 0 then
        Inl (Errorf ''Ingress has neither LoadBalancerStatus.ingress.ip nor LoadBalancerStatus.ingress.hostname'')
      else
        Inr (foldl (\<lambda>eps lbZoneName.
                foldl (\<lambda>eps zoneName. if lbZoneName = zoneName then eps @ [address] else eps)
                  eps zoneNames) zoneEps lbZoneNames,
             if lbRegionName = regionName then regionEps @ [address] else regionEps,
             globalEps @ [address]))"

definition clusterEndpoints ::
  "dns_env \<Rightarrow> string list \<Rightarrow> string \<Rightarrow> string \<times> LoadBalancerStatus list \<Rightarrow> levels \<Rightarrow> levels res" where
  "clusterEndpoints env zoneNames regionName entry acc =
     (let (lbClusterName, lbStatuses) = entry in
      case getClusterZoneNames env lbClusterName of
        Inl err \<Rightarrow> Inl err
      | Inr (lbZoneNames, lbRegionName) \<Rightarrow>
          for_each (\<lambda>lbStatus.
            for_each (addEndpoint zoneNames regionName (names_of lbZoneNames) lbRegionName)
              (lbsIngress lbStatus)) lbStatuses acc)"

text \<open>Dereferencing the nil pointer of a missing annotation panics.\<close>

definition getHealthyEndpoints :: "dns_env \<Rightarrow> string \<Rightarrow> Ingress \<Rightarrow> levels res" where
  "getHealthyEndpoints env clusterName ingress =
     (case getClusterZoneNames env clusterName of
        Inl err \<Rightarrow> Inl err
      | Inr (zoneNames, regionName) \<Rightarrow>
          if omDeletionTimestamp (inMeta ingress) \<noteq> None then Inr ([], [], [])
          else
            (case parseGlobalLbStatusAnnotation env ingress of
               Inl err \<Rightarrow> Inl err
             | Inr None \<Rightarrow> Inl (Panic NilDereference)
             | Inr (Some globalIngLbStatuses) \<Rightarrow>
                 for_each (clusterEndpoints env (names_of zoneNames) regionName)
                   globalIngLbStatuses ([], [], [])))"

section \<open>Ensuring the records of an ingress\<close>

definition commonPrefix :: "('s, 'z, 'r, 'c) IngressDNSController \<Rightarrow> Ingress \<Rightarrow> string" where
  "commonPrefix idc ingress =
     omName (inMeta ingress) @ ''.'' @ omNamespace (inMeta ingress) @ ''.'' @ federationName idc @
     ''.'' @ ingressDNSSuffix idc"

definition dnsNames ::
  "('s, 'z, 'r, 'c) IngressDNSController \<Rightarrow> Ingress \<Rightarrow> string \<Rightarrow> string \<Rightarrow> string list" where
  "dnsNames idc ingress zoneName regionName =
     (let commonPrefix = commonPrefix idc ingress in
      [Join [commonPrefix, zoneName, regionName, domain idc] ''.'',
       Join [commonPrefix, regionName, domain idc] ''.'',
       Join [commonPrefix, domain idc] ''.'',
       []])"

fun ensureLevels ::
  "lookup \<Rightarrow> ('s, 'r, 'c) rrsets_ops option \<Rightarrow> string list \<Rightarrow> nat \<Rightarrow> string list list \<Rightarrow> 's \<Rightarrow>
   error option \<times> 's" where
  "ensureLevels lookup rrsets names i [] s = (None, s)"
| "ensureLevels lookup rrsets names i (endpoint # endpoints) s =
     (case EnsureDNSRrsets lookup rrsets (names ! i) endpoint (names ! (i + 1)) s of
        (Some err, s') \<Rightarrow> (Some err, s')
      | (None, s') \<Rightarrow> ensureLevels lookup rrsets names (i + 1) endpoints s')"

text \<open>
  \<open>zoneNames[0]\<close> panics when the slice is empty and not nil. A controller that was
  constructed has its zone and its zones; calling a method of a nil zone would panic.
\<close>

definition ensureDNSRecords ::
  "dns_env \<Rightarrow> ('s, 'z, 'r, 'c) IngressDNSController \<Rightarrow> string \<Rightarrow> Ingress \<Rightarrow> 's \<Rightarrow> error option \<times> 's" where
  "ensureDNSRecords env idc clusterName ingress s =
     (case getClusterZoneNames env clusterName of
        Inl err \<Rightarrow> (Some err, s)
      | Inr (None, regionName) \<Rightarrow> (Some (Errorf ''failed to get cluster zone names''), s)
      | Inr (Some zoneNames, regionName) \<Rightarrow>
          (case getHealthyEndpoints env clusterName ingress of
             Inl err \<Rightarrow> (Some err, s)
           | Inr (zoneEndpoints, regionEndpoints, globalEndpoints) \<Rightarrow>
               (case zoneNames of
                  [] \<Rightarrow> (Some (Panic IndexOutOfRange), s)
                | zoneName # _ \<Rightarrow>
                    (case (dnsZones idc, dnsZone idc) of
                       (Some zones, Some zone) \<Rightarrow>
                         ensureLevels (lookupHost env) (zsRrsets zones zone)
                           (dnsNames idc ingress zoneName regionName) 0
                           [zoneEndpoints, regionEndpoints, globalEndpoints] s
                     | _ \<Rightarrow> (Some (Panic NilDereference), s)))))"

section \<open>The worker\<close>

text \<open>Errors of \<open>ensureDNSRecords\<close> are dropped; only a panic ends the loop.\<close>

definition ensureCluster ::
  "dns_env \<Rightarrow> ('s, 'z, 'r, 'c) IngressDNSController \<Rightarrow> Ingress \<Rightarrow> string \<Rightarrow> 's \<Rightarrow> error option \<times> 's" where
  "ensureCluster env idc ingress clusterName s =
     (case ensureDNSRecords env idc clusterName ingress s of
        (Some err, s') \<Rightarrow> (if is_panic err then Some err else None, s')
      | (None, s') \<Rightarrow> (None, s'))"

text \<open>The body of \<open>workerFunction\<close> for one item; the result is a panic, if there is one.\<close>

definition workItem ::
  "dns_env \<Rightarrow> ('s, 'z, 'r, 'c) IngressDNSController \<Rightarrow> nat \<times> Ingress \<Rightarrow> 's \<Rightarrow> error option \<times> 's" where
  "workItem env idc item s =
     (let ingress = snd item in
      if \<not> wantsDNSRecords ingress then (None, s)
      else
        (case parseGlobalLbStatusAnnotation env ingress of
           Inl err \<Rightarrow> (None, s)
         | Inr None \<Rightarrow> (None, s)
         | Inr (Some globalIngLbStatuses) \<Rightarrow>
             for_each_state (ensureCluster env idc ingress) (map fst globalIngLbStatuses) s))"

text \<open>One call: \<open>None\<close> when it blocks, otherwise the flag it returns (or the panic).\<close>

definition workerFunction ::
  "dns_env \<Rightarrow> ('s, 'z, 'r, 'c) IngressDNSController \<Rightarrow> 's \<Rightarrow>
   ((bool res) \<times> ('s, 'z, 'r, 'c) IngressDNSController \<times> 's) option" where
  "workerFunction env idc s =
     (case wqGet (workQueue idc) of
        None \<Rightarrow> None
      | Some (None, q) \<Rightarrow> Some (Inr True, idc\<lparr>workQueue := q\<rparr>, s)
      | Some (Some item, q) \<Rightarrow>
          (case workItem env idc item s of
             (Some err, s') \<Rightarrow> Some (Inl err, idc\<lparr>workQueue := wqDone item q\<rparr>, s')
           | (None, s') \<Rightarrow> Some (Inr False, idc\<lparr>workQueue := wqDone item q\<rparr>, s')))"

fun worker ::
  "dns_env \<Rightarrow> nat \<Rightarrow> ('s, 'z, 'r, 'c) IngressDNSController \<Rightarrow> 's \<Rightarrow>
   ('s, 'z, 'r, 'c) IngressDNSController \<times> 's served" where
  "worker env 0 idc s = (idc, OutOfFuel s)"
| "worker env (Suc n) idc s =
     (case workerFunction env idc s of
        None \<Rightarrow> (idc, Blocked s)
      | Some (Inl err, idc', s') \<Rightarrow> (idc', Crashed err s')
      | Some (Inr True, idc', s') \<Rightarrow> (idc', Quit s')
      | Some (Inr False, idc', s') \<Rightarrow> worker env n idc' s')"
section \<open>What the healthy endpoints are\<close>

text \<open>The addresses of one entry of the annotation, and when it can be used.\<close>

definition entry_addrs :: "string \<times> LoadBalancerStatus list \<Rightarrow> string list" where
  "entry_addrs e = map lbAddress (concat (map lbsIngress (snd e)))"

definition entry_ok :: "dns_env \<Rightarrow> string \<times> LoadBalancerStatus list \<Rightarrow> bool" where
  "entry_ok env e \<longleftrightarrow> (\<exists>zr. getClusterZoneNames env (fst e) = Inr zr) \<and> [] \<notin> set (entry_addrs e)"

definition zones_of :: "dns_env \<Rightarrow> string \<Rightarrow> string list" where
  "zones_of env c = (case getClusterZoneNames env c of Inl _ \<Rightarrow> [] | Inr (zs, r) \<Rightarrow> names_of zs)"

definition region_of :: "dns_env \<Rightarrow> string \<Rightarrow> string" where
  "region_of env c = (case getClusterZoneNames env c of Inl _ \<Rightarrow> [] | Inr (zs, r) \<Rightarrow> r)"

text \<open>The addresses of the clusters that share a zone, or the region, with \<open>c\<close>, and of all clusters.\<close>

definition same_zone :: "dns_env \<Rightarrow> string \<Rightarrow> string \<Rightarrow> bool" where
  "same_zone env c d \<longleftrightarrow> set (zones_of env c) \<inter> set (zones_of env d) \<noteq> {}"

definition zone_addrs :: "dns_env \<Rightarrow> string \<Rightarrow> lb_map \<Rightarrow> string set" where
  "zone_addrs env c m = (\<Union>e \<in> {e \<in> set m. same_zone env c (fst e)}. set (entry_addrs e))"

definition region_addrs :: "dns_env \<Rightarrow> string \<Rightarrow> lb_map \<Rightarrow> string set" where
  "region_addrs env c m = (\<Union>e \<in> {e \<in> set m. region_of env (fst e) = region_of env c}. set (entry_addrs e))"

definition global_addrs :: "lb_map \<Rightarrow> string set" where
  "global_addrs m = (\<Union>e \<in> set m. set (entry_addrs e))"

definition level_sets :: "levels \<Rightarrow> string set \<times> string set \<times> string set" where
  "level_sets l = (case l of (z, r, g) \<Rightarrow> (set z, set r, set g))"

lemma level_addrs_Nil [simp]:
  "zone_addrs env c [] = {}" "region_addrs env c [] = {}" "global_addrs [] = {}"
  by (simp_all add: zone_addrs_def region_addrs_def global_addrs_def)

lemma level_addrs_Cons [simp]:
  "zone_addrs env c (e # m) = (if same_zone env c (fst e) then set (entry_addrs e) else {}) \<union> zone_addrs env c m"
  "region_addrs env c (e # m) =
     (if region_of env (fst e) = region_of env c then set (entry_addrs e) else {}) \<union> region_addrs env c m"
  "global_addrs (e # m) = set (entry_addrs e) \<union> global_addrs m"
  by (auto simp: zone_addrs_def region_addrs_def global_addrs_def)

text \<open>Addresses \<open>A\<close> join the global level, and the other two when they match.\<close>

definition join_levels ::
  "bool \<Rightarrow> bool \<Rightarrow> string set \<Rightarrow> string set \<times> string set \<times> string set \<Rightarrow>
   string set \<times> string set \<times> string set" where
  "join_levels in_zone in_region A l =
     (fst l \<union> (if in_zone then A else {}), fst (snd l) \<union> (if in_region then A else {}), snd (snd l) \<union> A)"

lemma join_levels_join [simp]: "join_levels zm rm B (join_levels zm rm A l) = join_levels zm rm (A \<union> B) l"
  by (auto simp: join_levels_def)

lemma join_levels_empty [simp]: "join_levels zm rm {} l = l"
  by (simp add: join_levels_def)

lemma foldl_append_if:
  "foldl (\<lambda>acc x. if P x then acc @ [a] else acc) acc xs = acc @ replicate (length (filter P xs)) a"
  by (induction xs arbitrary: acc) (simp_all add: replicate_app_Cons_same)

lemma foldl_append_replicate:
  "foldl (\<lambda>acc x. acc @ replicate (f x) a) acc xs = acc @ replicate (sum_list (map f xs)) a"
  by (induction xs arbitrary: acc) (simp_all add: replicate_add)

lemma addEndpoint_sets:
  assumes "lbAddress i \<noteq> []"
  shows "\<exists>l. addEndpoint zs r lzs lr i acc = Inr l \<and>
    level_sets l = join_levels (set zs \<inter> set lzs \<noteq> {}) (lr = r) {lbAddress i} (level_sets acc)"
proof -
  let ?n = "sum_list (map (\<lambda>x. length (filter ((=) x) zs)) lzs)"
  have n: "(?n = 0) = (set zs \<inter> set lzs = {})"
    by (induction lzs) (auto simp: filter_empty_conv)
  obtain z rg g where acc: "acc = (z, rg, g)" by (cases acc) auto
  have "addEndpoint zs r lzs lr i acc = Inr (z @ replicate ?n (lbAddress i),
      if lr = r then rg @ [lbAddress i] else rg, g @ [lbAddress i])"
    using assms by (simp add: acc addEndpoint_def Let_def foldl_append_if foldl_append_replicate)
  then show ?thesis
    by (auto simp: acc level_sets_def join_levels_def set_replicate_conv_if n simp del: sum_list_eq_0_iff)
qed

lemma addEndpoints_sets:
  assumes "[] \<notin> lbAddress ` set is"
  shows "\<exists>l. for_each (addEndpoint zs r lzs lr) is acc = Inr l \<and>
    level_sets l = join_levels (set zs \<inter> set lzs \<noteq> {}) (lr = r) (lbAddress ` set is) (level_sets acc)"
  using assms
proof (induction "is" arbitrary: acc)
  case (Cons i "is")
  then have i: "lbAddress i \<noteq> []" by auto
  obtain l where l: "addEndpoint zs r lzs lr i acc = Inr l"
    and ls: "level_sets l = join_levels (set zs \<inter> set lzs \<noteq> {}) (lr = r) {lbAddress i} (level_sets acc)"
    using addEndpoint_sets [OF i] by blast
  have "[] \<notin> lbAddress ` set is" using Cons.prems by simp
  from Cons.IH [OF this, of l] show ?case by (simp add: l ls)
qed simp

lemma for_each_concat: "for_each (\<lambda>x. for_each f (g x)) xs acc = for_each f (concat (map g xs)) acc"
  by (induction xs arbitrary: acc) (auto simp: for_each_append split: sum.split)

lemma clusterEndpoints_sets:
  assumes "entry_ok env e"
  shows "\<exists>l. clusterEndpoints env zs r e acc = Inr l \<and>
    level_sets l = join_levels (set zs \<inter> set (zones_of env (fst e)) \<noteq> {}) (region_of env (fst e) = r)
      (set (entry_addrs e)) (level_sets acc)"
proof -
  obtain lzs lr where c: "getClusterZoneNames env (fst e) = Inr (lzs, lr)"
    using assms by (auto simp: entry_ok_def)
  let ?is = "concat (map lbsIngress (snd e))"
  have A: "set (entry_addrs e) = lbAddress ` set ?is" by (simp add: entry_addrs_def)
  with assms have "[] \<notin> lbAddress ` set ?is" by (simp add: entry_ok_def)
  from addEndpoints_sets [OF this, of zs r "names_of lzs" lr acc] show ?thesis
    unfolding A by (simp add: c clusterEndpoints_def Let_def split_beta for_each_concat zones_of_def
        region_of_def del: set_concat)
qed

lemma entries_sets:
  assumes "\<forall>e \<in> set m. entry_ok env e"
  shows "\<exists>l. for_each (clusterEndpoints env zs r) m acc = Inr l \<and> level_sets l =
     (fst (level_sets acc) \<union> (\<Union>e \<in> {e \<in> set m. set zs \<inter> set (zones_of env (fst e)) \<noteq> {}}. set (entry_addrs e)),
      fst (snd (level_sets acc)) \<union> (\<Union>e \<in> {e \<in> set m. region_of env (fst e) = r}. set (entry_addrs e)),
      snd (snd (level_sets acc)) \<union> (\<Union>e \<in> set m. set (entry_addrs e)))"
  using assms
proof (induction m arbitrary: acc)
  case (Cons d m)
  then have d: "entry_ok env d" by simp
  obtain l where l: "clusterEndpoints env zs r d acc = Inr l" and ls: "level_sets l =
      join_levels (set zs \<inter> set (zones_of env (fst d)) \<noteq> {}) (region_of env (fst d) = r)
      (set (entry_addrs d)) (level_sets acc)"
    using clusterEndpoints_sets [OF d] by blast
  have "\<forall>e \<in> set m. entry_ok env e" using Cons.prems by simp
  from Cons.IH [OF this, of l] obtain l' where
    l': "for_each (clusterEndpoints env zs r) m l = Inr l'" and ls': "level_sets l' =
     (fst (level_sets l) \<union> (\<Union>e \<in> {e \<in> set m. set zs \<inter> set (zones_of env (fst e)) \<noteq> {}}. set (entry_addrs e)),
      fst (snd (level_sets l)) \<union> (\<Union>e \<in> {e \<in> set m. region_of env (fst e) = r}. set (entry_addrs e)),
      snd (snd (level_sets l)) \<union> (\<Union>e \<in> set m. set (entry_addrs e)))"
    by blast
  have "for_each (clusterEndpoints env zs r) (d # m) acc = Inr l'" by (simp add: l l')
  moreover have "level_sets l' =
     (fst (level_sets acc) \<union> (\<Union>e \<in> {e \<in> set (d # m). set zs \<inter> set (zones_of env (fst e)) \<noteq> {}}. set (entry_addrs e)),
      fst (snd (level_sets acc)) \<union> (\<Union>e \<in> {e \<in> set (d # m). region_of env (fst e) = r}. set (entry_addrs e)),
      snd (snd (level_sets acc)) \<union> (\<Union>e \<in> set (d # m). set (entry_addrs e)))"
    unfolding ls' ls join_levels_def by (intro prod_eqI) auto
  ultimately show ?case by blast
qed simp

lemma getHealthyEndpoints_sets:
  assumes "getClusterZoneNames env c = Inr zr"
    and "omDeletionTimestamp (inMeta ingress) = None"
    and "parseGlobalLbStatusAnnotation env ingress = Inr (Some m)"
    and "\<forall>e \<in> set m. entry_ok env e"
  shows "\<exists>z r g. getHealthyEndpoints env c ingress = Inr (z, r, g) \<and>
    set z = zone_addrs env c m \<and> set r = region_addrs env c m \<and> set g = global_addrs m"
proof -
  obtain zs rn where zr: "zr = (zs, rn)" by fastforce
  have c: "zones_of env c = names_of zs" "region_of env c = rn"
    using assms(1) zr by (simp_all add: zones_of_def region_of_def)
  obtain z r g where "for_each (clusterEndpoints env (names_of zs) rn) m ([], [], []) = Inr (z, r, g)"
    and "level_sets (z, r, g) =
       ((\<Union>e \<in> {e \<in> set m. set (names_of zs) \<inter> set (zones_of env (fst e)) \<noteq> {}}. set (entry_addrs e)),
        (\<Union>e \<in> {e \<in> set m. region_of env (fst e) = rn}. set (entry_addrs e)),
        (\<Union>e \<in> set m. set (entry_addrs e)))"
    using entries_sets [OF assms(4), of "names_of zs" rn "([], [], [])"]
    by (auto simp: level_sets_def)
  then show ?thesis using assms(1-3) zr c
    by (simp add: getHealthyEndpoints_def level_sets_def zone_addrs_def region_addrs_def
        global_addrs_def same_zone_def)
qed

lemma getHealthyEndpoints_deleted:
  assumes "getClusterZoneNames env c = Inr zr" and "omDeletionTimestamp (inMeta ingress) \<noteq> None"
  shows "getHealthyEndpoints env c ingress = Inr ([], [], [])"
  using assms by (cases zr) (simp add: getHealthyEndpoints_def)
section \<open>The three names\<close>

lemma dnsNames_nth:
  "dnsNames idc ingress z r = [n0, n1, n2, n3] \<Longrightarrow>
   length n2 < length n1 \<and> length n1 < length n0 \<and> n2 \<noteq> [] \<and> n3 = []"
  by (auto simp: dnsNames_def Let_def)

lemma dnsNames_cases:
  obtains n0 n1 n2 where "dnsNames idc ingress z r = [n0, n1, n2, []]" and "distinct [n0, n1, n2]"
    and "n1 \<noteq> []" and "n2 \<noteq> []"
proof -
  obtain n0 n1 n2 where n: "dnsNames idc ingress z r = [n0, n1, n2, []]"
    by (simp add: dnsNames_def Let_def)
  from dnsNames_nth [OF n] show thesis by (intro that [OF n]) auto
qed

section \<open>What a resolver answers\<close>

text \<open>
  The addresses a client gets for a name: its A records, or those of the name its CNAME record
  points to. A chain of three names needs three steps.
\<close>

fun answers :: "nat \<Rightarrow> (string \<Rightarrow> rr set) \<Rightarrow> string \<Rightarrow> string set" where
  "answers 0 v n = {}"
| "answers (Suc k) v n =
     {a. \<exists>t. (rrsA, t, a) \<in> v n} \<union> (\<Union>m \<in> {m. \<exists>t. (rrsCNAME, t, m) \<in> v n}. answers k v m)"

text \<open>The addresses of the first level that has endpoints.\<close>

definition nearest :: "lookup \<Rightarrow> string list list \<Rightarrow> string set" where
  "nearest lookup levels = (case dropWhile (\<lambda>e. e = []) levels of [] \<Rightarrow> {} | e # _ \<Rightarrow> addresses lookup e)"

lemma answers_addresses:
  "endpoints \<noteq> [] \<Longrightarrow> v n = desired lookup endpoints up \<Longrightarrow> answers (Suc k) v n = addresses lookup endpoints"
  by (auto simp: wanted_def rrsA_def rrsCNAME_def)

lemma answers_cname:
  "up \<noteq> [] \<Longrightarrow> v n = desired lookup [] up \<Longrightarrow> answers (Suc k) v n = answers k v up"
  by (auto simp: wanted_def rrsA_def rrsCNAME_def)

lemma answers_none: "v n = desired lookup [] [] \<Longrightarrow> answers k v n = {}"
  by (cases k) (auto simp: desired_def)

lemma answers_nearest:
  assumes "v n0 = desired lookup e0 n1" and "v n1 = desired lookup e1 n2" and "v n2 = desired lookup e2 []"
    and "n1 \<noteq> []" and "n2 \<noteq> []"
  shows "answers 3 v n0 = nearest lookup [e0, e1, e2]"
proof -
  have two: "answers (Suc 0) v n2 = nearest lookup [e2]"
    using assms(3) answers_none [of v n2 lookup] by (cases "e2 = []") (simp_all add: answers_addresses nearest_def del: answers.simps)
  have one: "answers (Suc (Suc 0)) v n1 = nearest lookup [e1, e2]"
    using assms(2,5) two by (cases "e1 = []") (simp_all add: answers_addresses answers_cname nearest_def del: answers.simps)
  have "answers (Suc (Suc (Suc 0))) v n0 = nearest lookup [e0, e1, e2]"
    using assms(1,4) one by (cases "e0 = []") (simp_all add: answers_addresses answers_cname nearest_def del: answers.simps)
  then show ?thesis by (simp add: numeral_3_eq_3 del: answers.simps)
qed

section \<open>The records of the three levels\<close>

context rrset_provider
begin

lemma ensureLevels_exact:
  assumes inv: "invar s" and names: "name_ok n0" "name_ok n1" "name_ok n2"
    and dist: "distinct [n0, n1, n2]"
    and res: "resolvable lookup e0" "resolvable lookup e1" "resolvable lookup e2" "lookup_ok lookup"
    and dat: "\<forall>a. ParseIP a \<longrightarrow> data_ok rrsA a" "data_ok rrsCNAME n1" "data_ok rrsCNAME n2" "data_ok rrsCNAME []"
    and fresh: "\<not> stale lookup (view s n0) e0 n1" "\<not> stale lookup (view s n1) e1 n2"
      "\<not> stale lookup (view s n2) e2 []"
  shows "\<exists>s'. ensureLevels lookup (Some ops) [n0, n1, n2, []] 0 [e0, e1, e2] s = (None, s') \<and> invar s' \<and>
    view s' = (view s)(n0 := desired lookup e0 n1, n1 := desired lookup e1 n2, n2 := desired lookup e2 [])"
proof -
  obtain s1 where s1: "EnsureDNSRrsets lookup (Some ops) n0 e0 n1 s = (None, s1)" "invar s1"
      "view s1 = (view s)(n0 := desired lookup e0 n1)"
    using ensure_exact [OF inv names(1) res(1,4) dat(1,2)] fresh(1)
    by auto
  obtain s2 where s2: "EnsureDNSRrsets lookup (Some ops) n1 e1 n2 s1 = (None, s2)" "invar s2"
      "view s2 = (view s1)(n1 := desired lookup e1 n2)"
    using ensure_exact [OF s1(2) names(2) res(2,4) dat(1,3)] fresh(2) s1(3) dist
    by auto
  obtain s3 where s3: "EnsureDNSRrsets lookup (Some ops) n2 e2 [] s2 = (None, s3)" "invar s3"
      "view s3 = (view s2)(n2 := desired lookup e2 [])"
    using ensure_exact [OF s2(2) names(3) res(3,4) dat(1,4)] fresh(3) s1(3) s2(3) dist
    by auto
  from s1 s2 s3 show ?thesis by (simp add: numeral_2_eq_2)
qed

text \<open>One call for an ingress and a cluster, with what a client of the zone name sees afterwards.\<close>

lemma ensureDNSRecords_exact:
  assumes ctl: "dnsZones idc = Some zones" "dnsZone idc = Some z" "zsRrsets zones z = Some ops"
    and cl: "getClusterZoneNames env c = Inr (Some (zn # zns), rn)"
    and eps: "getHealthyEndpoints env c ingress = Inr (e0, e1, e2)"
    and names: "dnsNames idc ingress zn rn = [n0, n1, n2, []]" "name_ok n0" "name_ok n1" "name_ok n2"
    and inv: "invar s" and lk: "lookup_ok (lookupHost env)"
    and res: "\<forall>e \<in> {e0, e1, e2}. resolvable (lookupHost env) e"
    and dat: "\<forall>a. ParseIP a \<longrightarrow> data_ok rrsA a" "data_ok rrsCNAME n1" "data_ok rrsCNAME n2" "data_ok rrsCNAME []"
    and fresh: "\<not> stale (lookupHost env) (view s n0) e0 n1" "\<not> stale (lookupHost env) (view s n1) e1 n2"
      "\<not> stale (lookupHost env) (view s n2) e2 []"
  shows "\<exists>s'. ensureDNSRecords env idc c ingress s = (None, s') \<and> invar s' \<and>
    view s' = (view s)(n0 := desired (lookupHost env) e0 n1, n1 := desired (lookupHost env) e1 n2,
      n2 := desired (lookupHost env) e2 []) \<and>
    answers 3 (view s') n0 = nearest (lookupHost env) [e0, e1, e2]"
proof -
  have dist: "distinct [n0, n1, n2]" and up: "n1 \<noteq> []" "n2 \<noteq> []"
    using dnsNames_nth [OF names(1)] by auto
  have res': "resolvable (lookupHost env) e0" "resolvable (lookupHost env) e1" "resolvable (lookupHost env) e2"
    using res by auto
  obtain s' where s': "ensureLevels (lookupHost env) (Some ops) [n0, n1, n2, []] 0 [e0, e1, e2] s = (None, s')"
    and inv': "invar s'" and v: "view s' = (view s)(n0 := desired (lookupHost env) e0 n1,
      n1 := desired (lookupHost env) e1 n2, n2 := desired (lookupHost env) e2 [])"
    using ensureLevels_exact [OF inv names(2-4) dist res' lk dat fresh] by blast
  moreover have "ensureDNSRecords env idc c ingress s = (None, s')"
    using s' by (simp add: ensureDNSRecords_def cl eps ctl names(1) del: ensureLevels.simps)
  moreover have "answers 3 (view s') n0 = nearest (lookupHost env) [e0, e1, e2]"
    using v dist up by (intro answers_nearest [of _ _ _ _ n1 _ n2]) auto
  ultimately show ?thesis by blast
qed

end

section \<open>Construction\<close>

lemma newIngressDNSController_ok_iff:
  assumes "prZones p = Some zones" and "zsList zones s = Inr zl"
  shows "newIngressDNSController sortSlice (Some p) fed sfx d s = Inr idc \<longleftrightarrow>
    fed \<noteq> [] \<and> d \<noteq> [] \<and> (\<exists>z. idc = \<lparr>dns = Some p, domain = d, federationName = fed,
      ingressDNSSuffix = (if sfx = [] then defaultIngressSeperator else sfx), dnsZone = Some z,
      dnsZones = Some zones, workQueue = wqNew\<rparr> \<and>
      (case firstContained (zsName zones) (TrimSuffix d ''.'') (sortSlice zl) of
         Some z' \<Rightarrow> z = z' | None \<Rightarrow> zsNew zones d s = Inr z))"
  using assms
  by (auto simp: newIngressDNSController_def validateConfig_def retrieveOrCreateDNSZone_def
      GetDNSZone_def Let_def split: option.splits sum.splits if_splits)

lemma newIngressDNSController_ready:
  assumes "newIngressDNSController sortSlice p fed sfx d s = Inr idc"
  shows "\<exists>zones z. dnsZones idc = Some zones \<and> dnsZone idc = Some z"
  using assms
  by (auto simp: newIngressDNSController_def validateConfig_def retrieveOrCreateDNSZone_def
      Let_def split: option.splits sum.splits if_splits)

section \<open>The worker\<close>

lemma workItem_queue [simp]: "workItem env (idc\<lparr>workQueue := q\<rparr>) item s = workItem env idc item s"
proof -
  have names: "dnsNames (idc\<lparr>workQueue := q\<rparr>) ing z r = dnsNames idc ing z r" for ing z r
    by (simp add: dnsNames_def commonPrefix_def)
  have zone: "dnsZones (idc\<lparr>workQueue := q\<rparr>) = dnsZones idc" "dnsZone (idc\<lparr>workQueue := q\<rparr>) = dnsZone idc"
    by simp_all
  have "ensureDNSRecords env (idc\<lparr>workQueue := q\<rparr>) c ing = ensureDNSRecords env idc c ing" for c ing
    by (rule ext) (unfold ensureDNSRecords_def names zone, rule refl)
  then have "ensureCluster env (idc\<lparr>workQueue := q\<rparr>) = ensureCluster env idc"
    by (intro ext) (simp add: ensureCluster_def)
  then show ?thesis unfolding workItem_def by (simp only:)
qed

text \<open>\<open>worker\<close> serves the queue with \<open>workItem\<close>.\<close>

lemma worker_serve:
  "worker env n idc s =
     (let (q, r) = serve wqGet wqDone (workItem env idc) n (workQueue idc) s
      in (idc\<lparr>workQueue := q\<rparr>, r))"
proof (induction n arbitrary: idc s)
  case (Suc n)
  have *: "workItem env (idc\<lparr>workQueue := q\<rparr>) = workItem env idc" for q
    by (intro ext) simp
  show ?case
    using Suc.IH
    by (auto simp: workerFunction_def Let_def * split: option.split prod.split)
qed simp

text \<open>
  \<open>ensureDNSRecords\<close> is only reached with a parsed annotation, and a constructed controller
  has its zone, so the worker can panic only where the provider does or where a cluster
  reports an empty, non-nil list of zones.
\<close>

lemma for_each_no_panic:
  assumes "\<forall>x acc e. body x acc = Inl e \<longrightarrow> \<not> is_panic e" and "for_each body xs acc = Inl e"
  shows "\<not> is_panic e"
  using assms(2) by (induction xs arbitrary: acc) (auto simp: assms(1) split: sum.splits)

lemma getHealthyEndpoints_no_panic:
  assumes "\<And>c e. getCluster env c = Inl e \<Longrightarrow> \<not> is_panic e"
    and "parseGlobalLbStatusAnnotation env ingress = Inr (Some m)"
    and "getHealthyEndpoints env c ingress = Inl e"
  shows "\<not> is_panic e"
proof -
  have add: "\<not> is_panic e" if "addEndpoint zs r lzs lr i acc = Inl e" for zs r lzs lr i acc e
    using that by (auto simp: addEndpoint_def Let_def split: prod.splits if_splits)
  have ends: "\<not> is_panic e" if *: "clusterEndpoints env zs r x acc = Inl e" for zs r x acc e
  proof (cases "getCluster env (fst x)")
    case (Inl e')
    with * assms(1) [OF Inl] show ?thesis
      by (simp add: clusterEndpoints_def getClusterZoneNames_def split_beta)
  next
    case (Inr cl)
    let ?body = "addEndpoint zs r (names_of (clZones cl)) (clRegion cl)"
    have body: "\<forall>i acc e. ?body i acc = Inl e \<longrightarrow> \<not> is_panic e" using add by blast
    have "for_each ?body (concat (map lbsIngress (snd x))) acc = Inl e"
      using * Inr by (simp add: clusterEndpoints_def getClusterZoneNames_def split_beta for_each_concat)
    then show ?thesis by (rule for_each_no_panic [OF body])
  qed
  show ?thesis
  proof (cases "getCluster env c")
    case (Inl e')
    with assms(3) assms(1) [OF Inl] show ?thesis
      by (simp add: getHealthyEndpoints_def getClusterZoneNames_def)
  next
    case (Inr cl)
    let ?body = "clusterEndpoints env (names_of (clZones cl)) (clRegion cl)"
    have body: "\<forall>x acc e. ?body x acc = Inl e \<longrightarrow> \<not> is_panic e" using ends by blast
    have "for_each ?body m ([], [], []) = Inl e"
      using assms(2,3) Inr by (simp add: getHealthyEndpoints_def getClusterZoneNames_def split: if_splits)
    then show ?thesis by (rule for_each_no_panic [OF body])
  qed
qed

lemma ensureLevels_no_panic:
  assumes "\<forall>n eps up s e s'. EnsureDNSRrsets lookup rrsets n eps up s = (Some e, s') \<longrightarrow> \<not> is_panic e"
    and "ensureLevels lookup rrsets names i es s = (Some e, s')"
  shows "\<not> is_panic e"
  using assms(2) by (induction es arbitrary: i s) (auto simp: assms(1) split: prod.splits option.splits)

lemma for_each_state_None:
  "(\<forall>x \<in> set xs. \<forall>s. fst (body x s) = None) \<Longrightarrow> fst (for_each_state body xs s) = None"
  by (induction xs arbitrary: s) (auto split: prod.splits option.splits, metis fst_conv option.distinct(1))

definition provider_safe :: "dns_env \<Rightarrow> ('s, 'z, 'r, 'c) IngressDNSController \<Rightarrow> bool" where
  "provider_safe env idc \<longleftrightarrow>
     (\<exists>zones z. dnsZones idc = Some zones \<and> dnsZone idc = Some z \<and>
       (\<forall>n eps up s e s'. EnsureDNSRrsets (lookupHost env) (zsRrsets zones z) n eps up s = (Some e, s') \<longrightarrow>
          \<not> is_panic e))"

lemma ensureCluster_no_panic:
  assumes "provider_safe env idc" and "\<And>c e. getCluster env c = Inl e \<Longrightarrow> \<not> is_panic e"
    and "parseGlobalLbStatusAnnotation env ingress = Inr (Some m)"
    and "\<And>cl. getCluster env c = Inr cl \<Longrightarrow> clZones cl \<noteq> Some []"
  shows "fst (ensureCluster env idc ingress c s) = None"
proof -
  obtain zones z where zz: "dnsZones idc = Some zones" "dnsZone idc = Some z"
    and safe: "\<forall>n eps up s e s'. EnsureDNSRrsets (lookupHost env) (zsRrsets zones z) n eps up s = (Some e, s') \<longrightarrow>
      \<not> is_panic e"
    using assms(1) by (auto simp: provider_safe_def)
  note levels = ensureLevels_no_panic [OF safe]
  have "\<not> is_panic e" if e: "ensureDNSRecords env idc c ingress s = (Some e, s')" for e s'
  proof (cases "getCluster env c")
    case (Inl e')
    with e assms(2) [OF Inl] show ?thesis by (simp add: ensureDNSRecords_def getClusterZoneNames_def)
  next
    case (Inr cl)
    note cl = Inr
    show ?thesis
    proof (cases "getHealthyEndpoints env c ingress")
      case (Inl e')
      with e cl getHealthyEndpoints_no_panic [OF assms(2,3) Inl] show ?thesis
        by (auto simp: ensureDNSRecords_def getClusterZoneNames_def split: option.splits)
    next
      case (Inr l)
      obtain e0 e1 e2 where l: "l = (e0, e1, e2)" by (cases l) auto
      show ?thesis
      proof (cases "clZones cl")
        case None
        with e cl show ?thesis by (auto simp: ensureDNSRecords_def getClusterZoneNames_def)
      next
        case (Some zs)
        with assms(4) [OF cl] obtain zn zns where zs: "zs = zn # zns" by (cases zs) auto
        have "ensureLevels (lookupHost env) (zsRrsets zones z) (dnsNames idc ingress zn (clRegion cl)) 0
            [e0, e1, e2] s = (Some e, s')"
          using e by (simp add: ensureDNSRecords_def getClusterZoneNames_def cl Inr l Some zs zz
              del: ensureLevels.simps)
        then show ?thesis by (rule levels)
      qed
    qed
  qed
  then show ?thesis by (auto simp: ensureCluster_def split: prod.splits option.splits)
qed

section \<open>Properties\<close>

text \<open>
  C14: the healthy endpoints of a live ingress, seen from a cluster: the zone level holds the
  addresses of the load balancers in clusters that share a zone with it, the region level
  those in clusters of its region, the global level all of them. Every cluster named in the
  annotation must be registered and every load balancer have an address.
\<close>

theorem healthy_endpoints:
  assumes "getClusterZoneNames env c = Inr zr"
    and "omDeletionTimestamp (inMeta ingress) = None"
    and "parseGlobalLbStatusAnnotation env ingress = Inr (Some m)"
    and "\<forall>e \<in> set m. entry_ok env e"
  shows "\<exists>z r g. getHealthyEndpoints env c ingress = Inr (z, r, g) \<and>
    set z = zone_addrs env c m \<and> set r = region_addrs env c m \<and> set g = global_addrs m"
  by (rule getHealthyEndpoints_sets [OF assms])

definition example_cluster :: "string \<Rightarrow> string list option \<Rightarrow> string \<Rightarrow> Cluster" where
  "example_cluster name zones region =
     \<lparr>clMeta = zeroMeta\<lparr>omName := name\<rparr>, clSpec = \<lparr>csServerAddresses = [], csSecretRef = None\<rparr>, clConditions = [], clZones = zones, clRegion = region\<rparr>"

definition example_env :: dns_env where
  "example_env =
     \<lparr>getCluster = (\<lambda>c.
        if c = ''c1'' then Inr (example_cluster c (Some [''z1'']) ''r1'')
        else if c = ''c2'' then Inr (example_cluster c (Some [''z2'']) ''r1'')
        else if c = ''c3'' then Inr (example_cluster c (Some []) ''r3'')
        else Inl (NotFound c)),
      lookupHost = example_lookup,
      rangeOrder = (\<lambda>m. m)\<rparr>"

definition example_statuses :: lb_map where
  "example_statuses = [(''c1'', []), (''c2'', [\<lparr>lbsIngress = [\<lparr>lbIP = ''10.0.0.9'', lbHostname = []\<rparr>]\<rparr>])]"

definition example_ingress :: Ingress where
  "example_ingress = zeroIngress\<lparr>inMeta := zeroMeta\<lparr>omName := ''web'', omNamespace := ''ns'',
     omAnnotations := [(globalIngressLBStatus, marshalLbStatus example_statuses)]\<rparr>,
     inStatus := \<lparr>lbsIngress = [\<lparr>lbIP = ''10.0.0.9'', lbHostname = []\<rparr>]\<rparr>\<rparr>"

lemma example_parse: "parseGlobalLbStatusAnnotation example_env example_ingress =
  Inr (Some [(''c1'', []), (''c2'', [\<lparr>lbsIngress = [\<lparr>lbIP = ''10.0.0.9'', lbHostname = []\<rparr>]\<rparr>])])"
proof -
  have "unmarshalLbStatus (marshalLbStatus example_statuses) = Inr (sort_key fst example_statuses)"
    by (rule unmarshal_marshal) code_simp+
  moreover have "sort_key fst example_statuses = example_statuses" by code_simp
  ultimately show ?thesis
    by (simp add: parseGlobalLbStatusAnnotation_def example_ingress_def example_env_def zeroIngress_def) (simp add: example_statuses_def)
qed

lemma example_cluster_names:
  "getClusterZoneNames example_env ''c1'' = Inr (Some [''z1''], ''r1'')"
  "getClusterZoneNames example_env ''c2'' = Inr (Some [''z2''], ''r1'')"
  "getClusterZoneNames example_env ''c3'' = Inr (Some [], ''r3'')"
  by (simp_all add: getClusterZoneNames_def example_env_def example_cluster_def)

lemma example_entries:
  "\<forall>e \<in> set [(''c1'', []), (''c2'', [\<lparr>lbsIngress = [\<lparr>lbIP = ''10.0.0.9'', lbHostname = []\<rparr>]\<rparr>])]. entry_ok example_env e"
  by (simp add: entry_ok_def entry_addrs_def lbAddress_def example_cluster_names)

lemma example_live: "omDeletionTimestamp (inMeta example_ingress) = None"
  by (simp add: example_ingress_def zeroMeta_def)

theorem healthy_endpoints_witness:
  "\<exists>z r g. getHealthyEndpoints example_env ''c1'' example_ingress = Inr (z, r, g) \<and>
     set z = {} \<and> set r = {''10.0.0.9''} \<and> set g = {''10.0.0.9''}"
  using healthy_endpoints [OF example_cluster_names(1) example_live example_parse example_entries]
  by (simp add: same_zone_def zones_of_def region_of_def names_of_def entry_addrs_def lbAddress_def
      example_cluster_names)

text \<open>
  The three names an ingress is published under are different for every ingress, cluster
  and configuration, and each is the uplevel name of the one before, so the CNAME records of
  one ingress never form a cycle.
\<close>

theorem dnsNames_chain:
  "\<exists>n0 n1 n2. dnsNames idc ingress z r = [n0, n1, n2, []] \<and> distinct [n0, n1, n2] \<and>
     length n2 < length n1 \<and> length n1 < length n0"
proof -
  obtain n0 n1 n2 where n: "dnsNames idc ingress z r = [n0, n1, n2, []]" "distinct [n0, n1, n2]"
    by (rule dnsNames_cases)
  with dnsNames_nth [OF n(1)] show ?thesis by blast
qed

lemma workItem_no_panic:
  assumes "provider_safe env idc" and "\<forall>c e. getCluster env c = Inl e \<longrightarrow> \<not> is_panic e"
    and "\<forall>c cl. getCluster env c = Inr cl \<longrightarrow> clZones cl \<noteq> Some []"
  shows "fst (workItem env idc item s) = None"
proof -
  have "fst (for_each_state (ensureCluster env idc (snd item)) cs s) = None"
    if "parseGlobalLbStatusAnnotation env (snd item) = Inr (Some m)" for m cs
    using ensureCluster_no_panic [OF assms(1) _ that] assms(2,3) by (intro for_each_state_None) blast
  then show ?thesis by (auto simp: workItem_def Let_def split: sum.split option.split)
qed


text \<open>A controller of a provider without record sets, whose every call fails with an error.\<close>

definition example_zones :: "(unit, unit, unit, unit) zones_ops" where
  "example_zones = \<lparr>zsList = (\<lambda>_. Inr [()]), zsAdd = (\<lambda>z s. (Inr z, s)), zsRemove = (\<lambda>_ s. (None, s)),
     zsNew = (\<lambda>_ _. Inr ()), zsName = (\<lambda>_. ''ex.com''), zsID = (\<lambda>_. ''0''), zsRrsets = (\<lambda>_. None)\<rparr>"

definition example_idc :: "(unit, unit, unit, unit) IngressDNSController" where
  "example_idc = \<lparr>dns = Some \<lparr>prZones = Some example_zones\<rparr>, domain = ''ex.com'', federationName = ''fed'',
     ingressDNSSuffix = ''ing'', dnsZone = Some (), dnsZones = Some example_zones,
     workQueue = wqShutDown (wqAdd (0, example_ingress) wqNew)\<rparr>"

lemma example_provider_safe: "provider_safe env example_idc"
  by (simp add: provider_safe_def example_idc_def example_zones_def EnsureDNSRrsets_def)

definition example_env_zoned :: dns_env where
  "example_env_zoned = example_env\<lparr>getCluster := (\<lambda>c. if c = ''c3'' then Inl (NotFound c) else getCluster example_env c)\<rparr>"

lemma example_env_zoned_ok:
  "\<forall>c e. getCluster example_env_zoned c = Inl e \<longrightarrow> \<not> is_panic e"
  "\<forall>c cl. getCluster example_env_zoned c = Inr cl \<longrightarrow> clZones cl \<noteq> Some []"
  by (auto simp: example_env_zoned_def example_env_def example_cluster_def split: if_splits)


text \<open>
  A cluster that reports an empty but non-nil list of zones passes the check for missing
  zones and makes the index of the first zone panic.
\<close>

theorem empty_zones_panic:
  assumes "getCluster env c = Inr cl" and "clZones cl = Some []"
    and "getHealthyEndpoints env c ingress = Inr l"
  shows "ensureDNSRecords env idc c ingress s = (Some (Panic IndexOutOfRange), s)"
  using assms by (cases l) (simp add: ensureDNSRecords_def getClusterZoneNames_def)

theorem empty_zones_panic_witness:
  "ensureDNSRecords example_env example_idc ''c3'' example_ingress () = (Some (Panic IndexOutOfRange), ())"
proof -
  obtain l where "getHealthyEndpoints example_env ''c3'' example_ingress = Inr l"
    using getHealthyEndpoints_sets [OF example_cluster_names(3) example_live example_parse example_entries] by blast
  then show ?thesis
    by (intro empty_zones_panic [of example_env "''c3''" "example_cluster ''c3'' (Some []) ''r3''"])
      (simp_all add: example_env_def example_cluster_def)
qed

text \<open>
  C21: after shutdown a worker handles all the items that are queued, in their order, and
  quits; before shutdown it handles them and then waits. One more round than there are items
  is enough.
\<close>

theorem worker_drains:
  assumes "quiet (workQueue idc)" and "length (queue (workQueue idc)) < n"
    and "\<forall>item \<in> set (queue (workQueue idc)). \<forall>s. fst (workItem env idc item s) = None"
  shows "\<exists>q. worker env n idc s =
      (idc\<lparr>workQueue := q\<rparr>, (if shuttingDown (workQueue idc) then Quit else Blocked)
        (foldl (\<lambda>s item. snd (workItem env idc item s)) s (queue (workQueue idc))))
    \<and> quiet q \<and> queue q = [] \<and> shuttingDown q = shuttingDown (workQueue idc)"
  using one_worker.serve_all [OF assms(1,2), of "workItem env idc" s] assms(3)
  by (auto simp: worker_serve)

lemma example_queue:
  "quiet (workQueue example_idc)" "queue (workQueue example_idc) = [(0, example_ingress)]"
  "shuttingDown (workQueue example_idc)"
  by (simp_all add: example_idc_def wqShutDown_def wqAdd_def wqNew_def quiet_def wq_inv_def Let_def)

theorem worker_drains_witness:
  "\<exists>q. worker example_env_zoned 2 example_idc () =
     (example_idc\<lparr>workQueue := q\<rparr>, Quit (snd (workItem example_env_zoned example_idc (0, example_ingress) ())))
   \<and> queue q = []"
proof -
  have safe: "\<forall>item s. fst (workItem example_env_zoned example_idc item s) = None"
    using for_each_state_None ensureCluster_no_panic [OF example_provider_safe] example_env_zoned_ok
    by (auto simp: workItem_def Let_def intro!: for_each_state_None split: sum.split option.split)
  have "length (queue (workQueue example_idc)) < 2" by (simp add: example_queue)
  from worker_drains [OF example_queue(1) this, of example_env_zoned "()"] safe show ?thesis
    by (auto simp: example_queue)
qed

end
