(* ===== verification/Dyndns_Rrsets.thy ===== *)
theory Dyndns_Rrsets
  imports Dyndns_API Ingress_DNS
begin

text \<open>
  The DynDNS implementation of resource record sets (\<open>rrsets.go\<close>) and of changesets
  (\<open>rrchangeset.go\<close>) over any \<open>DynDNSAPI\<close>, and the proof that it keeps the contract
  \<open>rrset_provider\<close> whenever the service keeps \<open>dyn_service\<close>.
\<close>

section \<open>Queries\<close>

definition Get :: "'s DynDNSAPI \<Rightarrow> Zone \<Rightarrow> string \<Rightarrow> 's \<Rightarrow> ResourceRecordSet list res" where
  "Get api zone name s =
     (let record = populateRecordWithName name (zeroRecord\<lparr>rZone := zoneName zone\<rparr>) in
      case apiGetRecordByName api record s of
        Inl e \<Rightarrow> if is_panic e then Inl e else Inr []
      | Inr records \<Rightarrow> Inr (map RrsetVal records))"

definition ListRrsets :: "'s DynDNSAPI \<Rightarrow> Zone \<Rightarrow> 's \<Rightarrow> ResourceRecordSet list res" where
  "ListRrsets api zone s =
     (let record = zeroRecord\<lparr>rZone := zoneName zone, rFQDN := zoneName zone\<rparr> in
      case apiGetAllRecordList api record s of
        Inl e \<Rightarrow> Inl (wrap ''Failed to list records'' e)
      | Inr recordList \<Rightarrow> Inr (map RrsetPtr recordList))"

section \<open>Changesets\<close>

datatype ChangeSetType = ADDITION | DELETION | UPSERT

record ChangeSet =
  cstype :: ChangeSetType
  csrrset :: ResourceRecordSet

record ResourceRecordChangeset =
  cszone :: Zone
  changeset :: "ChangeSet list"

definition StartChangeset :: "Zone \<Rightarrow> ResourceRecordChangeset" where
  "StartChangeset zone = \<lparr>cszone = zone, changeset = []\<rparr>"

definition Add :: "ResourceRecordChangeset \<Rightarrow> ResourceRecordSet \<Rightarrow> ResourceRecordChangeset" where
  "Add c rrset = c\<lparr>changeset := changeset c @ [\<lparr>cstype = ADDITION, csrrset = rrset\<rparr>]\<rparr>"

definition Remove :: "ResourceRecordChangeset \<Rightarrow> ResourceRecordSet \<Rightarrow> ResourceRecordChangeset" where
  "Remove c rrset = c\<lparr>changeset := changeset c @ [\<lparr>cstype = DELETION, csrrset = rrset\<rparr>]\<rparr>"

definition Upsert :: "ResourceRecordChangeset \<Rightarrow> ResourceRecordSet \<Rightarrow> ResourceRecordChangeset" where
  "Upsert c rrset = c\<lparr>changeset := changeset c @ [\<lparr>cstype = UPSERT, csrrset = rrset\<rparr>]\<rparr>"

definition IsEmpty :: "ResourceRecordChangeset \<Rightarrow> bool" where
  "IsEmpty c \<longleftrightarrow> length (changeset c) = 0"

text \<open>The two inner loops of \<open>Apply\<close>: the first error ends the whole call.\<close>

fun createRecords :: "'s DynDNSAPI \<Rightarrow> Record list \<Rightarrow> 's \<Rightarrow> error option \<times> 's" where
  "createRecords api [] s = (None, s)"
| "createRecords api (r # rs) s =
     (case apiCreateRecord api r s of
        (Some e, s') \<Rightarrow> (Some (wrap ''Couldn't add record'' e), s')
      | (None, s') \<Rightarrow> createRecords api rs s')"

fun deleteRecords :: "'s DynDNSAPI \<Rightarrow> Record list \<Rightarrow> 's \<Rightarrow> error option \<times> 's" where
  "deleteRecords api [] s = (None, s)"
| "deleteRecords api (r # rs) s =
     (case apiGetRecordID api r s of
        Inl e \<Rightarrow> (Some (wrap ''Couldn't get record id'' e), s)
      | Inr r' \<Rightarrow>
          (case apiDeleteRecord api r' s of
             (Some e, s') \<Rightarrow> (Some (wrap ''Couldn't delete record'' e), s')
           | (None, s') \<Rightarrow> deleteRecords api rs s'))"

fun applyChanges :: "'s DynDNSAPI \<Rightarrow> Zone \<Rightarrow> ChangeSet list \<Rightarrow> 's \<Rightarrow> error option \<times> 's" where
  "applyChanges api zone [] s = (None, s)"
| "applyChanges api zone (ch # chs) s =
     (let (err, s') =
            (case cstype ch of
               ADDITION \<Rightarrow> createRecords api (GetRecordsFromDNSRRS zone (csrrset ch)) s
             | UPSERT \<Rightarrow> (None, s)
             | DELETION \<Rightarrow> deleteRecords api (GetRecordsFromDNSRRS zone (csrrset ch)) s)
      in case err of Some e \<Rightarrow> (Some e, s') | None \<Rightarrow> applyChanges api zone chs s')"

definition Apply :: "'s DynDNSAPI \<Rightarrow> ResourceRecordChangeset \<Rightarrow> 's \<Rightarrow> error option \<times> 's" where
  "Apply api c s =
     (if IsEmpty c then (None, s)
      else case applyChanges api (cszone c) (changeset c) s of
        (Some e, s') \<Rightarrow> (Some e, s')
      | (None, s') \<Rightarrow>
          (case apiPublishZone api (zoneName (cszone c)) s' of
             (Some e, s'') \<Rightarrow> (Some (wrap ''Couldn't publish the changes for the zone'' e), s'')
           | (None, s'') \<Rightarrow> (None, s'')))"

text \<open>The provider's operations behind the interface of \<open>dnsprovider\<close>.\<close>

definition dyndns_ops ::
  "'s DynDNSAPI \<Rightarrow> Zone \<Rightarrow> ('s, ResourceRecordSet, ResourceRecordChangeset) rrsets_ops" where
  "dyndns_ops api zone =
     \<lparr>opGet = Get api zone, opNew = New zone, opStartChangeset = StartChangeset zone,
      opAdd = Add, opRemove = Remove, opApply = Apply api,
      opName = Name, opRrdatas = Rrdatas, opTtl = Ttl, opType = Type\<rparr>"

lemma dyndns_ops_sel [simp]:
  "opGet (dyndns_ops api z) = Get api z" "opNew (dyndns_ops api z) = New z"
  "opStartChangeset (dyndns_ops api z) = StartChangeset z" "opAdd (dyndns_ops api z) = Add"
  "opRemove (dyndns_ops api z) = Remove" "opApply (dyndns_ops api z) = Apply api"
  "opName (dyndns_ops api z) = Name" "opRrdatas (dyndns_ops api z) = Rrdatas"
  "opTtl (dyndns_ops api z) = Ttl" "opType (dyndns_ops api z) = Type"
  by (simp_all add: dyndns_ops_def)

lemma changeset_foldl_Remove:
  "changeset (foldl Remove c rs) =
     changeset c @ map (\<lambda>r. \<lparr>cstype = DELETION, csrrset = r\<rparr>) rs"
  by (induction rs arbitrary: c) (auto simp: Remove_def)

lemma cszone_foldl_Remove [simp]: "cszone (foldl Remove c rs) = cszone c"
  by (induction rs arbitrary: c) (auto simp: Remove_def)

lemma applyChanges_append:
  "applyChanges api z (cs @ ds) s =
     (case applyChanges api z cs s of (Some e, s') \<Rightarrow> (Some e, s') | (None, s') \<Rightarrow> applyChanges api z ds s')"
proof (induction cs arbitrary: s)
  case (Cons c cs)
  then show ?case by (auto simp: Let_def split: prod.splits option.splits)
qed simp

section \<open>Changesets on a reliable service\<close>

text \<open>What the records of a set are, as keys, and the invariant of a zone the provider manages.\<close>

definition managed :: "rkey \<Rightarrow> bool" where
  "managed k \<longleftrightarrow>
     (case k of (s, ttl, ty, v) \<Rightarrow>
        (\<exists>t. ttl_ok t \<and> ttl = FormatInt t) \<and> CHR '','' \<notin> set v)"

definition rel_ok :: "Zone \<Rightarrow> string \<Rightarrow> bool" where
  "rel_ok z s \<longleftrightarrow> zone_ok z \<and> relative z s \<and> list_all (\<lambda>c. \<not> upper c) s"

definition type_ok :: "string \<Rightarrow> bool" where
  "type_ok ty \<longleftrightarrow> ty \<noteq> [] \<and> upper (hd ty) \<and> CHR ''-'' \<notin> set ty"

lemma key_wf_mkRecord:
  "rel_ok z s \<Longrightarrow> type_ok ty \<Longrightarrow> ttl_ok t \<Longrightarrow> key_wf (mkRecord z s (FormatInt t) ty v)"
  using FormatInt_digits [of t] by (auto simp: key_wf_def rel_ok_def type_ok_def ttl_ok_def list_all_iff)

lemma key_wf_type_ok: "key_wf r \<Longrightarrow> type_ok (rType r)"
  by (simp add: key_wf_def type_ok_def)

lemma FormatInt_inj: "ttl_ok t \<Longrightarrow> ttl_ok t' \<Longrightarrow> FormatInt t = FormatInt t' \<Longrightarrow> t = t'"
  by (metis Ttl_FormatInt mkRecord_sel(2) ResourceRecordSet.sel(1))

text \<open>The names of the zone, what may stand in a record, and what a resolver sees.\<close>

definition dyn_name :: "Zone \<Rightarrow> string \<Rightarrow> bool" where
  "dyn_name z n \<longleftrightarrow> HasSuffix n (''.'' @ zdomain z) \<and> rel_ok z (TrimSuffix n (''.'' @ zdomain z))"

definition dyn_data :: "string \<Rightarrow> string \<Rightarrow> bool" where
  "dyn_data ty d \<longleftrightarrow> type_ok ty \<and> CHR '','' \<notin> set d"

definition dyn_inv :: "('s \<Rightarrow> bool) \<Rightarrow> ('s \<Rightarrow> rkey set) \<Rightarrow> 's \<Rightarrow> bool" where
  "dyn_inv invar recs s \<longleftrightarrow> invar s \<and> (\<forall>k \<in> recs s. managed k)"

definition dyn_view :: "('s \<Rightarrow> rkey set) \<Rightarrow> Zone \<Rightarrow> 's \<Rightarrow> string \<Rightarrow> rr set" where
  "dyn_view recs z s n =
     {(ty, t, v). ttl_ok t \<and> (\<exists>x. n = fqdn z x \<and> (x, FormatInt t, ty, v) \<in> recs s)}"

lemma dyn_name_iff: "dyn_name z n \<longleftrightarrow> (\<exists>x. n = fqdn z x \<and> rel_ok z x)"
  by (metis HasSuffix_iff TrimSuffix_append dyn_name_def fqdn_def)

lemma dyn_view_fqdn:
  "dyn_view recs z s (fqdn z x) = {(ty, t, v). ttl_ok t \<and> (x, FormatInt t, ty, v) \<in> recs s}"
  by (auto simp: dyn_view_def)

context dyn_service
begin

lemma createRecords_ok:
  assumes "invar s" and "\<forall>r \<in> set rs. key_wf r" and "distinct (map rkey rs)"
    and "rkey ` set rs \<inter> recs s = {}"
  shows "\<exists>s'. createRecords api rs s = (None, s') \<and> invar s' \<and> recs s' = rkey ` set rs \<union> recs s"
  using assms
proof (induction rs arbitrary: s)
  case (Cons r rs)
  then obtain s1 where s1: "apiCreateRecord api r s = (None, s1)" "invar s1"
      "recs s1 = insert (rkey r) (recs s)"
    using create_new [of s r] by auto
  with Cons.prems have "rkey ` set rs \<inter> recs s1 = {}" by auto
  with Cons.IH [of s1] Cons.prems s1(2) obtain s' where "createRecords api rs s1 = (None, s')"
      "invar s'" "recs s' = rkey ` set rs \<union> recs s1"
    by auto
  with s1 show ?case by simp
qed auto

lemma createRecords_dup:
  assumes "invar s" and "\<forall>q \<in> set rs. key_wf q" and "key_wf r" and "distinct (map rkey rs)"
    and "rkey ` set rs \<inter> recs s = {}" and "rkey r \<in> recs s"
  shows "\<exists>e s'. createRecords api (rs @ r # rs') s = (Some e, s')
    \<and> invar s' \<and> recs s' = rkey ` set rs \<union> recs s"
  using assms
proof (induction rs arbitrary: s)
  case Nil
  then show ?case using create_dup [of s r] by auto
next
  case (Cons q rs)
  then obtain s1 where s1: "apiCreateRecord api q s = (None, s1)" "invar s1"
      "recs s1 = insert (rkey q) (recs s)"
    using create_new [of s q] by auto
  with Cons.prems have "rkey ` set rs \<inter> recs s1 = {}" and "rkey r \<in> recs s1" by auto
  with Cons.IH [of s1] Cons.prems s1(2) obtain e s' where
      "createRecords api (rs @ r # rs') s1 = (Some e, s')" "invar s'"
      "recs s' = rkey ` set rs \<union> recs s1"
    by auto
  with s1 show ?case by simp
qed

lemma deleteRecords_ok:
  assumes "invar s" and "\<forall>r \<in> set rs. key_wf r" and "distinct (map rkey rs)"
    and "rkey ` set rs \<subseteq> recs s"
  shows "\<exists>s'. deleteRecords api rs s = (None, s') \<and> invar s' \<and> recs s' = recs s - rkey ` set rs"
  using assms
proof (induction rs arbitrary: s)
  case (Cons r rs)
  then obtain r' s1 where s1: "apiGetRecordID api r s = Inr r'" "apiDeleteRecord api r' s = (None, s1)"
      "invar s1" "recs s1 = recs s - {rkey r}"
    using find_id [of s r] by auto
  with Cons.prems have "rkey ` set rs \<subseteq> recs s1" by auto
  with Cons.IH [of s1] Cons.prems s1(3) obtain s' where "deleteRecords api rs s1 = (None, s')"
      "invar s'" "recs s' = recs s1 - rkey ` set rs"
    by auto
  with s1 show ?case by auto
qed auto

lemma applyChanges_remove:
  assumes "invar s" and "distinct (map rkey rs)" and "rkey ` set rs \<subseteq> recs s"
    and "\<forall>r \<in> set rs. managed (rkey r) \<and> rName r = x \<and> type_ok (rType r)" and "rel_ok z x"
  shows "\<exists>s'. applyChanges api z (map (\<lambda>r. \<lparr>cstype = DELETION, csrrset = RrsetVal r\<rparr>) rs) s = (None, s')
    \<and> invar s' \<and> recs s' = recs s - rkey ` set rs"
  using assms
proof (induction rs arbitrary: s)
  case (Cons r rs)
  then obtain t where t: "ttl_ok t" "rTTL r = FormatInt t" "CHR '','' \<notin> set (rValue r)"
    by (auto simp: managed_def rkey_def)
  let ?q = "mkRecord z x (FormatInt t) (rType r) (rValue r)"
  have recs: "GetRecordsFromDNSRRS z (RrsetVal r) = [?q]"
    using Cons.prems t by (subst GetRecords_val [of z x t]) (auto simp: rel_ok_def Split_no_sep)
  have key: "rkey ?q = rkey r" "key_wf ?q"
    using Cons.prems t by (auto simp: rkey_def key_wf_mkRecord)
  obtain s1 where s1: "deleteRecords api [?q] s = (None, s1)" "invar s1" "recs s1 = recs s - {rkey r}"
    using deleteRecords_ok [of s "[?q]"] Cons.prems key by auto
  moreover from s1 Cons.prems have "rkey ` set rs \<subseteq> recs s1" by auto
  with Cons.IH [of s1] Cons.prems s1(2) obtain s' where "applyChanges api z
      (map (\<lambda>r. \<lparr>cstype = DELETION, csrrset = RrsetVal r\<rparr>) rs) s1 = (None, s')" "invar s'"
      "recs s' = recs s1 - rkey ` set rs"
    by auto
  ultimately show ?case using recs by auto
qed auto

lemma Get_by_name:
  assumes "dyn_inv invar recs s" and "rel_ok z x"
  obtains rs where "Get api z (fqdn z x) s = Inr (map RrsetVal rs)" and "distinct (map rkey rs)"
    and "rkey ` set rs = {k \<in> recs s. fst k = x}"
    and "\<forall>r \<in> set rs. managed (rkey r) \<and> rName r = x \<and> type_ok (rType r)"
proof -
  let ?q = "populateRecordWithName (fqdn z x) (zeroRecord\<lparr>rZone := zoneName z\<rparr>)"
  have "rName ?q = x"
    using assms(2) by (simp add: populate_absolute zoneName_def rel_ok_def)
  with get_by_name [of s ?q] assms(1) obtain rs where
    rs: "apiGetRecordByName api ?q s = Inr rs" "distinct (map rkey rs)"
      "rkey ` set rs = {k \<in> recs s. fst k = x}" "\<forall>r \<in> set rs. key_wf r"
    by (auto simp: dyn_inv_def)
  have "managed (rkey r) \<and> rName r = x \<and> type_ok (rType r)" if "r \<in> set rs" for r
  proof -
    have "rkey r \<in> {k \<in> recs s. fst k = x}" using that rs(3) by blast
    moreover have "type_ok (rType r)" using that rs(4) key_wf_type_ok by blast
    ultimately show ?thesis using assms(1) by (auto simp: dyn_inv_def rkey_def)
  qed
  with rs show thesis by (intro that [of rs]) (auto simp: Get_def Let_def)
qed

lemma apply_add:
  assumes "invar s" and "rel_ok z x" and "comma_free ds" and "distinct ds" and "type_ok ty" and "ttl_ok t"
    and "\<forall>k \<in> recs s. fst k \<noteq> x"
  shows "\<exists>s'. createRecords api (GetRecordsFromDNSRRS z (New z (fqdn z x) ds t ty)) s = (None, s')
    \<and> invar s' \<and> recs s' = (\<lambda>d. (x, FormatInt t, ty, d)) ` set ds \<union> recs s"
proof -
  let ?rs = "map (mkRecord z x (FormatInt t) ty) ds"
  have "GetRecordsFromDNSRRS z (New z (fqdn z x) ds t ty) = ?rs"
    using assms(2,3,6) by (simp add: New_def newRecord_absolute rel_ok_def GetRecords_ptr
        Split_Join comma_free_def)
  moreover have "distinct (map rkey ?rs)"
    using assms(4) by (simp add: distinct_map inj_on_def)
  moreover have "\<forall>r \<in> set ?rs. key_wf r"
    using assms by (auto intro: key_wf_mkRecord)
  moreover have "rkey ` set ?rs \<inter> recs s = {}"
    using assms(7) by auto
  moreover have "rkey ` set ?rs = (\<lambda>d. (x, FormatInt t, ty, d)) ` set ds"
    by (simp add: image_image)
  ultimately show ?thesis
    using createRecords_ok [of s ?rs] assms(1) by metis
qed

text \<open>Removing what \<open>Get\<close> returned, as the first part of a changeset.\<close>

lemma apply_removals:
  assumes "dyn_inv invar recs s" and "rel_ok z x" and "Get api z (fqdn z x) s = Inr rrs"
  obtains s' where "applyChanges api z (changeset (foldl Remove (StartChangeset z) rrs)) s = (None, s')"
    and "invar s'" and "recs s' = {k \<in> recs s. fst k \<noteq> x}"
proof -
  obtain rs where "Get api z (fqdn z x) s = Inr (map RrsetVal rs)" and rs: "distinct (map rkey rs)"
      "rkey ` set rs = {k \<in> recs s. fst k = x}"
      "\<forall>r \<in> set rs. managed (rkey r) \<and> rName r = x \<and> type_ok (rType r)"
    by (rule Get_by_name [OF assms(1,2)])
  with assms(3) have rrs: "rrs = map RrsetVal rs" by simp
  from rs applyChanges_remove [of s rs x z] assms(1,2) obtain s' where
    "applyChanges api z (map (\<lambda>r. \<lparr>cstype = DELETION, csrrset = RrsetVal r\<rparr>) rs) s = (None, s')"
    "invar s'" "recs s' = recs s - {k \<in> recs s. fst k = x}"
    by (auto simp: dyn_inv_def)
  with rrs show thesis
    by (intro that [of s']) (auto simp: changeset_foldl_Remove StartChangeset_def comp_def)
qed

lemma Get_view:
  assumes "dyn_inv invar recs s" and "dyn_name z n"
  shows "\<exists>rs. Get api z n s = Inr rs \<and> (\<Union>r \<in> set rs. rrs_of (dyndns_ops api z) r) = dyn_view recs z s n
    \<and> (\<forall>r \<in> set rs. Rrdatas r \<noteq> [])"
proof -
  obtain x where x: "n = fqdn z x" "rel_ok z x" using assms(2) by (auto simp: dyn_name_iff)
  obtain rs where rs: "Get api z n s = Inr (map RrsetVal rs)"
      "rkey ` set rs = {k \<in> recs s. fst k = x}"
      "\<forall>r \<in> set rs. managed (rkey r) \<and> rName r = x \<and> type_ok (rType r)"
    unfolding x(1) by (rule Get_by_name [OF assms(1) x(2)])
  have one: "rrs_of (dyndns_ops api z) (RrsetVal r) =
      {(ty, t, v). ttl_ok t \<and> (x, FormatInt t, ty, v) = rkey r}" if "r \<in> set rs" for r
  proof -
    from rs(3) that obtain t where "ttl_ok t" "rTTL r = FormatInt t" "CHR '','' \<notin> set (rValue r)"
      and "rName r = x"
      by (auto simp: managed_def rkey_def)
    then show ?thesis
      by (auto simp: rrs_of_def Rrdatas_def Type_def Split_no_sep rkey_def dest: FormatInt_inj)
  qed
  have "(\<Union>r \<in> set rs. rrs_of (dyndns_ops api z) (RrsetVal r)) =
      {(ty, t, v). ttl_ok t \<and> (x, FormatInt t, ty, v) \<in> rkey ` set rs}"
    using one by auto
  also have "\<dots> = dyn_view recs z s n"
    unfolding rs(2) x(1) dyn_view_fqdn by auto
  finally show ?thesis using rs(1) by (auto simp: Rrdatas_def)
qed

lemma dyn_view_update:
  assumes "rel_ok z x" and "ttl_ok t"
    and "recs s' = (\<lambda>d. (x, FormatInt t, ty, d)) ` set ds \<union> {k \<in> recs s. fst k \<noteq> x}"
  shows "dyn_view recs z s' = (dyn_view recs z s)(fqdn z x := (\<lambda>d. (ty, t, d)) ` set ds)"
proof
  fix n
  show "dyn_view recs z s' n = ((dyn_view recs z s)(fqdn z x := (\<lambda>d. (ty, t, d)) ` set ds)) n"
    using assms by (auto simp: dyn_view_def dest: FormatInt_inj)
qed

lemma apply_replace:
  assumes "dyn_inv invar recs s" and "dyn_name z n" and "Get api z n s = Inr rrs"
    and "ds \<noteq> []" and "distinct ds" and "\<forall>d \<in> set ds. dyn_data ty d" and "ttl_ok t"
  shows "\<exists>s'. Apply api (Add (foldl Remove (StartChangeset z) rrs) (New z n ds t ty)) s = (None, s')
    \<and> dyn_inv invar recs s' \<and> dyn_view recs z s' = (dyn_view recs z s)(n := (\<lambda>d. (ty, t, d)) ` set ds)"
proof -
  obtain x where x: "n = fqdn z x" "rel_ok z x" using assms(2) by (auto simp: dyn_name_iff)
  have ds: "comma_free ds" "type_ok ty"
    using assms(4,6) by (auto simp: comma_free_def dyn_data_def neq_Nil_conv)
  obtain s1 where s1: "applyChanges api z (changeset (foldl Remove (StartChangeset z) rrs)) s = (None, s1)"
      "invar s1" "recs s1 = {k \<in> recs s. fst k \<noteq> x}"
    using assms(3) unfolding x(1) by (rule apply_removals [OF assms(1) x(2)])
  moreover obtain s2 where s2: "createRecords api (GetRecordsFromDNSRRS z (New z n ds t ty)) s1 = (None, s2)"
      "invar s2" "recs s2 = (\<lambda>d. (x, FormatInt t, ty, d)) ` set ds \<union> recs s1"
    using apply_add [OF s1(2) x(2) ds(1) assms(5) ds(2) assms(7)] s1(3) x(1) by auto
  moreover obtain s3 where s3: "apiPublishZone api (zoneName z) s2 = (None, s3)" "invar s3" "recs s3 = recs s2"
    using publish [OF s2(2)] by blast
  ultimately have "Apply api (Add (foldl Remove (StartChangeset z) rrs) (New z n ds t ty)) s = (None, s3)"
    by (simp add: Apply_def IsEmpty_def Add_def applyChanges_append StartChangeset_def)
  moreover have "\<forall>k \<in> recs s3. managed k"
    using assms(1,7) ds(1) s1(3) s2(3) s3(3)
    by (auto simp: dyn_inv_def managed_def comma_free_def)
  moreover have "dyn_view recs z s3 = (dyn_view recs z s)(n := (\<lambda>d. (ty, t, d)) ` set ds)"
    using dyn_view_update [OF x(2) assms(7), of s3 ty ds s] s1(3) s2(3) s3(3) x(1) by simp
  ultimately show ?thesis using s3(2) by (auto simp: dyn_inv_def)
qed

lemma apply_clear:
  assumes "dyn_inv invar recs s" and "dyn_name z n" and "Get api z n s = Inr rrs" and "rrs \<noteq> []"
  shows "\<exists>s'. Apply api (foldl Remove (StartChangeset z) rrs) s = (None, s')
    \<and> dyn_inv invar recs s' \<and> dyn_view recs z s' = (dyn_view recs z s)(n := {})"
proof -
  obtain x where x: "n = fqdn z x" "rel_ok z x" using assms(2) by (auto simp: dyn_name_iff)
  obtain s1 where s1: "applyChanges api z (changeset (foldl Remove (StartChangeset z) rrs)) s = (None, s1)"
      "invar s1" "recs s1 = {k \<in> recs s. fst k \<noteq> x}"
    using assms(3) unfolding x(1) by (rule apply_removals [OF assms(1) x(2)])
  moreover obtain s2 where s2: "apiPublishZone api (zoneName z) s1 = (None, s2)" "invar s2" "recs s2 = recs s1"
    using publish [OF s1(2)] by blast
  ultimately have "Apply api (foldl Remove (StartChangeset z) rrs) s = (None, s2)"
    using assms(4) by (simp add: Apply_def IsEmpty_def changeset_foldl_Remove StartChangeset_def)
  moreover have "dyn_view recs z s2 = (dyn_view recs z s)(n := {})"
    using dyn_view_update [OF x(2), of 0 s2 rrsA "[]" s] s1(3) s2(3) x(1) by (simp add: ttl_ok_def)
  moreover have "\<forall>k \<in> recs s2. managed k"
    using assms(1) s1(3) s2(3) by (auto simp: dyn_inv_def)
  ultimately show ?thesis using s2(2) by (auto simp: dyn_inv_def)
qed

end

text \<open>
  The contract of the provider follows from the contract of the service, for every zone.
\<close>

sublocale dyn_service \<subseteq> dyndns: rrset_provider "dyndns_ops api zone" "dyn_inv invar recs"
  "dyn_view recs zone" "dyn_name zone" dyn_data for zone
proof unfold_locales
  fix s n assume "dyn_inv invar recs s" and "dyn_name zone n"
  then show "\<exists>rs. opGet (dyndns_ops api zone) n s = Inr rs \<and>
      (\<Union>r \<in> set rs. rrs_of (dyndns_ops api zone) r) = dyn_view recs zone s n \<and>
      (\<forall>r \<in> set rs. opRrdatas (dyndns_ops api zone) r \<noteq> [])"
    using Get_view by simp
next
  fix n and ds :: "string list" and ty t
  assume "dyn_name zone n" "ds \<noteq> []" "\<forall>d \<in> set ds. dyn_data ty d" "ttl_ok t"
  then show "opRrdatas (dyndns_ops api zone) (opNew (dyndns_ops api zone) n ds t ty) = ds \<and>
      opTtl (dyndns_ops api zone) (opNew (dyndns_ops api zone) n ds t ty) = t \<and>
      opType (dyndns_ops api zone) (opNew (dyndns_ops api zone) n ds t ty) = ty"
    using New_accessors [of zone ds t] by (auto simp: dyn_name_iff rel_ok_def comma_free_def dyn_data_def)
qed (simp_all add: apply_replace apply_clear)

section \<open>Properties\<close>

text \<open>The invariant of the in-memory service under management, and what a resolver sees of it.\<close>

abbreviation stub_ok :: "DynDNSAPIStub \<Rightarrow> bool" where
  "stub_ok \<equiv> dyn_inv stub_inv stub_recs"

abbreviation stub_view :: "Zone \<Rightarrow> DynDNSAPIStub \<Rightarrow> string \<Rightarrow> rr set" where
  "stub_view \<equiv> dyn_view stub_recs"

lemma stub_ok_new [simp]: "stub_ok NewDynDNSAPIStub"
  by (simp add: dyn_inv_def)

lemma stub_view_new [simp]: "stub_view z NewDynDNSAPIStub n = {}"
  by (simp add: dyn_view_def)

lemma dyn_name_example [simp]: "dyn_name example_zone ''a.ex.com''"
  by (simp add: dyn_name_def rel_ok_def zone_ok_def relative_def example_zone_def HasSuffix_def
      TrimSuffix_def upper_def less_eq_char_def)

text \<open>
  C15: applying a changeset that removes all record sets \<open>Get\<close> returned for a name and adds
  a new one succeeds and leaves exactly the new records at that name; no other name of the
  zone changes. This is the use the controller makes of changesets.
\<close>

theorem Apply_replaces:
  assumes "stub_ok s" and "dyn_name z n" and "Get stub_api z n s = Inr rrs"
    and "ds \<noteq> []" and "distinct ds" and "\<forall>d \<in> set ds. dyn_data ty d" and "ttl_ok t"
  shows "\<exists>s'. Apply stub_api (Add (foldl Remove (StartChangeset z) rrs) (New z n ds t ty)) s = (None, s')
    \<and> stub_ok s' \<and> stub_view z s' = (stub_view z s)(n := (\<lambda>d. (ty, t, d)) ` set ds)"
  by (rule stub_service.apply_replace [OF assms])

theorem Apply_replaces_witness:
  "Get stub_api example_zone ''a.ex.com'' NewDynDNSAPIStub = Inr [] \<and>
   (\<exists>s'. Apply stub_api (Add (foldl Remove (StartChangeset example_zone) [])
       (New example_zone ''a.ex.com'' [''10.0.0.1'', ''10.0.0.2''] 180 ''A'')) NewDynDNSAPIStub = (None, s')
     \<and> stub_view example_zone s' ''a.ex.com'' = {(''A'', 180, ''10.0.0.1''), (''A'', 180, ''10.0.0.2'')})"
proof -
  have get: "Get stub_api example_zone ''a.ex.com'' NewDynDNSAPIStub = Inr []"
    by (simp add: Get_def stub_api_def stub_GetRecordByName_def NewDynDNSAPIStub_def)
  from Apply_replaces [OF stub_ok_new dyn_name_example get,
      of "[''10.0.0.1'', ''10.0.0.2'']" "''A''" 180] get
  show ?thesis by (auto simp: dyn_data_def type_ok_def upper_def less_eq_char_def ttl_ok_def)
qed

context dyn_service
begin

lemma apply_partial:
  assumes "invar s" and "rel_ok z x" and "comma_free (ds @ d # ds')" and "distinct ds"
    and "type_ok ty" and "ttl_ok t"
    and "\<forall>q \<in> set ds. (x, FormatInt t, ty, q) \<notin> recs s" and "(x, FormatInt t, ty, d) \<in> recs s"
  shows "\<exists>e s'. Apply api (Add (StartChangeset z) (New z (fqdn z x) (ds @ d # ds') t ty)) s = (Some e, s')
    \<and> invar s' \<and> recs s' = (\<lambda>q. (x, FormatInt t, ty, q)) ` set ds \<union> recs s"
proof -
  let ?mk = "mkRecord z x (FormatInt t) ty"
  have recs: "GetRecordsFromDNSRRS z (New z (fqdn z x) (ds @ d # ds') t ty) =
      map ?mk ds @ ?mk d # map ?mk ds'"
    using assms(2,3,6) by (simp add: New_def newRecord_absolute rel_ok_def GetRecords_ptr
        Split_Join comma_free_def)
  have wf: "key_wf (?mk q)" for q using assms(2,5,6) by (rule key_wf_mkRecord)
  have "rkey ` set (map ?mk ds) \<inter> recs s = {}" using assms(7) by auto
  then obtain e s' where "createRecords api (map ?mk ds @ ?mk d # map ?mk ds') s = (Some e, s')" "invar s'"
      "recs s' = rkey ` set (map ?mk ds) \<union> recs s"
    using createRecords_dup [of s "map ?mk ds" "?mk d" "map ?mk ds'"] assms(1,4,7,8) wf
    by (auto simp: distinct_map inj_on_def)
  then show ?thesis
    by (simp add: Apply_def IsEmpty_def Add_def StartChangeset_def recs image_image)
qed

end

text \<open>
  \<open>Apply\<close> is not atomic. When one of the records to add exists already, the call returns
  an error, the records before it have been created and stay, the records after it have not,
  and the zone is not published.
\<close>

theorem Apply_partial:
  assumes "stub_inv s" and "rel_ok z x" and "comma_free (ds @ d # ds')" and "distinct ds"
    and "type_ok ty" and "ttl_ok t"
    and "\<forall>q \<in> set ds. (x, FormatInt t, ty, q) \<notin> stub_recs s" and "(x, FormatInt t, ty, d) \<in> stub_recs s"
  shows "\<exists>e s'. Apply stub_api (Add (StartChangeset z) (New z (fqdn z x) (ds @ d # ds') t ty)) s = (Some e, s')
    \<and> stub_inv s' \<and> stub_recs s' = (\<lambda>q. (x, FormatInt t, ty, q)) ` set ds \<union> stub_recs s"
  by (rule stub_service.apply_partial [OF assms])

theorem Apply_partial_witness:
  "\<exists>e s'. Apply stub_api (Add (StartChangeset example_zone)
      (New example_zone (fqdn example_zone ''a-b'') ([''10.0.0.2''] @ ''10.0.0.1'' # [''10.0.0.3'']) 180 ''A''))
      (snd (stub_CreateRecord example_record NewDynDNSAPIStub)) = (Some e, s')
    \<and> stub_inv s' \<and> stub_recs s' = {(''a-b'', ''180'', ''A'', ''10.0.0.2''), (''a-b'', ''180'', ''A'', ''10.0.0.1'')}"
proof -
  let ?s = "snd (stub_CreateRecord example_record NewDynDNSAPIStub)"
  have s: "?s = \<lparr>stub_rrsets = [(hashKey example_record, example_record)]\<rparr>"
    by (simp add: stub_CreateRecord_def NewDynDNSAPIStub_def Let_def)
  have t: "FormatInt 180 = ''180''"
    by code_simp
  have inv: "stub_inv ?s" and recs: "stub_recs ?s = {(''a-b'', ''180'', ''A'', ''10.0.0.1'')}"
    unfolding s using example_record_wf by (simp_all add: stub_inv_def stub_recs_def) (simp add: example_record_def)
  have rel: "rel_ok example_zone ''a-b''"
    by (simp add: rel_ok_def zone_ok_def relative_def example_zone_def HasSuffix_def upper_def less_eq_char_def)
  from Apply_partial [OF inv rel, of "[''10.0.0.2'']" "''10.0.0.1''" "[''10.0.0.3'']" "''A''" 180]
  show ?thesis
    by (simp add: recs t comma_free_def type_ok_def upper_def less_eq_char_def ttl_ok_def insert_commute)
qed

text \<open>
  \<open>Get\<close> does not report that the service failed: every error of the query (but for a
  panic) becomes an empty list without an error, which is also the answer for a name with no
  records.
\<close>

theorem Get_hides_errors:
  assumes "apiGetRecordByName api (populateRecordWithName n (zeroRecord\<lparr>rZone := zoneName z\<rparr>)) s = Inl e"
    and "\<not> is_panic e"
  shows "Get api z n s = Inr []"
  using assms by (simp add: Get_def)

theorem Get_hides_errors_witness:
  "Get (stub_api\<lparr>apiGetRecordByName := \<lambda>r s. Inl (External ''503'')\<rparr>) example_zone ''a.ex.com''
     (snd (stub_CreateRecord example_record NewDynDNSAPIStub)) = Inr []"
  by (rule Get_hides_errors [where e = "External ''503''"]) simp_all

end
