(* ===== verification/Dyndns_Provider.thy ===== *)
theory Dyndns_Provider
  imports Dyndns_Rrsets
begin

text \<open>
  The entry points of the DynDNS provider (\<open>dyndns.go\<close>, \<open>interface.go\<close>,
  \<open>zones.go\<close>, \<open>zone.go\<close>) and the registry of DNS providers they are found through
  (\<open>federation/pkg/dnsprovider/plugins.go\<close>). The file system (\<open>os.Open\<close>) and the
  parser of the configuration file (\<open>gcfg.ReadInto\<close>) are arguments.
\<close>

section \<open>Configuration\<close>

record ConfigInfo =
  ciDNSZones :: string
  ciCustomer :: string
  ciUser :: string
  ciPassword :: string

definition ProviderName :: string where
  "ProviderName = ''dyndns''"

text \<open>
  \<open>readInto\<close> parses the text of the file into the section \<open>Global\<close>; \<open>None\<close> is the
  nil reader.
\<close>

definition parseConfig :: "(string \<Rightarrow> ConfigInfo res) \<Rightarrow> string option \<Rightarrow> ConfigInfo res" where
  "parseConfig readInto config =
     (case (case config of
              None \<Rightarrow> Inr \<lparr>ciDNSZones = [], ciCustomer = [], ciUser = [], ciPassword = []\<rparr>
            | Some text \<Rightarrow> readInto text) of
        Inl err \<Rightarrow> Inl err
      | Inr configInfo \<Rightarrow>
          if ciDNSZones configInfo = [] then
            Inl (Errorf ''Need to provide at least one DNS Zone in the config file'')
          else if ciCustomer configInfo = [] then
            Inl (Errorf ''Need to provide the customer in the config file'')
          else if ciUser configInfo = [] then
            Inl (Errorf ''Need to provide the user in the config file'')
          else if ciPassword configInfo = [] then
            Inl (Errorf ''Need to provide the password in the config file'')
          else Inr configInfo)"

section \<open>The provider and its zones\<close>

record 's Interface =
  dynDNSAPI :: "'s DynDNSAPI"
  zoneList :: "Zone list"

definition newInterfaceWithStub :: "'s DynDNSAPI \<Rightarrow> 's Interface" where
  "newInterfaceWithStub api = \<lparr>dynDNSAPI = api, zoneList = []\<rparr>"

text \<open>The loop of \<open>newInterface\<close>: the index of a zone in the configuration is its ID.\<close>

fun addZones :: "nat \<Rightarrow> string list \<Rightarrow> 's Interface \<Rightarrow> 's Interface" where
  "addZones index [] intf = intf"
| "addZones index (zone # zones) intf =
     addZones (Suc index) zones
       (intf\<lparr>zoneList := zoneList intf @ [\<lparr>zdomain = zone, zid = Itoa index\<rparr>]\<rparr>)"

definition newInterface :: "ConfigInfo \<Rightarrow> 's DynDNSAPI \<Rightarrow> 's \<Rightarrow> 's Interface res" where
  "newInterface configInfo api s =
     (case apiLogin api (ciUser configInfo) (ciPassword configInfo) s of
        Some err \<Rightarrow> Inl err
      | None \<Rightarrow>
          Inr (addZones 0 (Split (ciDNSZones configInfo) CHR '','') (newInterfaceWithStub api)))"

text \<open>\<open>newClient\<close> is \<open>dynect.NewDynectClient\<close> for the customer of the configuration.\<close>

definition newDynDNSProviderInterface ::
  "(string \<Rightarrow> ConfigInfo res) \<Rightarrow> (string \<Rightarrow> 's DynDNSAPI) \<Rightarrow> string option \<Rightarrow> 's \<Rightarrow> 's Interface res" where
  "newDynDNSProviderInterface readInto newClient config s =
     (case parseConfig readInto config of
        Inl err \<Rightarrow> Inl err
      | Inr configInfo \<Rightarrow> newInterface configInfo (newClient (ciCustomer configInfo)) s)"

definition newFakeInterface ::
  "(string \<Rightarrow> ConfigInfo res) \<Rightarrow> string option \<Rightarrow> DynDNSAPIStub Interface res" where
  "newFakeInterface readInto config =
     (case parseConfig readInto config of
        Inl err \<Rightarrow> Inl err
      | Inr configInfo \<Rightarrow> newInterface configInfo stub_api NewDynDNSAPIStub)"

definition zonesList :: "'s Interface \<Rightarrow> 's \<Rightarrow> Zone list res" where
  "zonesList intf s = Inr (map (\<lambda>zone. zone) (zoneList intf))"

definition zonesAdd :: "Zone \<Rightarrow> 's \<Rightarrow> Zone res \<times> 's" where
  "zonesAdd zone s = (Inl (Errorf ''OperationNotSupported''), s)"

definition zonesRemove :: "Zone \<Rightarrow> 's \<Rightarrow> error option \<times> 's" where
  "zonesRemove zone s = (Some (Errorf ''OperationNotSupported''), s)"

definition zonesNew :: "string \<Rightarrow> 's \<Rightarrow> Zone res" where
  "zonesNew name s = Inl (Errorf ''OperationNotSupported'')"

definition zoneResourceRecordSets ::
  "'s DynDNSAPI \<Rightarrow> Zone \<Rightarrow> ('s, ResourceRecordSet, ResourceRecordChangeset) rrsets_ops option" where
  "zoneResourceRecordSets api zone = Some (dyndns_ops api zone)"

definition interfaceZones ::
  "'s Interface \<Rightarrow> ('s, Zone, ResourceRecordSet, ResourceRecordChangeset) zones_ops option" where
  "interfaceZones intf =
     Some \<lparr>zsList = zonesList intf, zsAdd = zonesAdd, zsRemove = zonesRemove, zsNew = zonesNew,
       zsName = zoneName, zsID = zoneID, zsRrsets = zoneResourceRecordSets (dynDNSAPI intf)\<rparr>"

definition dyn_provider ::
  "'s Interface \<Rightarrow> ('s, Zone, ResourceRecordSet, ResourceRecordChangeset) provider" where
  "dyn_provider intf = \<lparr>prZones = interfaceZones intf\<rparr>"

section \<open>The registry\<close>

type_synonym ('s, 'z, 'r, 'c) dns_factory = "string option \<Rightarrow> 's \<Rightarrow> ('s, 'z, 'r, 'c) provider res"

definition RegisterDnsProvider ::
  "string \<Rightarrow> ('s, 'z, 'r, 'c) dns_factory \<Rightarrow> (string \<times> ('s, 'z, 'r, 'c) dns_factory) list \<Rightarrow>
   (string \<times> ('s, 'z, 'r, 'c) dns_factory) list res" where
  "RegisterDnsProvider name cloud providers =
     (case map_of providers name of
        Some _ \<Rightarrow> Inl (Errorf ''DNS provider was registered twice'')
      | None \<Rightarrow> Inr (map_put name cloud providers))"

definition GetDnsProvider ::
  "(string \<times> ('s, 'z, 'r, 'c) dns_factory) list \<Rightarrow> string \<Rightarrow> string option \<Rightarrow> 's \<Rightarrow>
   ('s, 'z, 'r, 'c) provider option res" where
  "GetDnsProvider providers name config s =
     (case map_of providers name of
        None \<Rightarrow> Inr None
      | Some f \<Rightarrow> (case f config s of Inl err \<Rightarrow> Inl err | Inr p \<Rightarrow> Inr (Some p)))"

definition RegisteredDnsProviders :: "(string \<times> ('s, 'z, 'r, 'c) dns_factory) list \<Rightarrow> string list" where
  "RegisteredDnsProviders providers = map fst providers"

definition InitDnsProvider ::
  "(string \<Rightarrow> string res) \<Rightarrow> (string \<times> ('s, 'z, 'r, 'c) dns_factory) list \<Rightarrow> string \<Rightarrow> string \<Rightarrow> 's \<Rightarrow>
   ('s, 'z, 'r, 'c) provider option res" where
  "InitDnsProvider openFile providers name configFilePath s =
     (if name = [] then Inr None
      else
        case (if configFilePath \<noteq> [] then
                (case openFile configFilePath of
                   Inl err \<Rightarrow> Inl (wrap ''Couldn't open DNS provider configuration'' err)
                 | Inr text \<Rightarrow> Inr (GetDnsProvider providers name (Some text) s))
              else Inr (GetDnsProvider providers name None s)) of
          Inl err \<Rightarrow> Inl err
        | Inr (Inl err) \<Rightarrow> Inl (wrap ''could not init DNS provider'' err)
        | Inr (Inr None) \<Rightarrow> Inl (Errorf ''unknown DNS provider'')
        | Inr (Inr (Some p)) \<Rightarrow> Inr (Some p))"

text \<open>The registration in \<open>init\<close>.\<close>

definition dyndns_factory ::
  "(string \<Rightarrow> ConfigInfo res) \<Rightarrow> (string \<Rightarrow> 's DynDNSAPI) \<Rightarrow>
   ('s, Zone, ResourceRecordSet, ResourceRecordChangeset) dns_factory" where
  "dyndns_factory readInto newClient config s =
     (case newDynDNSProviderInterface readInto newClient config s of
        Inl err \<Rightarrow> Inl err
      | Inr intf \<Rightarrow> Inr (dyn_provider intf))"

section \<open>Lemmas\<close>

lemma parseConfig_ok_iff:
  "(\<exists>ci. parseConfig readInto config = Inr ci) \<longleftrightarrow>
   (\<exists>text ci. config = Some text \<and> readInto text = Inr ci \<and> ciDNSZones ci \<noteq> [] \<and>
      ciCustomer ci \<noteq> [] \<and> ciUser ci \<noteq> [] \<and> ciPassword ci \<noteq> [])"
  by (auto simp: parseConfig_def split: option.splits sum.splits)

lemma parseConfig_value:
  "parseConfig readInto config = Inr ci \<Longrightarrow>
   \<exists>text. config = Some text \<and> readInto text = Inr ci \<and> ciDNSZones ci \<noteq> [] \<and>
      ciCustomer ci \<noteq> [] \<and> ciUser ci \<noteq> [] \<and> ciPassword ci \<noteq> []"
  by (auto simp: parseConfig_def split: option.splits sum.splits if_splits)

lemma addZones_names: "map zdomain (zoneList (addZones i ns intf)) = map zdomain (zoneList intf) @ ns"
  by (induction ns arbitrary: i intf) simp_all

lemma addZones_ids:
  "map zid (zoneList (addZones i ns intf)) = map zid (zoneList intf) @ map Itoa [i..<i + length ns]"
proof (induction ns arbitrary: i intf)
  case (Cons n ns)
  have "[i..<i + length (n # ns)] = i # [Suc i..<Suc i + length ns]"
    by (simp add: upt_rec)
  then show ?case using Cons.IH [of "Suc i"] by simp
qed simp

lemma addZones_api [simp]: "dynDNSAPI (addZones i ns intf) = dynDNSAPI intf"
  by (induction ns arbitrary: i intf) simp_all

lemma Itoa_inj: "Itoa m = Itoa n \<Longrightarrow> m = n"
proof -
  assume "Itoa m = Itoa n"
  then have "ParseUint (Uitoa m) = ParseUint (Uitoa n)" by (simp add: Itoa_def FormatInt_def del: Uitoa.simps)
  then show "m = n" by (simp del: Uitoa.simps)
qed

lemma newInterface_value:
  "newInterface ci api s = Inr intf \<Longrightarrow>
   intf = addZones 0 (Split (ciDNSZones ci) CHR '','') (newInterfaceWithStub api)"
  by (auto simp: newInterface_def split: option.splits)

lemma newInterface_zones:
  assumes "newInterface ci api s = Inr intf"
  shows "map zdomain (zoneList intf) = Split (ciDNSZones ci) CHR '','' \<and>
    distinct (map zid (zoneList intf)) \<and> dynDNSAPI intf = api"
proof -
  have "inj_on Itoa A" for A using Itoa_inj by (rule inj_onI)
  then show ?thesis
    using newInterface_value [OF assms]
    by (simp add: addZones_names addZones_ids newInterfaceWithStub_def distinct_map)
qed

end
