(* ===== verification/DNS_Publishing.thy ===== *)
theory DNS_Publishing
  imports Dyndns_Provider
begin

text \<open>
  The DNS controller on the DynDNS provider: what \<open>EnsureDNSRrsets\<close> and
  \<open>ensureDNSRecords\<close> do to the records of a DynDNS zone. The lemmas are the facts of the
  contract \<open>rrset_provider\<close> for the provider, and what is particular to DynDNS: it stores
  a record set with many values as many record sets with one value.
\<close>

section \<open>Record sets as DynDNS returns them\<close>

context dyn_service
begin

lemma single_found:
  assumes "dyn_inv invar recs s" and "rel_ok z x" and "Get api z (fqdn z x) s = Inr rrs"
    and "(ty, t, v) \<in> dyn_view recs z s (fqdn z x)"
  shows "findRrset (dyndns_ops api z) rrs (New z (fqdn z x) [v] t ty) \<noteq> None"
proof -
  obtain rs where "Get api z (fqdn z x) s = Inr (map RrsetVal rs)"
      and keys: "rkey ` set rs = {k \<in> recs s. fst k = x}"
    by (rule Get_by_name [OF assms(1,2)])
  with assms(3) have rrs: "rrs = map RrsetVal rs" by simp
  have t: "ttl_ok t" and "(x, FormatInt t, ty, v) \<in> {k \<in> recs s. fst k = x}"
    using assms(4) by (auto simp: dyn_view_fqdn)
  then obtain r where r: "r \<in> set rs" "rkey r = (x, FormatInt t, ty, v)"
    using keys by (metis (no_types, lifting) imageE)
  have v: "CHR '','' \<notin> set v"
    using assms(1) \<open>_ \<in> {k \<in> recs s. fst k = x}\<close> by (auto simp: dyn_inv_def managed_def)
  have "ResourceRecordSetsEquivalent (dyndns_ops api z) (New z (fqdn z x) [v] t ty) (RrsetVal r)"
    using r(2) t v assms(2) New_accessors [of z "[v]" t x ty]
    by (simp add: ResourceRecordSetsEquivalent_def rkey_def rel_ok_def comma_free_def Name_def
        Rrdatas_def Type_def Split_no_sep)
  then show ?thesis using r(1) by (auto simp: findRrset_None rrs)
qed

lemma many_not_found:
  assumes "dyn_inv invar recs s" and "rel_ok z x" and "Get api z (fqdn z x) s = Inr rrs"
    and "comma_free ds" and "ttl_ok t" and "2 \<le> length ds"
  shows "findRrset (dyndns_ops api z) rrs (New z (fqdn z x) ds t ty) = None"
proof -
  obtain rs where "Get api z (fqdn z x) s = Inr (map RrsetVal rs)"
      and rs: "\<forall>r \<in> set rs. managed (rkey r) \<and> rName r = x \<and> type_ok (rType r)"
    by (rule Get_by_name [OF assms(1,2)])
  with assms(3) have rrs: "rrs = map RrsetVal rs" by simp
  have "Rrdatas (RrsetVal r) \<noteq> ds" if "r \<in> set rs" for r
    using rs that assms(6) by (auto simp: managed_def rkey_def Rrdatas_def Split_no_sep)
  then show ?thesis
    using assms(2,4,5) New_accessors [of z ds t x ty]
    by (auto simp: findRrset_None rrs ResourceRecordSetsEquivalent_def rel_ok_def)
qed

lemma dyn_data_address: "\<forall>a. ParseIP a \<longrightarrow> dyn_data rrsA a"
  using ParseIP_no_comma by (auto simp: dyn_data_def rrsA_def type_ok_def upper_def less_eq_char_def)

lemma dyn_data_cname: "CHR '','' \<notin> set up \<Longrightarrow> dyn_data rrsCNAME up"
  by (auto simp: dyn_data_def rrsCNAME_def type_ok_def upper_def less_eq_char_def)

text \<open>With two addresses or more the records at the name are always replaced.\<close>

lemma ensure_many:
  assumes inv: "dyn_inv invar recs s" and n: "dyn_name z n"
    and res: "resolvable lookup eps" "lookup_ok lookup"
    and two: "2 \<le> card (addresses lookup eps)"
  shows "\<exists>s'. EnsureDNSRrsets lookup (Some (dyndns_ops api z)) n eps up s = (None, s') \<and>
    dyn_inv invar recs s' \<and>
    dyn_view recs z s' = (dyn_view recs z s)(n := (\<lambda>a. (rrsA, minDNSTTL, a)) ` addresses lookup eps)"
proof -
  let ?ds = "List_set (addresses lookup eps)"
  obtain x where x: "n = fqdn z x" "rel_ok z x" using n by (auto simp: dyn_name_iff)
  obtain rrs where get: "Get api z n s = Inr rrs" using Get_view [OF inv n] by blast
  have eps: "eps \<noteq> []" using two by auto
  have dat: "\<forall>d \<in> set ?ds. dyn_data rrsA d"
    using addresses_ParseIP [OF res(2)] dyn_data_address by auto
  then have ds: "comma_free ?ds" "?ds \<noteq> []"
    using addresses_nonempty [OF res(2,1) eps] by (auto simp: comma_free_def dyn_data_def)
  have len: "2 \<le> length ?ds" using two distinct_card [OF List_set_distinct] by (metis List_set_set finite_addresses)
  have "findRrset (dyndns_ops api z) rrs (New z n ?ds minDNSTTL rrsA) = None"
    using many_not_found [OF inv x(2) _ ds(1) minDNSTTL_ok len] get x(1) by simp
  with apply_replace [OF inv n get ds(2) List_set_distinct dat minDNSTTL_ok] show ?thesis
    using EnsureDNSRrsets_addresses [of "dyndns_ops api z" n s rrs lookup eps up] get res(1) eps by simp
qed

text \<open>With one address that is published already nothing happens, whatever else is there.\<close>

lemma ensure_single_present:
  assumes inv: "dyn_inv invar recs s" and n: "dyn_name z n"
    and res: "resolvable lookup eps" and one: "addresses lookup eps = {a}"
    and present: "(rrsA, minDNSTTL, a) \<in> dyn_view recs z s n"
  shows "EnsureDNSRrsets lookup (Some (dyndns_ops api z)) n eps up s = (None, s)"
proof -
  obtain x where x: "n = fqdn z x" "rel_ok z x" using n by (auto simp: dyn_name_iff)
  obtain rrs where get: "Get api z n s = Inr rrs" using Get_view [OF inv n] by blast
  have eps: "eps \<noteq> []" using one addresses_Nil insert_not_empty by metis
  obtain r where r: "findRrset (dyndns_ops api z) rrs (New z n [a] minDNSTTL rrsA) = Some r"
    using single_found [OF inv x(2), of rrs rrsA minDNSTTL a] get present x(1) by auto
  have ds: "List_set (addresses lookup eps) = [a]" unfolding one by (simp add: List_set_def)
  from EnsureDNSRrsets_addresses [of "dyndns_ops api z" n s rrs lookup eps up] get res eps r
  show ?thesis unfolding ds by simp
qed

end

section \<open>Properties of EnsureDNSRrsets on DynDNS\<close>

text \<open>
  C13: \<open>EnsureDNSRrsets\<close> on a DynDNS zone succeeds when its endpoints resolve. Unless the
  records at the name are stale (they include all the wanted ones and more), they become
  exactly the desired ones: one A record per address of the endpoints, or a CNAME record to
  the level above, or nothing. No other name changes and the zone stays well formed.
\<close>

theorem ensure_dyndns:
  assumes "stub_ok s" and "dyn_name z n" and "resolvable lookup eps" and "lookup_ok lookup"
    and "CHR '','' \<notin> set up" and "\<not> stale lookup (stub_view z s n) eps up"
  shows "\<exists>s'. EnsureDNSRrsets lookup (Some (dyndns_ops stub_api z)) n eps up s = (None, s') \<and> stub_ok s' \<and>
    stub_view z s' = (stub_view z s)(n := desired lookup eps up)"
  using stub_service.dyndns.ensure_exact [OF assms(1-4) stub_service.dyn_data_address
      stub_service.dyn_data_cname [OF assms(5)] assms(6)] .

lemma example_addresses:
  "resolvable example_lookup [''lb.example.com'']"
  "addresses example_lookup [''lb.example.com''] = {''10.0.0.1'', ''10.0.0.2''}"
proof -
  have "\<not> ParseIP ''lb.example.com''" by code_simp
  then show "resolvable example_lookup [''lb.example.com'']"
    "addresses example_lookup [''lb.example.com''] = {''10.0.0.1'', ''10.0.0.2''}"
    by (auto simp: resolvable_def addresses_def addrs_of_def example_lookup_def)
qed

theorem ensure_dyndns_witness:
  "\<exists>s'. EnsureDNSRrsets example_lookup (Some (dyndns_ops stub_api example_zone)) ''a.ex.com''
       [''lb.example.com''] ''b.ex.com'' NewDynDNSAPIStub = (None, s') \<and> stub_ok s' \<and>
     stub_view example_zone s' ''a.ex.com'' = {(''A'', 180, ''10.0.0.1''), (''A'', 180, ''10.0.0.2'')}"
proof -
  have "\<not> stale example_lookup (stub_view example_zone NewDynDNSAPIStub ''a.ex.com'') [''lb.example.com''] ''b.ex.com''"
    by (simp add: stale_def wanted_def example_addresses)
  from ensure_dyndns [OF stub_ok_new dyn_name_example example_addresses(1) example_lookup_ok _ this]
  show ?thesis by (auto simp: wanted_def example_addresses rrsA_def minDNSTTL_def)
qed

text \<open>
  \<open>EnsureDNSRrsets\<close> is idempotent as a resolver sees it: a second call with the same
  arguments succeeds and leaves every name of the zone with the records it had.
\<close>

theorem ensure_dyndns_idem:
  assumes "stub_ok s" and "dyn_name z n" and "resolvable lookup eps" and "lookup_ok lookup"
    and "CHR '','' \<notin> set up"
    and "EnsureDNSRrsets lookup (Some (dyndns_ops stub_api z)) n eps up s = (None, s1)"
  shows "\<exists>s2. EnsureDNSRrsets lookup (Some (dyndns_ops stub_api z)) n eps up s1 = (None, s2) \<and>
    stub_ok s2 \<and> stub_view z s2 = stub_view z s1"
  using stub_service.dyndns.ensure_idem [OF assms(1-4) stub_service.dyn_data_address
      stub_service.dyn_data_cname [OF assms(5)] assms(6)] .

theorem ensure_dyndns_idem_witness:
  "\<exists>s1 s2. EnsureDNSRrsets example_lookup (Some (dyndns_ops stub_api example_zone)) ''a.ex.com''
       [''lb.example.com''] ''b.ex.com'' NewDynDNSAPIStub = (None, s1) \<and>
     EnsureDNSRrsets example_lookup (Some (dyndns_ops stub_api example_zone)) ''a.ex.com''
       [''lb.example.com''] ''b.ex.com'' s1 = (None, s2) \<and> stub_view example_zone s2 = stub_view example_zone s1"
proof -
  have up: "CHR '','' \<notin> set ''b.ex.com''" by simp
  obtain s1 where s1: "EnsureDNSRrsets example_lookup (Some (dyndns_ops stub_api example_zone)) ''a.ex.com''
       [''lb.example.com''] ''b.ex.com'' NewDynDNSAPIStub = (None, s1)"
    using stub_service.ensure_many [OF stub_ok_new dyn_name_example example_addresses(1) example_lookup_ok]
    by (auto simp: example_addresses)
  with ensure_dyndns_idem [OF stub_ok_new dyn_name_example example_addresses(1) example_lookup_ok up s1]
  show ?thesis by blast
qed

text \<open>
  With two or more addresses the records at the name are exactly the A records of the
  addresses after the call, whatever was there before: the stored records have one value each,
  so no stored record set is ever equivalent to the wanted one and all are replaced.
\<close>

theorem ensure_dyndns_many:
  assumes "stub_ok s" and "dyn_name z n" and "resolvable lookup eps" and "lookup_ok lookup"
    and "2 \<le> card (addresses lookup eps)"
  shows "\<exists>s'. EnsureDNSRrsets lookup (Some (dyndns_ops stub_api z)) n eps up s = (None, s') \<and> stub_ok s' \<and>
    stub_view z s' = (stub_view z s)(n := (\<lambda>a. (rrsA, minDNSTTL, a)) ` addresses lookup eps)"
  by (rule stub_service.ensure_many [OF assms])

theorem ensure_dyndns_many_witness:
  "2 \<le> card (addresses example_lookup [''lb.example.com'']) \<and>
   (\<exists>s'. EnsureDNSRrsets example_lookup (Some (dyndns_ops stub_api example_zone)) ''a.ex.com''
       [''lb.example.com''] [] NewDynDNSAPIStub = (None, s') \<and> stub_ok s')"
proof -
  have two: "2 \<le> card (addresses example_lookup [''lb.example.com''])" by (simp add: example_addresses)
  from ensure_dyndns_many [OF stub_ok_new dyn_name_example example_addresses(1) example_lookup_ok two] two
  show ?thesis by blast
qed

text \<open>
  With one address that is published already the call reports success and changes
  nothing, even when other addresses are published at the name too. So when a set of endpoints
  shrinks to one of its addresses, the addresses that are gone stay in the DNS.
\<close>

theorem ensure_dyndns_stale:
  assumes "stub_ok s" and "dyn_name z n" and "resolvable lookup eps" and "addresses lookup eps = {a}"
    and "(rrsA, minDNSTTL, a) \<in> stub_view z s n"
  shows "EnsureDNSRrsets lookup (Some (dyndns_ops stub_api z)) n eps up s = (None, s)"
  by (rule stub_service.ensure_single_present [OF assms])

text \<open>The witness: two addresses are published, then one of them goes away.\<close>

theorem ensure_dyndns_stale_witness:
  "\<exists>s. stub_view example_zone s ''a.ex.com'' = {(''A'', 180, ''10.0.0.1''), (''A'', 180, ''10.0.0.2'')} \<and>
     EnsureDNSRrsets example_lookup (Some (dyndns_ops stub_api example_zone)) ''a.ex.com''
       [''10.0.0.1''] [] s = (None, s)"
proof -
  obtain s where s: "stub_ok s" and
    v: "stub_view example_zone s ''a.ex.com'' = {(''A'', 180, ''10.0.0.1''), (''A'', 180, ''10.0.0.2'')}"
    using stub_service.ensure_many [OF stub_ok_new dyn_name_example example_addresses(1) example_lookup_ok, of "[]"]
    by (auto simp: example_addresses rrsA_def minDNSTTL_def)
  have ip: "ParseIP ''10.0.0.1''" by code_simp
  have one: "resolvable example_lookup [''10.0.0.1'']" "addresses example_lookup [''10.0.0.1''] = {''10.0.0.1''}"
    using ip by (simp_all add: resolvable_def addresses_def addrs_of_def)
  from ensure_dyndns_stale [OF s dyn_name_example one] v show ?thesis
    by (auto simp: rrsA_def minDNSTTL_def)
qed

section \<open>Publishing an ingress\<close>

text \<open>
  A controller whose zone is a zone of a DynDNS provider, an ingress and a cluster whose three
  names lie in that zone.
\<close>

definition publishes ::
  "'s DynDNSAPI \<Rightarrow> ('s, Zone, ResourceRecordSet, ResourceRecordChangeset) IngressDNSController \<Rightarrow> Zone \<Rightarrow>
   dns_env \<Rightarrow> string \<Rightarrow> Ingress \<Rightarrow> string \<Rightarrow> string \<Rightarrow> string \<Rightarrow> bool" where
  "publishes api idc z env c ingress n0 n1 n2 \<longleftrightarrow>
     (\<exists>intf zn zns rn. dynDNSAPI intf = api \<and> dnsZones idc = interfaceZones intf \<and> dnsZone idc = Some z \<and>
        getClusterZoneNames env c = Inr (Some (zn # zns), rn) \<and>
        dnsNames idc ingress zn rn = [n0, n1, n2, []]) \<and>
     (\<forall>n \<in> {n0, n1, n2}. dyn_name z n \<and> CHR '','' \<notin> set n)"

context dyn_service
begin

lemma publish_exact:
  assumes pub: "publishes api idc z env c ingress n0 n1 n2"
    and eps: "getHealthyEndpoints env c ingress = Inr (e0, e1, e2)"
    and inv: "dyn_inv invar recs s" and lk: "lookup_ok (lookupHost env)"
    and res: "\<forall>e \<in> {e0, e1, e2}. resolvable (lookupHost env) e"
    and fresh: "\<not> stale (lookupHost env) (dyn_view recs z s n0) e0 n1"
      "\<not> stale (lookupHost env) (dyn_view recs z s n1) e1 n2"
      "\<not> stale (lookupHost env) (dyn_view recs z s n2) e2 []"
  shows "\<exists>s'. ensureDNSRecords env idc c ingress s = (None, s') \<and> dyn_inv invar recs s' \<and>
    dyn_view recs z s' = (dyn_view recs z s)(n0 := desired (lookupHost env) e0 n1,
      n1 := desired (lookupHost env) e1 n2, n2 := desired (lookupHost env) e2 []) \<and>
    answers 3 (dyn_view recs z s') n0 = nearest (lookupHost env) [e0, e1, e2]"
proof -
  obtain intf zn zns rn where p: "dynDNSAPI intf = api" "dnsZones idc = interfaceZones intf" "dnsZone idc = Some z"
      "getClusterZoneNames env c = Inr (Some (zn # zns), rn)" "dnsNames idc ingress zn rn = [n0, n1, n2, []]"
    using pub unfolding publishes_def by blast
  have names: "dyn_name z n0" "dyn_name z n1" "dyn_name z n2"
    and dat: "dyn_data rrsCNAME n1" "dyn_data rrsCNAME n2" "dyn_data rrsCNAME []"
    using pub by (auto simp: publishes_def intro: dyn_data_cname)
  obtain zones where zones: "dnsZones idc = Some zones" "zsRrsets zones z = Some (dyndns_ops api z)"
    using p(1,2) by (simp add: interfaceZones_def zoneResourceRecordSets_def)
  show ?thesis
    by (rule dyndns.ensureDNSRecords_exact [OF zones(1) p(3) zones(2) p(4) eps p(5) names inv lk res
          dyn_data_address dat fresh])
qed

end


definition example_controller ::
  "(DynDNSAPIStub, Zone, ResourceRecordSet, ResourceRecordChangeset) IngressDNSController" where
  "example_controller =
     (let intf = \<lparr>dynDNSAPI = stub_api, zoneList = [example_zone]\<rparr> in
      \<lparr>dns = Some (dyn_provider intf), domain = ''ex.com'', federationName = ''fed'',
       ingressDNSSuffix = ''ing'', dnsZone = Some example_zone, dnsZones = interfaceZones intf,
       workQueue = wqNew\<rparr>)"

lemma example_publishes:
  assumes "omName (inMeta ing) = ''web''" and "omNamespace (inMeta ing) = ''ns''"
  shows "publishes stub_api example_controller example_zone example_env ''c1'' ing
   ''web.ns.fed.ing.z1.r1.ex.com'' ''web.ns.fed.ing.r1.ex.com'' ''web.ns.fed.ing.ex.com''"
proof -
  have c: "dnsZones example_controller = interfaceZones \<lparr>dynDNSAPI = stub_api, zoneList = [example_zone]\<rparr>"
    "dnsZone example_controller = Some example_zone"
    by (simp_all add: example_controller_def Let_def)
  have n: "dnsNames example_controller ing ''z1'' ''r1'' =
      [''web.ns.fed.ing.z1.r1.ex.com'', ''web.ns.fed.ing.r1.ex.com'', ''web.ns.fed.ing.ex.com'', []]"
    using assms by (simp add: dnsNames_def commonPrefix_def example_controller_def Let_def)
  have "\<forall>n \<in> {''web.ns.fed.ing.z1.r1.ex.com'', ''web.ns.fed.ing.r1.ex.com'', ''web.ns.fed.ing.ex.com''}.
      dyn_name example_zone n \<and> CHR '','' \<notin> set n"
    by (simp add: dyn_name_def rel_ok_def zone_ok_def relative_def example_zone_def HasSuffix_def
        TrimSuffix_def upper_def less_eq_char_def)
  with c n example_cluster_names(1) show ?thesis
    unfolding publishes_def by (metis select_convs(1) Interface.select_convs(1))
qed


text \<open>
  When the ingress is being deleted, its global name loses its records, but the zone and
  region names are given CNAME records to the level above: they are left in the DNS, pointing
  to a name that has no records.
\<close>

theorem deleted_ingress_dangles:
  assumes "publishes stub_api idc z env c ingress n0 n1 n2"
    and "omDeletionTimestamp (inMeta ingress) \<noteq> None"
    and "stub_ok s" and "lookup_ok (lookupHost env)"
    and "\<forall>n \<in> {n0, n1, n2}. \<forall>rr \<in> stub_view z s n. fst rr = rrsA"
  shows "\<exists>s'. ensureDNSRecords env idc c ingress s = (None, s') \<and>
    stub_view z s' n0 = {(rrsCNAME, minDNSTTL, n1)} \<and> stub_view z s' n1 = {(rrsCNAME, minDNSTTL, n2)} \<and>
    stub_view z s' n2 = {} \<and> answers 3 (stub_view z s') n0 = {}"
proof -
  obtain zr zn rn where "getClusterZoneNames env c = Inr zr" and n: "dnsNames idc ingress zn rn = [n0, n1, n2, []]"
    using assms(1) unfolding publishes_def by blast
  then have e: "getHealthyEndpoints env c ingress = Inr ([], [], [])"
    using getHealthyEndpoints_deleted assms(2) by blast
  have up: "n1 \<noteq> []" "n2 \<noteq> []" "distinct [n0, n1, n2]" using dnsNames_nth [OF n] by auto
  have "\<not> stale (lookupHost env) (stub_view z s n) [] up" if "n \<in> {n0, n1, n2}" for n up
    using assms(5) that by (auto simp: stale_def wanted_def rrsA_def rrsCNAME_def)
  with stub_service.publish_exact [OF assms(1) e assms(3,4)] obtain s' where
    "ensureDNSRecords env idc c ingress s = (None, s')"
    "stub_view z s' = (stub_view z s)(n0 := desired (lookupHost env) [] n1,
      n1 := desired (lookupHost env) [] n2, n2 := desired (lookupHost env) [] [])"
    "answers 3 (stub_view z s') n0 = nearest (lookupHost env) [[], [], []]"
    by (auto simp: resolvable_def)
  with up show ?thesis by (auto simp: desired_def wanted_def nearest_def)
qed

theorem deleted_ingress_dangles_witness:
  "\<exists>s'. ensureDNSRecords example_env example_controller ''c1''
       (example_ingress\<lparr>inMeta := (inMeta example_ingress)\<lparr>omDeletionTimestamp := Some ''now''\<rparr>\<rparr>) NewDynDNSAPIStub = (None, s') \<and>
     stub_view example_zone s' ''web.ns.fed.ing.r1.ex.com'' = {(''CNAME'', 180, ''web.ns.fed.ing.ex.com'')} \<and>
     stub_view example_zone s' ''web.ns.fed.ing.ex.com'' = {}"
proof -
  let ?ing = "example_ingress\<lparr>inMeta := (inMeta example_ingress)\<lparr>omDeletionTimestamp := Some ''now''\<rparr>\<rparr>"
  have pub: "publishes stub_api example_controller example_zone example_env ''c1'' ?ing
   ''web.ns.fed.ing.z1.r1.ex.com'' ''web.ns.fed.ing.r1.ex.com'' ''web.ns.fed.ing.ex.com''"
    by (rule example_publishes) (simp_all add: example_ingress_def)
  have "lookup_ok (lookupHost example_env)" using example_lookup_ok by (simp add: example_env_def)
  from deleted_ingress_dangles [OF pub _ stub_ok_new this] show ?thesis
    by (auto simp: rrsCNAME_def minDNSTTL_def)
qed

section \<open>Starting the controller on DynDNS\<close>

text \<open>
  The DNS controller can be constructed on a DynDNS provider exactly when the federation
  name and the domain are given and the name of one of the configured zones is contained in the
  domain. DynDNS cannot create zones, so in every other case the construction fails.
\<close>

lemma dyndns_controller_ok:
  assumes "newInterface ci api s = Inr intf" and "sorts_by_length zoneName sortSlice"
  shows "(\<exists>idc. newIngressDNSController sortSlice (Some (dyn_provider intf)) fed sfx d s = Inr idc) \<longleftrightarrow>
    fed \<noteq> [] \<and> d \<noteq> [] \<and>
    (\<exists>zone \<in> set (Split (ciDNSZones ci) CHR '',''). Contains (TrimSuffix d ''.'') (TrimSuffix zone ''.''))"
proof -
  obtain zones where p: "prZones (dyn_provider intf) = Some zones" "zsList zones s = Inr (zoneList intf)"
    and z: "zsName zones = zoneName" "\<And>n. \<exists>e. zsNew zones n s = Inl e"
    by (simp add: dyn_provider_def interfaceZones_def zonesList_def zonesNew_def)
  have names: "zdomain ` set (zoneList intf) = set (Split (ciDNSZones ci) CHR '','')"
    using newInterface_zones [OF assms(1)] by (metis set_map)
  have "set (sortSlice (zoneList intf)) = set (zoneList intf)"
    using assms(2) unfolding sorts_by_length_def by (metis set_mset_mset)
  then have none: "firstContained zoneName (TrimSuffix d ''.'') (sortSlice (zoneList intf)) = None \<longleftrightarrow>
      \<not> (\<exists>zone \<in> zdomain ` set (zoneList intf). Contains (TrimSuffix d ''.'') (TrimSuffix zone ''.''))"
    by (simp add: firstContained_None zoneName_def)
  show ?thesis
    unfolding newIngressDNSController_ok_iff [OF p] z(1) names [symmetric]
    using none z(2) [of d] by (auto split: option.splits)
qed

end
