(* ===== verification/Federation_DNS.thy ===== *)
theory Federation_DNS
  imports Ingress_Examples DNS_Publishing
begin

text \<open>
  The two controllers together: what the ingress controller collects from the member clusters and
  writes into the annotation of the federated ingress is what the DNS controller reads and takes as
  the endpoints of the ingress.
\<close>

section \<open>The annotation\<close>

lemma status_key: "globalIngressLBStatus = globalLBStatusKey"
  by (simp add: globalIngressLBStatus_def globalLBStatusKey_def)

lemma parse_written:
  assumes "annotation i globalLBStatusKey = Some (BuildGlobalLbStatusAnnotation m)"
    and "keys_distinct m" and "lb_map_ascii m"
  shows "parseGlobalLbStatusAnnotation denv i = Inr (Some (rangeOrder denv (sort_key fst m)))"
  using assms
  by (simp add: parseGlobalLbStatusAnnotation_def status_key BuildGlobalLbStatusAnnotation_def unmarshal_marshal)

text \<open>
  C3. The annotation round trip: when the ingress controller annotates an ingress with the statuses of the
  load balancers, whatever annotations it had, the DNS controller reads the same map from it, visited in
  the order of its own choice.
\<close>

theorem annotation_roundtrip:
  assumes "keys_distinct m" and "lb_map_ascii m"
  shows "parseGlobalLbStatusAnnotation denv
      (ingress\<lparr>inMeta := setAnnotation globalLBStatusKey (BuildGlobalLbStatusAnnotation m) (inMeta ingress)\<rparr>) =
    Inr (Some (rangeOrder denv (sort_key fst m)))"
  by (rule parse_written [OF _ assms]) (simp add: setAnnotation_def)

theorem annotation_roundtrip_witness:
  "parseGlobalLbStatusAnnotation example_env
      (exBase\<lparr>inMeta := setAnnotation globalLBStatusKey (BuildGlobalLbStatusAnnotation
         [(''b'', [\<lparr>lbsIngress = [\<lparr>lbIP = ''10.0.0.2'', lbHostname = []\<rparr>]\<rparr>]), (''a'', [])]) (inMeta exBase)\<rparr>) =
    Inr (Some [(''a'', []), (''b'', [\<lparr>lbsIngress = [\<lparr>lbIP = ''10.0.0.2'', lbHostname = []\<rparr>]\<rparr>])])"
proof -
  let ?m = "[(''b'', [\<lparr>lbsIngress = [\<lparr>lbIP = ''10.0.0.2'', lbHostname = []\<rparr>]\<rparr>]), (''a'', [])]"
  have "keys_distinct ?m" by simp
  moreover have "lb_map_ascii ?m" by code_simp
  moreover have "sort_key fst ?m = [(''a'', []), (''b'', [\<lparr>lbsIngress = [\<lparr>lbIP = ''10.0.0.2'', lbHostname = []\<rparr>]\<rparr>])]"
    by code_simp
  ultimately show ?thesis using annotation_roundtrip [of ?m example_env exBase] by (simp add: example_env_def)
qed

section \<open>From the member clusters to the endpoints\<close>

text \<open>The clusters that report addresses: ready, selected, with a copy whose load balancer has some.\<close>

definition reporting :: "Ingress \<Rightarrow> (string \<Rightarrow> Ingress option) \<Rightarrow> Cluster list \<Rightarrow> (string \<times> Ingress) set" where
  "reporting base found cs =
     {(clName c, ci) |c ci. c \<in> set cs \<and> sendTo base c = Inr True \<and> found (clName c) = Some ci \<and>
       lbsIngress (inStatus ci) \<noteq> []}"

lemma statuses_Cons:
  "statuses base found (c # cs) =
     (case reported base c (found (clName c)) of Some s \<Rightarrow> [(clName c, [s])] | None \<Rightarrow> []) @ statuses base found cs"
  by (simp add: statuses_def map_filter_simps split: option.splits)

lemma reported_Some:
  "reported base c v = Some s \<longleftrightarrow>
     (\<exists>ci. sendTo base c = Inr True \<and> v = Some ci \<and> s = inStatus ci \<and> lbsIngress s \<noteq> [])"
  by (auto simp: reported_def split: sum.splits option.splits bool.splits)

lemma set_statuses: "set (statuses base found cs) = (\<lambda>(n, ci). (n, [inStatus ci])) ` reporting base found cs"
proof (induction cs)
  case (Cons c cs)
  have "set (case reported base c (found (clName c)) of Some s \<Rightarrow> [(clName c, [s])] | None \<Rightarrow> []) =
      (\<lambda>(n, ci). (n, [inStatus ci])) ` reporting base found [c]"
    by (auto simp: reporting_def image_def reported_Some split: option.splits)
      (metis not_None_eq reported_Some)+
  moreover have "reporting base found (c # cs) = reporting base found [c] \<union> reporting base found cs"
    by (auto simp: reporting_def)
  ultimately show ?case by (simp add: statuses_Cons Cons.IH image_Un)
qed (simp add: statuses_def map_filter_simps reporting_def)

lemma keys_distinct_statuses: "distinct (map clName cs) \<Longrightarrow> keys_distinct (statuses base found cs)"
proof (induction cs)
  case (Cons c cs)
  have "fst ` set (statuses base found cs) \<subseteq> clName ` set cs"
    by (auto simp: set_statuses reporting_def)
  then show ?case using Cons by (auto simp: statuses_Cons split: option.splits)
qed (simp add: statuses_def map_filter_simps)

lemma annotation_written:
  assumes "view_settled ingress base found ic" and "envAPI env = trackerAPI" and "fw_wf w"
    and "trackerMap ingressKind (fwIngresses w) (objKey ingressKind base) = Some base"
    and "reconcileIngress env ingress (ic, w) = (ic', w')"
  shows "\<exists>i. trackerMap ingressKind (fwIngresses w') (objKey ingressKind base) = Some i \<and>
    omDeletionTimestamp (inMeta i) = None \<and> inSpec i = inSpec base \<and>
    annotation i globalLBStatusKey =
      Some (BuildGlobalLbStatusAnnotation (statuses base found (readyList (ingressFederatedInformer ic))))"
proof -
  let ?st = "BuildGlobalLbStatusAnnotation (statuses base found (readyList (ingressFederatedInformer ic)))"
  let ?ops = "plan (nnString ingress) base found (readyList (ingressFederatedInformer ic))"
  have live: "omDeletionTimestamp (inMeta base) = None" using assms(1) by (simp add: view_settled_def)
  have run: "propagate env ingress base ?ops (statuses base found (readyList (ingressFederatedInformer ic))) (ic, w) = (ic', w')"
    using assms(5) unfolding reconcile_view [OF assms(1)] .
  show ?thesis
  proof (cases "annotation base globalLBStatusKey = Some ?st")
    case True
    have "fwIngresses w' = fwIngresses w"
      using run True assms(2) fuUpdate_federation [of "GetClientsetForCluster (ingressFederatedInformer ic)" "envFinished env" ?ops w]
      by (auto simp: propagate_def Let_def split: if_splits prod.splits option.splits)
    then show ?thesis using assms(4) True live by simp
  next
    case False
    define i where "i = base\<lparr>inMeta := setAnnotation globalLBStatusKey ?st (inMeta base)\<rparr>"
    obtain r objs where react: "reactUpdate ingressKind i (fwIngresses w) = (r, objs)" by fastforce
    have key: "objKey ingressKind i = objKey ingressKind base"
      by (simp add: i_def objKey_def ingressKind_def setAnnotation_def)
    have wf: "trackerWf ingressKind (fwIngresses w)" using assms(3) by (simp add: fw_wf_def)
    have "trackerMap ingressKind objs (objKey ingressKind base) = Some i"
      using reactUpdate_spec [OF kinds_ok(1) wf react] assms(4) key by (auto split: if_splits)
    moreover have "fwIngresses w' = objs"
      using run False assms(2) react
      by (auto simp: propagate_def updateAnnotationOnIngress_def trackerAPI_def onIngresses_def i_def Let_def
          split: sum.splits)
    ultimately show ?thesis using live by (auto simp: i_def setAnnotation_def)
  qed
qed

text \<open>
  C2. From the clusters to the DNS: when the stores are settled, one reconciliation leaves the federated ingress
  in a state from which the DNS controller takes as global endpoints exactly the addresses of the
  load balancers in the reporting clusters, as region endpoints those in the region of the cluster
  it publishes for, and as zone endpoints those in clusters that share a zone with it.
\<close>

theorem endpoints_from_clusters:
  assumes "view_settled ingress base found ic" and "envAPI env = trackerAPI" and "fw_wf w"
    and "trackerMap ingressKind (fwIngresses w) (objKey ingressKind base) = Some base"
    and "reconcileIngress env ingress (ic, w) = (ic', w')"
    and "lb_map_ascii (statuses base found (readyList (ingressFederatedInformer ic)))"
    and "\<forall>(n, ci) \<in> reporting base found (readyList (ingressFederatedInformer ic)). entry_ok denv (n, [inStatus ci])"
    and "\<And>m. set (rangeOrder denv m) = set m"
    and "getClusterZoneNames denv c = Inr zr"
  shows "\<exists>i z r g. trackerMap ingressKind (fwIngresses w') (objKey ingressKind base) = Some i \<and>
    getHealthyEndpoints denv c i = Inr (z, r, g) \<and>
    set g = {lbAddress a |a n ci. (n, ci) \<in> reporting base found (readyList (ingressFederatedInformer ic)) \<and>
      a \<in> set (lbsIngress (inStatus ci))} \<and>
    set r = {lbAddress a |a n ci. (n, ci) \<in> reporting base found (readyList (ingressFederatedInformer ic)) \<and>
      region_of denv n = region_of denv c \<and> a \<in> set (lbsIngress (inStatus ci))} \<and>
    set z = {lbAddress a |a n ci. (n, ci) \<in> reporting base found (readyList (ingressFederatedInformer ic)) \<and>
      same_zone denv c n \<and> a \<in> set (lbsIngress (inStatus ci))}"
proof -
  let ?cs = "readyList (ingressFederatedInformer ic)" and ?R = "reporting base found (readyList (ingressFederatedInformer ic))"
  define m where "m = rangeOrder denv (sort_key fst (statuses base found ?cs))"
  have m: "set m = (\<lambda>(n, ci). (n, [inStatus ci])) ` ?R" unfolding m_def assms(8) set_sort set_statuses ..
  obtain i where i: "trackerMap ingressKind (fwIngresses w') (objKey ingressKind base) = Some i"
      "omDeletionTimestamp (inMeta i) = None"
      "annotation i globalLBStatusKey = Some (BuildGlobalLbStatusAnnotation (statuses base found ?cs))"
    using annotation_written [OF assms(1-5)] by blast
  have "distinct (map clName ?cs)" using assms(1) unfolding view_settled_def by (blast intro: readyList_names(1))
  then have parse: "parseGlobalLbStatusAnnotation denv i = Inr (Some m)"
    unfolding m_def using parse_written [OF i(3) keys_distinct_statuses assms(6)] by blast
  have ok: "\<forall>e \<in> set m. entry_ok denv e" using assms(7) unfolding m by auto
  obtain z r g where "getHealthyEndpoints denv c i = Inr (z, r, g)" and
      sets: "set z = zone_addrs denv c m" "set r = region_addrs denv c m" "set g = global_addrs m"
    using getHealthyEndpoints_sets [OF assms(9) i(2) parse ok] by blast
  moreover have "global_addrs m = {lbAddress a |a n ci. (n, ci) \<in> ?R \<and> a \<in> set (lbsIngress (inStatus ci))}"
    unfolding global_addrs_def m by (force simp: entry_addrs_def)
  moreover have "region_addrs denv c m = {lbAddress a |a n ci. (n, ci) \<in> ?R \<and>
      region_of denv n = region_of denv c \<and> a \<in> set (lbsIngress (inStatus ci))}"
    unfolding region_addrs_def m by (force simp: entry_addrs_def)
  moreover have "zone_addrs denv c m = {lbAddress a |a n ci. (n, ci) \<in> ?R \<and>
      same_zone denv c n \<and> a \<in> set (lbsIngress (inStatus ci))}"
    unfolding zone_addrs_def m by (force simp: entry_addrs_def)
  ultimately show ?thesis using i(1) by metis
qed

text \<open>The copy in cluster \<open>b\<close> has an address, the annotation does not show it yet.\<close>

definition exServed :: Ingress where
  "exServed = exBase\<lparr>inStatus := \<lparr>lbsIngress = [\<lparr>lbIP = ''10.0.0.2'', lbHostname = []\<rparr>]\<rparr>\<rparr>"

definition exServedFound :: "string \<Rightarrow> Ingress option" where
  "exServedFound c = (if c = ''b'' then Some exServed else None)"

definition exServedIC :: "string IngressController" where
  "exServedIC = exController [(''default/web'', exServed)]
     (\<lambda>c. if c = ''b'' then [(''default/web'', exServed)] else [])"

definition exServedWorld :: fed_world where
  "exServedWorld = exWorld [exServed] (\<lambda>c. if c = ''b'' then [exServed] else [])"

definition exDnsEnv :: dns_env where
  "exDnsEnv = \<lparr>getCluster = (\<lambda>c. Inr (example_cluster c (Some [''z'']) ''r'')), lookupHost = example_lookup,
     rangeOrder = (\<lambda>m. m)\<rparr>"

lemma exServed_informer:
  "ingressFederatedInformer exServedIC = exInformer (\<lambda>c. if c = ''b'' then [(''default/web'', exServed)] else [])"
  by (simp add: exServedIC_def exController_def)

lemma exServed_view: "view_settled exName exServed exServedFound exServedIC"
  unfolding view_settled_def exServed_informer exReady exServedIC_def
  by (intro conjI exSynced exInformer_wf) code_simp+

lemma exServed_statuses:
  "statuses exServed exServedFound [exCluster ''a'', exCluster ''b''] =
     [(''b'', [\<lparr>lbsIngress = [\<lparr>lbIP = ''10.0.0.2'', lbHostname = []\<rparr>]\<rparr>])]"
  by code_simp

lemma reporting_rec:
  "reporting base found [] = {}"
  "reporting base found (c # cs) =
     (case found (clName c) of
        Some ci \<Rightarrow> if sendTo base c = Inr True \<and> lbsIngress (inStatus ci) \<noteq> [] then {(clName c, ci)} else {}
      | None \<Rightarrow> {}) \<union> reporting base found cs"
  by (auto simp: reporting_def split: option.splits)

lemma exServed_reporting: "reporting exServed exServedFound [exCluster ''a'', exCluster ''b''] = {(''b'', exServed)}"
proof -
  have "sendTo exServed (exCluster ''b'') = Inr True" by code_simp
  moreover have "lbsIngress (inStatus exServed) \<noteq> []" by (simp add: exServed_def)
  ultimately show ?thesis by (simp add: reporting_rec exServedFound_def)
qed

theorem endpoints_from_clusters_witness:
  "\<exists>i z r g. trackerMap ingressKind (fwIngresses (snd (reconcileIngress (exEnv []) exName (exServedIC, exServedWorld))))
      (''default'', ''web'') = Some i \<and>
    getHealthyEndpoints exDnsEnv ''a'' i = Inr (z, r, g) \<and>
    set g = {''10.0.0.2''} \<and> set r = {''10.0.0.2''} \<and> set z = {''10.0.0.2''}"
proof -
  obtain ic' w' where run: "reconcileIngress (exEnv []) exName (exServedIC, exServedWorld) = (ic', w')" by fastforce
  have api: "envAPI (exEnv []) = trackerAPI" by (simp add: exEnv_def)
  have wf: "fw_wf exServedWorld" unfolding exServedWorld_def by (rule exWorld_wf) (simp_all add: trackerWf_def addressable_def exServed_def objKey_def ingressKind_def exBase_def exMeta_def)
  have stored: "trackerMap ingressKind (fwIngresses exServedWorld) (objKey ingressKind exServed) = Some exServed"
    by (simp add: exServedWorld_def exWorld_def)
  have key: "objKey ingressKind exServed = (''default'', ''web'')" by code_simp
  have "lb_map_ascii (statuses exServed exServedFound [exCluster ''a'', exCluster ''b''])"
    unfolding exServed_statuses by code_simp
  then have ascii: "lb_map_ascii (statuses exServed exServedFound (readyList (ingressFederatedInformer exServedIC)))"
    unfolding exServed_informer exReady .
  have zones: "getClusterZoneNames exDnsEnv n = Inr (Some [''z''], ''r'')" for n
    by (simp add: exDnsEnv_def getClusterZoneNames_def example_cluster_def)
  have "entry_ok exDnsEnv (''b'', [inStatus exServed])"
    by (simp add: entry_ok_def entry_addrs_def lbAddress_def exServed_def zones)
  then have ok: "\<forall>(n, ci) \<in> reporting exServed exServedFound (readyList (ingressFederatedInformer exServedIC)).
      entry_ok exDnsEnv (n, [inStatus ci])"
    unfolding exServed_informer exReady exServed_reporting by simp
  have order: "set (rangeOrder exDnsEnv m) = set m" for m by (simp add: exDnsEnv_def)
  have same: "region_of exDnsEnv n = ''r''" "same_zone exDnsEnv ''a'' n" for n
    by (simp_all add: region_of_def same_zone_def zones_of_def names_of_def zones)
  have addrs: "{lbAddress a |a n ci. (n, ci) \<in> {(''b'', exServed)} \<and> a \<in> set (lbsIngress (inStatus ci))} = {''10.0.0.2''}"
    by (simp add: exServed_def lbAddress_def)
  show ?thesis
    using endpoints_from_clusters [OF exServed_view api wf stored run ascii ok order zones [of "''a''"]]
    unfolding exServed_informer exReady exServed_reporting key run snd_conv using addrs by (simp add: same)
qed

end
