(* ===== verification/Dynect_Client.thy ===== *)
theory Dynect_Client
  imports Dyndns_API
begin

text \<open>
  The client of the DynECT REST API (\<open>dynect/dynect_client.go\<close>): it lists the URLs of the records at
  a name, takes each URL apart, and fetches the record behind it. The two requests it makes are the
  interface \<open>GoDynectAPI\<close>; the locale \<open>dynect_rest\<close> is what the client expects of them, and the
  in-memory implementation of \<open>stubs/godynectapi.go\<close> keeps it.
\<close>

section \<open>The interface and the client\<close>

text \<open>
  \<open>Do\<close> fills the response it is given; a response other than the list of URLs is not modelled
  further. \<open>GetRecord\<close> completes a record of which zone, name, type and ID are known.
\<close>

datatype responseData = AllRecordsResponse | OtherResponse

record 's GoDynectAPI =
  goGetRecord :: "Record \<Rightarrow> 's \<Rightarrow> Record res"
  goDo :: "string \<Rightarrow> string \<Rightarrow> responseData \<Rightarrow> 's \<Rightarrow> string list res"

definition GetAllRecords :: "'s GoDynectAPI \<Rightarrow> Record \<Rightarrow> 's \<Rightarrow> string list res" where
  "GetAllRecords api record s =
     goDo api ''GET'' (''AllRecord/'' @ rZone record @ ''/'' @ rFQDN record) AllRecordsResponse s"

definition RecordFromURL :: "string \<Rightarrow> Record option" where
  "RecordFromURL url =
     (let parts = Split url CHR ''/'' in
      if length parts \<noteq> 6 then None
      else Some (zeroRecord\<lparr>rZone := parts ! 3, rFQDN := parts ! 4, rID := parts ! 5,
        rType := TrimSuffix (parts ! 2) ''Record''\<rparr>))"

text \<open>
  The body that the three loops share. \<open>RecordFromURL\<close> returns nil for a URL it cannot take apart, and
  neither it nor its callers check: the next use of the record panics.
\<close>

definition fetchRecord :: "'s GoDynectAPI \<Rightarrow> string \<Rightarrow> 's \<Rightarrow> Record res" where
  "fetchRecord api recordURL s =
     (case RecordFromURL recordURL of
        None \<Rightarrow> Inl (Panic NilDereference)
      | Some rec \<Rightarrow>
          (case goGetRecord api rec s of
             Inl err \<Rightarrow> Inl (wrap ''Failed to get Dyn record'' err)
           | Inr rec \<Rightarrow> Inr rec))"

definition recordPrefix :: "Record \<Rightarrow> string" where
  "recordPrefix record = ''/REST/'' @ rType record @ ''Record/'' @ rZone record @ ''/'' @ rFQDN record @ ''/''"

fun findID :: "'s GoDynectAPI \<Rightarrow> Record \<Rightarrow> string list \<Rightarrow> 's \<Rightarrow> string res" where
  "findID api record [] s = Inr []"
| "findID api record (recordURL # urls) s =
     (case fetchRecord api recordURL s of
        Inl err \<Rightarrow> Inl err
      | Inr rec \<Rightarrow>
          let i = TrimPrefix recordURL (recordPrefix record) in
          if \<not> Contains i ''/'' \<and> i \<noteq> [] \<and> rValue rec = rValue record then Inr i
          else findID api record urls s)"

definition GetRecordID :: "'s GoDynectAPI \<Rightarrow> Record \<Rightarrow> 's \<Rightarrow> Record res" where
  "GetRecordID api record s =
     (case GetAllRecords api record s of
        Inl err \<Rightarrow> Inl (wrap ''Failed to find Dyn record id'' err)
      | Inr urls \<Rightarrow>
          (case findID api record urls s of
             Inl err \<Rightarrow> Inl err
           | Inr finalID \<Rightarrow>
               if finalID = [] then Inl (Errorf ''Failed to find Dyn record id'')
               else Inr (record\<lparr>rID := finalID\<rparr>)))"

definition appendMatching :: "'s GoDynectAPI \<Rightarrow> Record \<Rightarrow> 's \<Rightarrow> string \<Rightarrow> Record list \<Rightarrow> Record list res" where
  "appendMatching api record s recordURL acc =
     (case fetchRecord api recordURL s of
        Inl err \<Rightarrow> Inl err
      | Inr rec \<Rightarrow> Inr (if rName rec = rName record then acc @ [rec] else acc))"

definition GetRecordByName :: "'s GoDynectAPI \<Rightarrow> Record \<Rightarrow> 's \<Rightarrow> Record list res" where
  "GetRecordByName api record s =
     (case GetAllRecords api record s of
        Inl err \<Rightarrow> Inl (wrap ''Failed to find Dyn records'' err)
      | Inr urls \<Rightarrow> for_each (appendMatching api record s) urls [])"

definition appendRecord :: "'s GoDynectAPI \<Rightarrow> 's \<Rightarrow> string \<Rightarrow> Record list \<Rightarrow> Record list res" where
  "appendRecord api s recordURL acc =
     (case fetchRecord api recordURL s of Inl err \<Rightarrow> Inl err | Inr rec \<Rightarrow> Inr (acc @ [rec]))"

definition GetAllRecordList :: "'s GoDynectAPI \<Rightarrow> Record \<Rightarrow> 's \<Rightarrow> Record list res" where
  "GetAllRecordList api record s =
     (case GetAllRecords api record s of
        Inl err \<Rightarrow> Inl (wrap ''Failed to find Dyn records'' err)
      | Inr urls \<Rightarrow> for_each (appendRecord api s) urls [])"

section \<open>The in-memory implementation\<close>

record GoDynectAPIStub =
  recordMap :: "(string \<times> Record) list"

definition NewGoDynectAPIStub :: GoDynectAPIStub where
  "NewGoDynectAPIStub = \<lparr>recordMap = []\<rparr>"

definition recordURL :: "Record \<Rightarrow> string" where
  "recordURL r = ''/REST/'' @ rType r @ ''Record/'' @ rZone r @ ''/'' @ rFQDN r @ ''/'' @ rID r"

definition goStub_Do :: "string \<Rightarrow> string \<Rightarrow> responseData \<Rightarrow> GoDynectAPIStub \<Rightarrow> string list res" where
  "goStub_Do method endpoint response stub =
     (case response of
        AllRecordsResponse \<Rightarrow> Inr (map (\<lambda>(k, r). recordURL (r\<lparr>rID := hashKey r\<rparr>)) (recordMap stub))
      | OtherResponse \<Rightarrow> Inl (Errorf ''OperationNotSupported''))"

definition goStub_GetRecord :: "Record \<Rightarrow> GoDynectAPIStub \<Rightarrow> Record res" where
  "goStub_GetRecord record stub =
     (if rID record = [] then Inl (Errorf ''Cannot call GetRecord with an empty ID'')
      else case map_of (recordMap stub) (rID record) of
        None \<Rightarrow> Inl (Panic NilDereference)
      | Some rec \<Rightarrow> Inr (record\<lparr>rName := rName rec, rValue := rValue rec, rTTL := rTTL rec\<rparr>))"

definition HashKey :: "Record \<Rightarrow> string" where
  "HashKey r = rName r @ ''-'' @ rTTL r @ ''-'' @ rType r @ ''-'' @ rValue r"

definition AddRecord :: "Record \<Rightarrow> GoDynectAPIStub \<Rightarrow> GoDynectAPIStub" where
  "AddRecord r stub = stub\<lparr>recordMap := map_put (HashKey r) r (recordMap stub)\<rparr>"

definition goStub_api :: "GoDynectAPIStub GoDynectAPI" where
  "goStub_api = \<lparr>goGetRecord = goStub_GetRecord, goDo = goStub_Do\<rparr>"

section \<open>URLs\<close>

text \<open>A record whose parts can stand in a URL, and what its URL tells.\<close>

definition url_wf :: "Record \<Rightarrow> bool" where
  "url_wf r \<longleftrightarrow> CHR ''/'' \<notin> set (rType r) \<and> CHR ''/'' \<notin> set (rZone r) \<and> CHR ''/'' \<notin> set (rFQDN r)"

definition bare :: "Record \<Rightarrow> Record" where
  "bare r = r\<lparr>rName := [], rValue := [], rTTL := []\<rparr>"

lemma Split_prefix:
  assumes "url_wf r"
  shows "Split (recordPrefix r @ t) CHR ''/'' =
    [[], ''REST'', rType r @ ''Record'', rZone r, rFQDN r] @ Split t CHR ''/''"
proof -
  have "recordPrefix r @ t =
      [] @ CHR ''/'' # ''REST'' @ CHR ''/'' # (rType r @ ''Record'') @ CHR ''/'' # (rZone r @ CHR ''/'' # (rFQDN r @ CHR ''/'' # t))"
    by (simp add: recordPrefix_def)
  moreover have "CHR ''/'' \<notin> set (rType r @ ''Record'')" using assms by (simp add: url_wf_def)
  then have "Split ((rType r @ ''Record'') @ CHR ''/'' # u) CHR ''/'' = (rType r @ ''Record'') # Split u CHR ''/''" for u
    by (rule Split_append_sep)
  ultimately show ?thesis using assms by (simp add: Split_append_sep url_wf_def)
qed

lemma recordURL_prefix: "recordURL r = recordPrefix r @ rID r"
  by (simp add: recordURL_def recordPrefix_def)

lemma RecordFromURL_recordURL:
  assumes "url_wf r" and "CHR ''/'' \<notin> set (rID r)"
  shows "RecordFromURL (recordURL r) = Some (bare r)"
proof -
  have "Split (recordURL r) CHR ''/'' = [[], ''REST'', rType r @ ''Record'', rZone r, rFQDN r, rID r]"
    unfolding recordURL_prefix using assms by (simp add: Split_prefix Split_no_sep)
  then show ?thesis by (simp add: RecordFromURL_def bare_def zeroRecord_def)
qed

text \<open>Only the URLs of records of the same type, zone and name start with the prefix of a record.\<close>

lemma prefix_of_URL:
  assumes "url_wf r" and "CHR ''/'' \<notin> set (rID r)" and "url_wf q"
  shows "HasPrefix (recordURL r) (recordPrefix q) \<longleftrightarrow>
    rType r = rType q \<and> rZone r = rZone q \<and> rFQDN r = rFQDN q"
proof
  assume "HasPrefix (recordURL r) (recordPrefix q)"
  then obtain t where "recordURL r = recordPrefix q @ t" unfolding HasPrefix_iff by blast
  then have "Split (recordPrefix r @ rID r) CHR ''/'' = Split (recordPrefix q @ t) CHR ''/''"
    by (simp add: recordURL_prefix)
  then show "rType r = rType q \<and> rZone r = rZone q \<and> rFQDN r = rFQDN q"
    unfolding Split_prefix [OF assms(1)] Split_prefix [OF assms(3)] by simp
next
  assume "rType r = rType q \<and> rZone r = rZone q \<and> rFQDN r = rFQDN q"
  then have "recordPrefix r = recordPrefix q" by (simp add: recordPrefix_def)
  then show "HasPrefix (recordURL r) (recordPrefix q)" by (simp add: recordURL_prefix)
qed

text \<open>Two records that \<open>GetRecordID\<close> does not tell apart: it compares everything but the time to live.\<close>

definition same_place :: "Record \<Rightarrow> Record \<Rightarrow> bool" where
  "same_place r q \<longleftrightarrow> rType q = rType r \<and> rZone q = rZone r \<and> rFQDN q = rFQDN r \<and> rValue q = rValue r"

section \<open>What the client relies on\<close>

text \<open>
  \<open>store\<close> is the set of records the service holds, with the IDs it gave them. The listing of a name
  holds every record of the zone at that name and nothing that is not in the service; reading a record
  by zone, name, type and ID completes it.
\<close>

locale dynect_rest =
  fixes api :: "'s GoDynectAPI"
    and invar :: "'s \<Rightarrow> bool"
    and store :: "'s \<Rightarrow> Record set"
  assumes list_urls: "invar s \<Longrightarrow>
      \<exists>urls. goDo api ''GET'' (''AllRecord/'' @ rZone (r :: Record) @ ''/'' @ rFQDN r) AllRecordsResponse s = Inr urls
        \<and> distinct urls \<and> set urls \<subseteq> recordURL ` store s
        \<and> recordURL ` {q \<in> store s. rZone q = rZone r \<and> rFQDN q = rFQDN r} \<subseteq> set urls"
    and get_record: "invar s \<Longrightarrow> q \<in> store s \<Longrightarrow> goGetRecord api (bare q) s = Inr q"
    and stored: "invar s \<Longrightarrow> q \<in> store s \<Longrightarrow> url_wf q \<and> rID q \<noteq> [] \<and> CHR ''/'' \<notin> set (rID q)"
begin

lemma fetch_stored: "invar s \<Longrightarrow> q \<in> store s \<Longrightarrow> fetchRecord api (recordURL q) s = Inr q"
  using stored [of s q] by (simp add: fetchRecord_def RecordFromURL_recordURL get_record)

lemma recordURL_inj: "invar s \<Longrightarrow> inj_on recordURL (store s)"
  by (rule inj_onI) (metis fetch_stored Inr_inject)

lemma listing:
  assumes "invar s"
  obtains rs where "GetAllRecords api r s = Inr (map recordURL rs)" and "distinct rs"
    and "set rs \<subseteq> store s" and "{q \<in> store s. rZone q = rZone r \<and> rFQDN q = rFQDN r} \<subseteq> set rs"
proof -
  obtain urls where urls: "GetAllRecords api r s = Inr urls" "distinct urls" "set urls \<subseteq> recordURL ` store s"
      "recordURL ` {q \<in> store s. rZone q = rZone r \<and> rFQDN q = rFQDN r} \<subseteq> set urls"
    using list_urls [OF assms, of r] unfolding GetAllRecords_def by blast
  then have "urls \<in> map recordURL ` lists (store s)" by (simp add: lists_image [symmetric] in_lists_conv_set subset_iff)
  then obtain rs where rs: "urls = map recordURL rs" "set rs \<subseteq> store s" by (auto simp: in_lists_conv_set)
  have "q \<in> set rs" if "q \<in> store s" "rZone q = rZone r" "rFQDN q = rFQDN r" for q
  proof -
    from that urls(4) have "recordURL q \<in> recordURL ` set rs" by (auto simp: rs(1) image_subset_iff)
    then show ?thesis using inj_on_image_mem_iff [OF recordURL_inj [OF assms] that(1) rs(2)] by blast
  qed
  then have "{q \<in> store s. rZone q = rZone r \<and> rFQDN q = rFQDN r} \<subseteq> set rs" by blast
  moreover have "distinct rs" using urls(2) by (simp add: rs(1) distinct_map)
  ultimately show ?thesis using that [of rs] urls(1) rs by simp
qed

lemma findID_stored:
  assumes "invar s" and "set rs \<subseteq> store s" and "url_wf r"
  shows "findID api r (map recordURL rs) s =
    Inr (case find (same_place r) rs of None \<Rightarrow> [] | Some q \<Rightarrow> rID q)"
  using assms(2)
proof (induction rs)
  case (Cons q rs)
  then have q: "q \<in> store s" and wf: "url_wf q" "rID q \<noteq> []" "CHR ''/'' \<notin> set (rID q)"
    using stored [OF assms(1), of q] by simp_all
  show ?case
  proof (cases "rType q = rType r \<and> rZone q = rZone r \<and> rFQDN q = rFQDN r")
    case True
    then have "recordURL q = recordPrefix r @ rID q" by (simp add: recordURL_def recordPrefix_def)
    with Cons True wf show ?thesis
      using fetch_stored [OF assms(1) q] by (simp add: Contains_char same_place_def)
  next
    case False
    then have "\<not> HasPrefix (recordURL q) (recordPrefix r)"
      using prefix_of_URL [OF wf(1,3) assms(3)] by blast
    then have "TrimPrefix (recordURL q) (recordPrefix r) = recordURL q" by (simp add: TrimPrefix_def)
    moreover have "Contains (recordURL q) ''/''" by (simp add: Contains_char recordURL_def)
    ultimately show ?thesis
      using Cons False fetch_stored [OF assms(1) q] by (auto simp: same_place_def)
  qed
qed simp

lemma GetRecordID_stored:
  assumes "invar s" and "url_wf r"
  shows "(\<exists>q \<in> store s. same_place r q \<and> GetRecordID api r s = Inr (r\<lparr>rID := rID q\<rparr>)) \<or>
    \<not> (\<exists>q \<in> store s. same_place r q) \<and> GetRecordID api r s = Inl (Errorf ''Failed to find Dyn record id'')"
proof -
  obtain rs where rs: "GetAllRecords api r s = Inr (map recordURL rs)" "distinct rs" "set rs \<subseteq> store s"
      "{q \<in> store s. rZone q = rZone r \<and> rFQDN q = rFQDN r} \<subseteq> set rs"
    by (rule listing [OF assms(1), of r])
  show ?thesis
  proof (cases "find (same_place r) rs")
    case None
    with rs assms have "GetRecordID api r s = Inl (Errorf ''Failed to find Dyn record id'')"
      by (simp add: GetRecordID_def findID_stored)
    moreover have "\<not> same_place r q" if "q \<in> store s" for q
    proof
      assume "same_place r q"
      with that rs(4) have "q \<in> set rs" by (auto simp: same_place_def)
      with None \<open>same_place r q\<close> show False by (simp add: find_None_iff)
    qed
    ultimately show ?thesis by blast
  next
    case (Some q)
    then have q: "q \<in> store s" "same_place r q"
      using rs(3) by (auto simp: find_Some_iff in_set_conv_nth subset_iff)
    with Some rs assms stored [OF assms(1) q(1)] have "GetRecordID api r s = Inr (r\<lparr>rID := rID q\<rparr>)"
      by (simp add: GetRecordID_def findID_stored)
    with q show ?thesis by blast
  qed
qed

lemma append_loops:
  assumes "invar s" and "set rs \<subseteq> store s"
  shows "for_each (appendMatching api r s) (map recordURL rs) acc =
      Inr (acc @ filter (\<lambda>q. rName q = rName r) rs)"
    and "for_each (appendRecord api s) (map recordURL rs) acc = Inr (acc @ rs)"
  using assms(2) fetch_stored [OF assms(1)]
  by (induction rs arbitrary: acc) (simp_all add: appendMatching_def appendRecord_def)

lemma GetRecordByName_stored:
  assumes "invar s"
  shows "\<exists>rs. GetAllRecordList api r s = Inr rs
    \<and> GetRecordByName api r s = Inr (filter (\<lambda>q. rName q = rName r) rs)
    \<and> distinct rs \<and> set rs \<subseteq> store s \<and> {q \<in> store s. rZone q = rZone r \<and> rFQDN q = rFQDN r} \<subseteq> set rs"
proof -
  obtain rs where rs: "GetAllRecords api r s = Inr (map recordURL rs)" "distinct rs" "set rs \<subseteq> store s"
      "{q \<in> store s. rZone q = rZone r \<and> rFQDN q = rFQDN r} \<subseteq> set rs"
    by (rule listing [OF assms, of r])
  then show ?thesis
    by (auto simp: GetAllRecordList_def GetRecordByName_def append_loops [OF assms])
qed

end

section \<open>The in-memory implementation keeps the contract\<close>

definition goStub_inv :: "GoDynectAPIStub \<Rightarrow> bool" where
  "goStub_inv stub \<longleftrightarrow> keys_distinct (recordMap stub) \<and>
     (\<forall>(k, r) \<in> set (recordMap stub). k = HashKey r \<and> url_wf r \<and> CHR ''/'' \<notin> set k)"

definition goStub_store :: "GoDynectAPIStub \<Rightarrow> Record set" where
  "goStub_store stub = (\<lambda>(k, r). r\<lparr>rID := hashKey r\<rparr>) ` set (recordMap stub)"

lemma HashKey_hashKey: "HashKey = hashKey"
  by (simp add: fun_eq_iff HashKey_def hashKey_def)

lemma hashKey_nonempty [simp]: "hashKey r \<noteq> []"
  by (simp add: hashKey_def)

lemma goStub_invD: "goStub_inv stub \<Longrightarrow> (k, r) \<in> set (recordMap stub) \<Longrightarrow>
    k = hashKey r \<and> url_wf r \<and> CHR ''/'' \<notin> set (hashKey r) \<and> map_of (recordMap stub) (hashKey r) = Some r"
  by (auto simp: goStub_inv_def HashKey_hashKey)

lemma goStub_inv_new [simp]: "goStub_inv NewGoDynectAPIStub"
  by (simp add: goStub_inv_def NewGoDynectAPIStub_def)

lemma goStub_inv_AddRecord:
  "goStub_inv stub \<Longrightarrow> url_wf r \<Longrightarrow> CHR ''/'' \<notin> set (hashKey r) \<Longrightarrow> goStub_inv (AddRecord r stub)"
  by (auto simp: goStub_inv_def AddRecord_def HashKey_hashKey dest: set_map_putD)

lemma goStub_distinct_urls:
  assumes "goStub_inv stub"
  shows "distinct (map (\<lambda>(k, r). recordURL (r\<lparr>rID := hashKey r\<rparr>)) (recordMap stub))"
proof -
  have "inj_on (\<lambda>(k, r). recordURL (r\<lparr>rID := hashKey r\<rparr>)) (set (recordMap stub))"
  proof (rule inj_onI, clarify)
    fix k r k' r' assume in_map: "(k, r) \<in> set (recordMap stub)" "(k', r') \<in> set (recordMap stub)"
      and eq: "recordURL (r\<lparr>rID := hashKey r\<rparr>) = recordURL (r'\<lparr>rID := hashKey r'\<rparr>)"
    have url: "RecordFromURL (recordURL (q\<lparr>rID := hashKey q\<rparr>)) = Some (bare (q\<lparr>rID := hashKey q\<rparr>))"
      if "(l, q) \<in> set (recordMap stub)" for l q
      using goStub_invD [OF assms that] by (intro RecordFromURL_recordURL) (simp_all add: url_wf_def)
    have "Some (bare (r\<lparr>rID := hashKey r\<rparr>)) = Some (bare (r'\<lparr>rID := hashKey r'\<rparr>))"
      unfolding url [OF in_map(1), symmetric] url [OF in_map(2), symmetric] by (rule arg_cong [OF eq])
    then have "bare (r\<lparr>rID := hashKey r\<rparr>) = bare (r'\<lparr>rID := hashKey r'\<rparr>)" by (rule option.inject [THEN iffD1])
    then have "rID (bare (r\<lparr>rID := hashKey r\<rparr>)) = rID (bare (r'\<lparr>rID := hashKey r'\<rparr>))" by (rule arg_cong)
    then have "hashKey r = hashKey r'" by (simp add: bare_def)
    then show "k = k' \<and> r = r'" 
      using goStub_invD [OF assms in_map(1)] goStub_invD [OF assms in_map(2)] by (metis option.inject)
  qed
  moreover have "distinct (recordMap stub)" using assms by (simp add: goStub_inv_def distinct_map)
  ultimately show ?thesis by (simp add: distinct_map)
qed

interpretation goStub: dynect_rest goStub_api goStub_inv goStub_store
proof unfold_locales
  fix s q and r :: Record assume inv: "goStub_inv s"
  show "\<exists>urls. goDo goStub_api ''GET'' (''AllRecord/'' @ rZone r @ ''/'' @ rFQDN r) AllRecordsResponse s = Inr urls
        \<and> distinct urls \<and> set urls \<subseteq> recordURL ` goStub_store s
        \<and> recordURL ` {q \<in> goStub_store s. rZone q = rZone r \<and> rFQDN q = rFQDN r} \<subseteq> set urls"
    using goStub_distinct_urls [OF inv]
    by (force simp: goStub_api_def goStub_Do_def goStub_store_def)
  assume "q \<in> goStub_store s"
  then obtain k r where kr: "(k, r) \<in> set (recordMap s)" "q = r\<lparr>rID := hashKey r\<rparr>"
    by (auto simp: goStub_store_def)
  show "goGetRecord goStub_api (bare q) s = Inr q"
    using goStub_invD [OF inv kr(1)] kr(2) by (simp add: goStub_api_def goStub_GetRecord_def bare_def)
  show "url_wf q \<and> rID q \<noteq> [] \<and> CHR ''/'' \<notin> set (rID q)"
    using goStub_invD [OF inv kr(1)] kr(2) by (simp add: url_wf_def)
qed

section \<open>Properties\<close>

definition restRecord :: "string \<Rightarrow> string \<Rightarrow> string \<Rightarrow> string \<Rightarrow> string \<Rightarrow> Record" where
  "restRecord zone name ttl ty v =
     zeroRecord\<lparr>rZone := zone, rFQDN := name, rName := name, rTTL := ttl, rType := ty, rValue := v\<rparr>"

definition exRest :: GoDynectAPIStub where
  "exRest = AddRecord (restRecord ''example.com'' ''www.example.com'' ''180'' ''A'' ''10.0.0.2'')
     (AddRecord (restRecord ''example.com'' ''www.example.com'' ''180'' ''A'' ''10.0.0.1'') NewGoDynectAPIStub)"

lemma exRest_inv: "goStub_inv exRest"
  unfolding exRest_def by (intro goStub_inv_AddRecord goStub_inv_new) code_simp+

text \<open>
  C12. Against any service that keeps the contract, \<open>GetRecordID\<close> completes a record with the ID of a
  record of the service that has the same type, zone, name and value, and fails when the service has
  none; \<open>GetRecordByName\<close> returns, each once, records of the service with the name asked for, and every
  such record of the zone and FQDN asked for.
\<close>

theorem dynect_finds_records:
  assumes "dynect_rest api invar store" and "invar s" and "url_wf r"
  shows "(case GetRecordID api r s of
        Inr r' \<Rightarrow> \<exists>q \<in> store s. same_place r q \<and> r' = r\<lparr>rID := rID q\<rparr>
      | Inl err \<Rightarrow> err = Errorf ''Failed to find Dyn record id'' \<and> \<not> (\<exists>q \<in> store s. same_place r q))
    \<and> (\<exists>rs. GetRecordByName api r s = Inr rs \<and> distinct rs
      \<and> set rs \<subseteq> {q \<in> store s. rName q = rName r}
      \<and> {q \<in> store s. rName q = rName r \<and> rZone q = rZone r \<and> rFQDN q = rFQDN r} \<subseteq> set rs)"
  using dynect_rest.GetRecordID_stored [OF assms] dynect_rest.GetRecordByName_stored [OF assms(1,2), of r]
  by auto

theorem dynect_finds_records_witness:
  "GetRecordID goStub_api (restRecord ''example.com'' ''www.example.com'' ''60'' ''A'' ''10.0.0.2'') exRest =
     Inr ((restRecord ''example.com'' ''www.example.com'' ''60'' ''A'' ''10.0.0.2'')\<lparr>rID := ''www.example.com-180-A-10.0.0.2''\<rparr>)"
proof -
  define r where "r = restRecord ''example.com'' ''www.example.com'' ''60'' ''A'' ''10.0.0.2''"
  have "url_wf r" unfolding r_def by code_simp
  note dynect_finds_records [OF goStub.dynect_rest_axioms exRest_inv this, THEN conjunct1]
  moreover have "goStub_store exRest =
      {(restRecord ''example.com'' ''www.example.com'' ''180'' ''A'' ''10.0.0.1'')\<lparr>rID := ''www.example.com-180-A-10.0.0.1''\<rparr>,
       (restRecord ''example.com'' ''www.example.com'' ''180'' ''A'' ''10.0.0.2'')\<lparr>rID := ''www.example.com-180-A-10.0.0.2''\<rparr>}"
    by (auto simp: goStub_store_def exRest_def AddRecord_def NewGoDynectAPIStub_def HashKey_def hashKey_def restRecord_def zeroRecord_def)
  ultimately show ?thesis unfolding r_def
    by (simp add: same_place_def restRecord_def zeroRecord_def split: sum.splits)
qed

text \<open>
  \<open>RecordFromURL\<close> returns nil for a URL that is not in six parts, as for a record in a reverse zone of
  RFC 2317, whose name holds a slash; none of the callers looks.
\<close>

lemma malformed_url_panics:
  assumes "GetAllRecords api r s = Inr (url # urls)" and "length (Split url CHR ''/'') \<noteq> 6"
  shows "GetRecordID api r s = Inl (Panic NilDereference)"
    and "GetRecordByName api r s = Inl (Panic NilDereference)"
    and "GetAllRecordList api r s = Inl (Panic NilDereference)"
  using assms
  by (simp_all add: GetRecordID_def GetRecordByName_def GetAllRecordList_def fetchRecord_def RecordFromURL_def
      appendMatching_def appendRecord_def)

lemma reverse_zone_panics:
  "GetAllRecordList goStub_api (restRecord ''0/25.2.0.192.in-addr.arpa'' ''1.0/25.2.0.192.in-addr.arpa'' ''180'' ''CNAME'' ''a.example'')
     (AddRecord (restRecord ''0/25.2.0.192.in-addr.arpa'' ''1.0/25.2.0.192.in-addr.arpa'' ''180'' ''CNAME'' ''a.example'')
        NewGoDynectAPIStub) = Inl (Panic NilDereference)"
  by code_simp

end
