(* ===== verification/Event_Handlers.thy ===== *)
theory Event_Handlers
  imports Federated_Informer
begin

text \<open>
  How a change of an object reaches a controller: the informers of \<open>cache.NewInformer\<close> and
  \<open>cache.NewIndexerInformer\<close> store the object and call a handler, and both controllers use the
  handler of \<open>NewTriggerOnAllChanges\<close> (\<open>federation-controller/util/handlers.go\<close>).
\<close>

section \<open>Deep equality\<close>

text \<open>\<open>reflect.DeepEqual\<close> on API objects: maps are compared as maps, everything else field by field.\<close>

definition deepEqualMeta :: "ObjectMeta \<Rightarrow> ObjectMeta \<Rightarrow> bool" where
  "deepEqualMeta a b \<longleftrightarrow> map_eq (omLabels a) (omLabels b) \<and> map_eq (omAnnotations a) (omAnnotations b) \<and>
     a\<lparr>omLabels := [], omAnnotations := []\<rparr> = b\<lparr>omLabels := [], omAnnotations := []\<rparr>"

definition deepEqualIngress :: "Ingress \<Rightarrow> Ingress \<Rightarrow> bool" where
  "deepEqualIngress a b \<longleftrightarrow> deepEqualMeta (inMeta a) (inMeta b) \<and> inSpec a = inSpec b \<and> inStatus a = inStatus b"

definition deepEqualConfigMap :: "ConfigMap \<Rightarrow> ConfigMap \<Rightarrow> bool" where
  "deepEqualConfigMap a b \<longleftrightarrow> deepEqualMeta (cmMeta a) (cmMeta b) \<and>
     (case (cmData a, cmData b) of
        (Some x, Some y) \<Rightarrow> map_eq x y
      | (None, None) \<Rightarrow> True
      | _ \<Rightarrow> False)"

lemma deepEqualIngress_refl [simp]: "deepEqualIngress a a"
  by (simp add: deepEqualIngress_def deepEqualMeta_def map_eq_iff)

lemma deepEqualConfigMap_refl [simp]: "deepEqualConfigMap a a"
  by (simp add: deepEqualConfigMap_def deepEqualMeta_def map_eq_iff split: option.split)

lemma deepEqualIngress_name: "deepEqualIngress a b \<Longrightarrow> nsName (inMeta a) = nsName (inMeta b)"
  by (auto simp: deepEqualIngress_def deepEqualMeta_def nsName_def elim!: ObjectMeta.ext_inject [THEN iffD1, THEN conjE]
      dest: arg_cong [of _ _ omName] arg_cong [of _ _ omNamespace])

section \<open>Handlers\<close>

text \<open>
  A handler acts on the state of the controller, which may panic. A deletion that the watch missed
  is reported by an object that is not an API object, so the type assertion of the handler panics.
\<close>

record ('o, 's) ResourceEventHandlerFuncs =
  AddFunc :: "'o \<Rightarrow> 's \<Rightarrow> 's"
  UpdateFunc :: "'o \<Rightarrow> 'o \<Rightarrow> 's \<Rightarrow> 's"
  DeleteFunc :: "'o deleted \<Rightarrow> 's \<Rightarrow> panic option \<times> 's"

definition NewTriggerOnAllChanges ::
  "('o \<Rightarrow> 'o \<Rightarrow> bool) \<Rightarrow> ('o \<Rightarrow> 's \<Rightarrow> 's) \<Rightarrow> ('o, 's) ResourceEventHandlerFuncs" where
  "NewTriggerOnAllChanges deepEqual triggerFunc =
     \<lparr>AddFunc = triggerFunc,
      UpdateFunc = (\<lambda>old cur s. if \<not> deepEqual old cur then triggerFunc cur s else s),
      DeleteFunc = (\<lambda>old s. case old of
          Deleted oldObj \<Rightarrow> (None, triggerFunc oldObj s)
        | DeletedFinalStateUnknown k v \<Rightarrow> (Some TypeAssertion, s))\<rparr>"

text \<open>The \<open>Process\<close> function of an informer on one delta, over its store and the controller.\<close>

definition processDelta ::
  "('o \<Rightarrow> string) \<Rightarrow> ('o, 's) ResourceEventHandlerFuncs \<Rightarrow> 'o delta \<Rightarrow> (string \<times> 'o) list \<times> 's
   \<Rightarrow> panic option \<times> (string \<times> 'o) list \<times> 's" where
  "processDelta keyFunc h d = (\<lambda>(clientState, s).
     case d of
       Sync obj \<Rightarrow>
         let k = keyFunc obj; clientState' = map_put k obj clientState in
         (case map_of clientState k of
            Some old \<Rightarrow> (None, clientState', UpdateFunc h old obj s)
          | None \<Rightarrow> (None, clientState', AddFunc h obj s))
     | Removed old \<Rightarrow>
         let k = (case old of Deleted obj \<Rightarrow> keyFunc obj | DeletedFinalStateUnknown k v \<Rightarrow> k);
             (p, s') = DeleteFunc h old s
         in (p, map_del k clientState, s'))"

text \<open>What the delta does to the store, and whether it calls the trigger.\<close>

definition storeDelta :: "('o \<Rightarrow> string) \<Rightarrow> 'o delta \<Rightarrow> (string \<times> 'o) list \<Rightarrow> (string \<times> 'o) list" where
  "storeDelta keyFunc d m =
     (case d of
        Sync obj \<Rightarrow> map_put (keyFunc obj) obj m
      | Removed (Deleted obj) \<Rightarrow> map_del (keyFunc obj) m
      | Removed (DeletedFinalStateUnknown k v) \<Rightarrow> map_del k m)"

definition triggers :: "('o \<Rightarrow> string) \<Rightarrow> ('o \<Rightarrow> 'o \<Rightarrow> bool) \<Rightarrow> 'o delta \<Rightarrow> (string \<times> 'o) list \<Rightarrow> 'o option" where
  "triggers keyFunc deepEqual d m =
     (case d of
        Sync obj \<Rightarrow>
          (case map_of m (keyFunc obj) of
             Some old \<Rightarrow> if deepEqual old obj then None else Some obj
           | None \<Rightarrow> Some obj)
      | Removed (Deleted obj) \<Rightarrow> Some obj
      | Removed (DeletedFinalStateUnknown k v) \<Rightarrow> None)"

definition missed :: "'o delta \<Rightarrow> bool" where
  "missed d \<longleftrightarrow> (case d of Removed (DeletedFinalStateUnknown k v) \<Rightarrow> True | _ \<Rightarrow> False)"

lemma processDelta_trigger:
  "processDelta keyFunc (NewTriggerOnAllChanges deepEqual trigger) d (m, s) =
     (if missed d then Some TypeAssertion else None, storeDelta keyFunc d m,
      case triggers keyFunc deepEqual d m of None \<Rightarrow> s | Some obj \<Rightarrow> trigger obj s)"
  by (cases d) (auto simp: processDelta_def NewTriggerOnAllChanges_def storeDelta_def triggers_def missed_def Let_def
      split: option.splits deleted.splits)

lemma storeDelta_distinct: "keys_distinct m \<Longrightarrow> keys_distinct (storeDelta keyFunc d m)"
  by (simp add: storeDelta_def split: delta.split deleted.split)

lemma storeDelta_keyed:
  "(\<forall>(k, obj) \<in> set m. k = keyFunc obj) \<Longrightarrow> \<forall>(k, obj) \<in> set (storeDelta keyFunc d m). k = keyFunc obj"
  by (auto simp: storeDelta_def split: delta.splits deleted.splits dest: set_map_putD)

text \<open>
  A periodic resync hands the informer the objects it holds already, so it calls nothing: a
  controller that dropped an object does not see it again because of a resync.
\<close>

lemma resync_triggers_nothing:
  assumes "map_of m (keyFunc obj) = Some obj" and "\<And>x. deepEqual x x"
  shows "triggers keyFunc deepEqual (Sync obj) m = None"
  using assms by (simp add: triggers_def)

end
