(* ===== verification/Ingress_System.thy ===== *)
theory Ingress_System
  imports Ingress_Reconcile Ingress_UID Event_Handlers
begin

text \<open>
  The ingress controller as it runs: the informers that \<open>NewIngressController\<close> builds, the goroutines
  that \<open>Run\<close> starts, and every interleaving of them. A step is one delta of an informer, one round of
  a deliverer, one item handled, or one collection of the backoffs; handlers run to their end in one
  step, and between two steps time may pass and the API servers may change. \<open>stopChan\<close> is
  \<open>wait.NeverStop\<close> in this program, so nothing is ever stopped.
\<close>

section \<open>Events and steps\<close>

record ('c, 'w) icSystem =
  sysIC :: "'c IngressController"
  sysWorld :: 'w
  sysClock :: int

datatype icEvent =
  IngressDelta "Ingress delta"
| IngressClusterDelta "Cluster delta"
| ConfigMapClusterDelta "Cluster delta"
| MemberIngressDelta string "Ingress delta"
| MemberConfigMapDelta string "ConfigMap delta"
| IngressInformerSynced "string option"
| ConfigMapInformerSynced "string option"
| IngressRound bool
| ClusterRound bool
| ConfigMapRound bool
| HandleIngress
| HandleCluster
| HandleConfigMap
| IngressBackoffGC
| ConfigMapBackoffGC

definition ingressTrigger ::
  "('c, 'w) icEnv \<Rightarrow> (Ingress, 'c IngressController) ResourceEventHandlerFuncs" where
  "ingressTrigger env = NewTriggerOnAllChanges deepEqualIngress (\<lambda>obj ic. deliverIngressObj env obj 0 False ic)"

definition memberIngressTrigger ::
  "('c, 'w) icEnv \<Rightarrow> (Ingress, 'c IngressController) ResourceEventHandlerFuncs" where
  "memberIngressTrigger env =
     NewTriggerOnAllChanges deepEqualIngress (\<lambda>obj ic. deliverIngressObj env obj (ingressReviewDelay ic) False ic)"

definition memberConfigMapTrigger ::
  "('c, 'w) icEnv \<Rightarrow> string \<Rightarrow> (ConfigMap, 'c IngressController) ResourceEventHandlerFuncs" where
  "memberConfigMapTrigger env clusterName =
     NewTriggerOnAllChanges deepEqualConfigMap
       (\<lambda>obj ic. deliverConfigMapObj env clusterName obj (configMapReviewDelay ic) False ic)"

text \<open>A delta of the informer of one member cluster, if that informer runs.\<close>

definition processMemberDelta ::
  "('o \<Rightarrow> string) \<Rightarrow> ('o, 's) ResourceEventHandlerFuncs \<Rightarrow> string \<Rightarrow> 'o delta \<Rightarrow> ('c, 'o) federatedInformer \<times> 's
   \<Rightarrow> panic option \<times> ('c, 'o) federatedInformer \<times> 's" where
  "processMemberDelta keyFunc h name d = (\<lambda>(f, s).
     case map_of (targetInformers f) name of
       None \<Rightarrow> (None, f, s)
     | Some tinf \<Rightarrow>
         let (p, st, s') = processDelta keyFunc h d (infStore tinf, s)
         in (p, f\<lparr>targetInformers := map_put name (tinf\<lparr>infStore := st\<rparr>) (targetInformers f)\<rparr>, s'))"

definition markSynced :: "string option \<Rightarrow> ('c, 'o) federatedInformer \<Rightarrow> ('c, 'o) federatedInformer" where
  "markSynced which f =
     (case which of
        None \<Rightarrow> f\<lparr>clusterHasSynced := True\<rparr>
      | Some name \<Rightarrow>
          (case map_of (targetInformers f) name of
             None \<Rightarrow> f
           | Some tinf \<Rightarrow> f\<lparr>targetInformers := map_put name (tinf\<lparr>infHasSynced := True\<rparr>) (targetInformers f)\<rparr>))"

text \<open>
  \<open>StartWithHandler\<close>: the goroutine takes the first item from the target channel and handles it;
  while the channel is empty it waits, and the step changes nothing.
\<close>

definition takeItem :: "'v DelayingDeliverer \<Rightarrow> 'v DelayingDeliverer" where
  "takeItem d = d\<lparr>targetChannel := tl (targetChannel d)\<rparr>"

definition handleIngress ::
  "('c, 'w) icEnv \<Rightarrow> 'c IngressController \<times> 'w \<Rightarrow> panic option \<times> 'c IngressController \<times> 'w" where
  "handleIngress env = (\<lambda>(ic, w).
     case targetChannel (ingressDeliverer ic) of
       [] \<Rightarrow> (None, ic, w)
     | item # rest \<Rightarrow>
         (None, ingressHandler env item (ic\<lparr>ingressDeliverer := takeItem (ingressDeliverer ic)\<rparr>, w)))"

definition handleCluster ::
  "('c, 'w) icEnv \<Rightarrow> 'c IngressController \<times> 'w \<Rightarrow> panic option \<times> 'c IngressController \<times> 'w" where
  "handleCluster env = (\<lambda>(ic, w).
     case targetChannel (clusterDeliverer ic) of
       [] \<Rightarrow> (None, ic, w)
     | item # rest \<Rightarrow> clusterHandler env item (ic\<lparr>clusterDeliverer := takeItem (clusterDeliverer ic)\<rparr>, w))"

definition handleConfigMap ::
  "('c, 'w) icEnv \<Rightarrow> 'c IngressController \<times> 'w \<Rightarrow> panic option \<times> 'c IngressController \<times> 'w" where
  "handleConfigMap env = (\<lambda>(ic, w).
     case targetChannel (configMapDeliverer ic) of
       [] \<Rightarrow> (None, ic, w)
     | item # rest \<Rightarrow> configMapHandler env item (ic\<lparr>configMapDeliverer := takeItem (configMapDeliverer ic)\<rparr>, w))"

abbreviation ingressStoreKey :: "Ingress \<Rightarrow> string" where
  "ingressStoreKey i \<equiv> MetaNamespaceKey (inMeta i)"

definition onIC ::
  "('c IngressController \<Rightarrow> panic option \<times> 'c IngressController) \<Rightarrow> 'c IngressController \<times> 'w
   \<Rightarrow> panic option \<times> 'c IngressController \<times> 'w" where
  "onIC f = (\<lambda>(ic, w). let (p, ic') = f ic in (p, ic', w))"

definition informerStep :: "('c, 'w) icEnv \<Rightarrow> icEvent \<Rightarrow> 'c IngressController \<Rightarrow> panic option \<times> 'c IngressController" where
  "informerStep env e ic =
     (case e of
        IngressDelta d \<Rightarrow>
          let (p, st, ic') = processDelta ingressStoreKey (ingressTrigger env) d (ingressInformerStore ic, ic)
          in (p, ic'\<lparr>ingressInformerStore := st\<rparr>)
      | IngressClusterDelta d \<Rightarrow>
          let (f, ic') = processClusterDelta (ingressClusterHandlers env) d (ingressFederatedInformer ic, ic)
          in (None, ic'\<lparr>ingressFederatedInformer := f\<rparr>)
      | ConfigMapClusterDelta d \<Rightarrow>
          let (f, ic') = processClusterDelta (configMapClusterHandlers env) d (configMapFederatedInformer ic, ic)
          in (None, ic'\<lparr>configMapFederatedInformer := f\<rparr>)
      | MemberIngressDelta name d \<Rightarrow>
          let (p, f, ic') = processMemberDelta ingressStoreKey (memberIngressTrigger env) name d (ingressFederatedInformer ic, ic)
          in (p, ic'\<lparr>ingressFederatedInformer := f\<rparr>)
      | MemberConfigMapDelta name d \<Rightarrow>
          let (p, f, ic') = processMemberDelta (\<lambda>cm. MetaNamespaceKey (cmMeta cm)) (memberConfigMapTrigger env name) name d
                (configMapFederatedInformer ic, ic)
          in (p, ic'\<lparr>configMapFederatedInformer := f\<rparr>)
      | IngressInformerSynced which \<Rightarrow>
          (None, ic\<lparr>ingressFederatedInformer := markSynced which (ingressFederatedInformer ic)\<rparr>)
      | ConfigMapInformerSynced which \<Rightarrow>
          (None, ic\<lparr>configMapFederatedInformer := markSynced which (configMapFederatedInformer ic)\<rparr>)
      | _ \<Rightarrow> (None, ic))"

definition Run ::
  "('c, 'w) icEnv \<Rightarrow> icEvent \<Rightarrow> 'c IngressController \<times> 'w \<Rightarrow> panic option \<times> 'c IngressController \<times> 'w" where
  "Run env e =
     (case e of
        IngressRound received \<Rightarrow>
          onIC (\<lambda>ic. (None, ic\<lparr>ingressDeliverer := runRound (envNow env) received (ingressDeliverer ic)\<rparr>))
      | ClusterRound received \<Rightarrow>
          onIC (\<lambda>ic. (None, ic\<lparr>clusterDeliverer := runRound (envNow env) received (clusterDeliverer ic)\<rparr>))
      | ConfigMapRound received \<Rightarrow>
          onIC (\<lambda>ic. (None, ic\<lparr>configMapDeliverer := runRound (envNow env) received (configMapDeliverer ic)\<rparr>))
      | HandleIngress \<Rightarrow> handleIngress env
      | HandleCluster \<Rightarrow> handleCluster env
      | HandleConfigMap \<Rightarrow> handleConfigMap env
      | IngressBackoffGC \<Rightarrow> onIC (\<lambda>ic. (None, ic\<lparr>ingressBackoff := boGC (envNow env) (ingressBackoff ic)\<rparr>))
      | ConfigMapBackoffGC \<Rightarrow> onIC (\<lambda>ic. (None, ic\<lparr>configMapBackoff := boGC (envNow env) (configMapBackoff ic)\<rparr>))
      | _ \<Rightarrow> onIC (informerStep env e))"

definition sysStep ::
  "('c, 'w) kubeAPI \<Rightarrow> nat list \<Rightarrow> icEvent \<Rightarrow> ('c, 'w) icSystem \<Rightarrow> panic option \<times> ('c, 'w) icSystem" where
  "sysStep api finished e s =
     (let env = \<lparr>envNow = sysClock s, envAPI = api, envFinished = finished\<rparr>;
          (p, ic', w') = Run env e (sysIC s, sysWorld s)
      in (p, s\<lparr>sysIC := ic', sysWorld := w'\<rparr>))"

text \<open>
  \<open>StartFederatedIngressController\<close> builds the controller and runs it; nothing has happened yet.
\<close>

definition StartFederatedIngressController ::
  "(Cluster \<Rightarrow> 'c \<Rightarrow> Ingress informer) \<Rightarrow> (Cluster \<Rightarrow> 'c \<Rightarrow> ConfigMap informer) \<Rightarrow> (Cluster \<Rightarrow> 'c res)
   \<Rightarrow> 'w \<Rightarrow> int \<Rightarrow> ('c, 'w) icSystem" where
  "StartFederatedIngressController newIngressInformer newConfigMapInformer client w now =
     \<lparr>sysIC = NewIngressController newIngressInformer newConfigMapInformer client, sysWorld = w, sysClock = now\<rparr>"

section \<open>What the handlers do to the controller\<close>

text \<open>
  Handlers and triggers only add requests to the deliverers. \<open>delays\<close> are the settings of the
  controller, which never change.
\<close>

definition adds :: "('v DelayingDelivererItem \<Rightarrow> bool) \<Rightarrow> 'v DelayingDeliverer \<Rightarrow> 'v DelayingDeliverer \<Rightarrow> bool" where
  "adds P d d' \<longleftrightarrow> (\<exists>us. d' = d\<lparr>updateChannel := updateChannel d @ us\<rparr> \<and> list_all P us)"

abbreviation named :: "NamespacedName DelayingDelivererItem \<Rightarrow> bool" where
  "named item \<equiv> dKey item = nnString (dValue item)"

definition delays :: "'c IngressController \<Rightarrow> int list" where
  "delays ic = [ingressReviewDelay ic, configMapReviewDelay ic, clusterAvailableDelay ic, clusterUnavailableDelay ic,
     smallDelay ic, updateTimeout ic]"

definition bo_minute :: "BackoffManager \<Rightarrow> bool" where
  "bo_minute p \<longleftrightarrow> bo_inv p \<and> boMaxDuration p = 60 * second"

lemma bo_minute_step [simp]:
  "bo_minute p \<Longrightarrow> bo_minute (boNext key t now p)" "bo_minute p \<Longrightarrow> bo_minute (boReset key p)"
  "bo_minute p \<Longrightarrow> bo_minute (boGC now p)"
  by (simp_all add: bo_minute_def bo_inv_next bo_inv_reset bo_inv_gc) (simp_all add: boReset_def boGC_def)

lemma bo_minute_get: "bo_minute p \<Longrightarrow> boGet key p \<le> 60 * second"
  using bo_entry [of p key] by (auto simp: bo_minute_def boGet_def second_def split: option.split)

definition requests :: "'c IngressController \<Rightarrow> 'c IngressController \<Rightarrow> bool" where
  "requests ic ic' \<longleftrightarrow>
     adds named (ingressDeliverer ic) (ingressDeliverer ic') \<and>
     adds (\<lambda>_. True) (clusterDeliverer ic) (clusterDeliverer ic') \<and>
     adds (\<lambda>_. True) (configMapDeliverer ic) (configMapDeliverer ic') \<and>
     (bo_minute (ingressBackoff ic) \<longrightarrow> bo_minute (ingressBackoff ic')) \<and>
     (bo_minute (configMapBackoff ic) \<longrightarrow> bo_minute (configMapBackoff ic')) \<and>
     delays ic' = delays ic \<and> ingressInformerStore ic' = ingressInformerStore ic \<and>
     ingressFederatedInformer ic' = ingressFederatedInformer ic \<and>
     (inf_wf (configMapFederatedInformer ic) \<longrightarrow> inf_wf (configMapFederatedInformer ic'))"

lemma adds_refl [simp]: "adds P d d"
  by (auto simp: adds_def intro: exI [of _ "[]"])

lemma adds_trans: "adds P d d1 \<Longrightarrow> adds P d1 d2 \<Longrightarrow> adds P d d2"
  by (auto simp: adds_def intro: exI [of _ "_ @ _"])

lemma adds_DeliverAt [simp]: "P \<lparr>dKey = key, dValue = v, dTime = t\<rparr> \<Longrightarrow> adds P d (DeliverAt key v t d)"
  by (auto simp: adds_def DeliverAt_def)

lemma adds_DeliverAfter [simp]: "P \<lparr>dKey = key, dValue = v, dTime = now + delay\<rparr> \<Longrightarrow> adds P d (DeliverAfter key v delay now d)"
  by (simp add: DeliverAfter_def)

lemma requests_refl [simp]: "requests ic ic"
  by (simp add: requests_def)

lemma requests_trans: "requests ic ic1 \<Longrightarrow> requests ic1 ic2 \<Longrightarrow> requests ic ic2"
  by (auto simp: requests_def intro: adds_trans)

lemma requests_deliver [simp]:
  "requests ic (deliverIngress env n d b ic)"
  "requests ic (deliverIngressObj env i d b ic)"
  "requests ic (deliverConfigMap env c n d b ic)"
  "requests ic (deliverConfigMapObj env c cm d b ic)"
  "requests ic (deliverCluster env c v d ic)"
  "requests ic (retryConfigMap env c d ic)"
  by (simp_all add: requests_def delays_def deliverIngress_def deliverIngressObj_def deliverConfigMap_def
      deliverConfigMapObj_def deliverCluster_def retryConfigMap_def Let_def)

lemma requests_foldl: "(\<And>ic x. requests ic (f ic x)) \<Longrightarrow> requests ic (foldl f ic xs)"
  by (induction xs arbitrary: ic) (auto intro: requests_trans)

text \<open>A reconciliation of an ingress asks for at most one more delivery.\<close>

definition delivers :: "('c, 'w) icEnv \<Rightarrow> 'c IngressController \<Rightarrow> 'c IngressController \<Rightarrow> bool" where
  "delivers env ic ic' \<longleftrightarrow> ic' = ic \<or> (\<exists>n d b. ic' = deliverIngress env n d b ic)"

lemma delivers_intros [simp]: "delivers env ic ic" "delivers env ic (deliverIngress env n d b ic)"
  by (auto simp: delivers_def)

lemma delivers_requests: "delivers env ic ic' \<Longrightarrow> requests ic ic'"
  by (auto simp: delivers_def)

lemma delivers_updateAnnotation [simp]: "delivers env ic (fst (updateAnnotationOnIngress env base k v (ic, w)))"
  by (simp add: updateAnnotationOnIngress_def Let_def split: prod.split sum.split)

lemma delivers_reconcileInCluster:
  "reconcileInCluster env ingress key base c ops stat (ic, w) = Return s \<Longrightarrow> delivers env ic (fst s)"
  by (auto simp: reconcileInCluster_def reconcileMissing_def reconcilePresent_def Let_def
      split: sum.splits option.splits bool.splits if_splits prod.splits)

lemma delivers_reconcileClusters:
  "reconcileClusters env ingress key base cs ops stat (ic, w) = Return s \<Longrightarrow> delivers env ic (fst s)"
proof (induction cs arbitrary: ops stat)
  case (Cons c cs)
  then show ?case by (cases "reconcileInCluster env ingress key base c ops stat (ic, w)") (auto dest: delivers_reconcileInCluster)
qed simp

lemma delivers_propagate: "delivers env ic (fst (propagate env ingress base ops stat (ic, w)))"
  by (simp add: propagate_def Let_def split: prod.split option.split)

lemma delivers_reconcileIngress: "delivers env ic (fst (reconcileIngress env ingress (ic, w)))"
  using delivers_reconcileClusters [of env ingress "nnString ingress" _ _ "[]" "[]" ic]
  by (auto simp: reconcileIngress_def Let_def delivers_propagate split: option.split prod.split sum.split loopResult.split)

lemma requests_reconcileIngressesOnClusterChange:
  "requests ic (reconcileIngressesOnClusterChange env name ic)"
  unfolding reconcileIngressesOnClusterChange_def Let_def
  by (rule requests_trans [OF _ requests_foldl]) simp_all

lemma requests_informer:
  "(inf_wf (configMapFederatedInformer ic) \<Longrightarrow> inf_wf f) \<Longrightarrow> requests ic (ic\<lparr>configMapFederatedInformer := f\<rparr>)"
  by (simp add: requests_def delays_def)

lemma requests_updateConfigMap:
  "updateConfigMap env c cm uid (ic, w) = (p, ic', w') \<Longrightarrow> requests ic ic'"
  by (auto simp: updateConfigMap_def Let_def inf_wf_targetSync
      intro!: requests_informer requests_trans [OF requests_informer requests_deliver(6)]
      split: if_splits option.splits prod.splits)

lemma requests_reconcileConfigMap:
  "reconcileConfigMap env c cm (ic, w) = (p, ic', w') \<Longrightarrow> requests ic ic'"
  by (auto simp: reconcileConfigMap_def Let_def split: prod.splits sum.splits intro: requests_updateConfigMap)

lemma requests_DeliverAt:
  "requests ic (ic\<lparr>configMapDeliverer := DeliverAt key v t (configMapDeliverer ic)\<rparr>)"
  by (simp add: requests_def delays_def)

lemma requests_reconcileConfigMapForCluster:
  assumes "reconcileConfigMapForCluster env name (ic, w) = (p, ic', w')"
  shows "requests ic ic'"
proof -
  have fold: "requests ic (foldl (\<lambda>ic c. ic\<lparr>configMapDeliverer := DeliverAt (clName c) None t (configMapDeliverer ic)\<rparr>) ic cs)" for cs t
    by (rule requests_foldl) (rule requests_DeliverAt)
  from assms show ?thesis
    by (auto simp: reconcileConfigMapForCluster_def Let_def fold intro: requests_reconcileConfigMap
        split: if_splits sum.splits option.splits)
qed

section \<open>The invariant\<close>

text \<open>
  The heaps of the deliverers are in order, requests for ingresses carry their key, the stores are
  keyed by their objects, backoffs stay within their bounds and the settings are those of
  \<open>NewIngressController\<close>.
\<close>

definition items :: "'v DelayingDeliverer \<Rightarrow> 'v DelayingDelivererItem set" where
  "items d = set (updateChannel d) \<union> pending d \<union> set (targetChannel d)"

definition store_ok :: "(string \<times> Ingress) list \<Rightarrow> bool" where
  "store_ok m \<longleftrightarrow> keys_distinct m \<and> list_all (\<lambda>(k, i). k = ingressStoreKey i \<and> omNamespace (inMeta i) \<noteq> []) m"

definition ic_inv :: "'c IngressController \<Rightarrow> bool" where
  "ic_inv ic \<longleftrightarrow>
     dd_inv (ingressDeliverer ic) \<and> dd_inv (clusterDeliverer ic) \<and> dd_inv (configMapDeliverer ic) \<and>
     (\<forall>item \<in> items (ingressDeliverer ic). named item) \<and>
     inf_wf (ingressFederatedInformer ic) \<and> inf_wf (configMapFederatedInformer ic) \<and>
     store_ok (ingressInformerStore ic) \<and>
     bo_minute (ingressBackoff ic) \<and> bo_minute (configMapBackoff ic) \<and>
     delays ic = [10 * second, 10 * second, 5 * second, 5 * second, 3 * second, 30 * second]"

lemma ic_inv_requests:
  assumes "ic_inv ic" and "requests ic ic'"
  shows "ic_inv ic'"
  using assms by (auto simp: ic_inv_def requests_def adds_def items_def pending_def list_all_iff)

lemma items_takeItem: "items (takeItem d) \<subseteq> items d"
  by (cases "targetChannel d") (auto simp: items_def takeItem_def pending_def)

lemma dd_inv_takeItem [simp]: "dd_inv (takeItem d) = dd_inv d"
  by (simp add: takeItem_def)

lemma items_runRound:
  assumes "dd_inv d"
  shows "items (runRound now received d) \<subseteq> items d"
proof -
  have kept: "items (deliver now d) \<subseteq> items d" and inv: "dd_inv (deliver now d)"
    by (rule deliver_spec [OF assms, of now], auto simp: items_def)+
  have put: "set (hdata (updateHeap item h)) \<subseteq> insert item (set (hdata h))" if "heap_inv h" for item and h :: "'a delivererHeap"
    using updateHeap_new [OF that, of item] updateHeap_old [OF that, of _ item] by (cases "dKey item \<in> dKey ` set (hdata h)") (auto split: if_splits)
  show ?thesis
  proof (cases rule: runRound_cases [of now received d])
    case 1
    then show ?thesis using kept by simp
  next
    case (2 item rest)
    then show ?thesis using kept put [OF inv, of item] unfolding items_def pending_def by fastforce
  qed
qed

lemma ic_inv_runRound:
  assumes "ic_inv ic"
  shows "ic_inv (ic\<lparr>ingressDeliverer := runRound now received (ingressDeliverer ic)\<rparr>)"
    and "ic_inv (ic\<lparr>clusterDeliverer := runRound now received (clusterDeliverer ic)\<rparr>)"
    and "ic_inv (ic\<lparr>configMapDeliverer := runRound now received (configMapDeliverer ic)\<rparr>)"
  using assms items_runRound [of "ingressDeliverer ic" now received] dd_step_inv [OF dd_round]
  by (auto simp: ic_inv_def delays_def)

lemma ic_inv_takeItem:
  assumes "ic_inv ic"
  shows "ic_inv (ic\<lparr>ingressDeliverer := takeItem (ingressDeliverer ic)\<rparr>)"
    and "ic_inv (ic\<lparr>clusterDeliverer := takeItem (clusterDeliverer ic)\<rparr>)"
    and "ic_inv (ic\<lparr>configMapDeliverer := takeItem (configMapDeliverer ic)\<rparr>)"
  using assms items_takeItem [of "ingressDeliverer ic"] by (auto simp: ic_inv_def delays_def)

text \<open>The handlers, each after its item was taken from the channel.\<close>

lemma handleIngress_requests:
  assumes "targetChannel (ingressDeliverer ic) = item # rest" and "handleIngress env (ic, w) = (p, ic', w')"
  shows "p = None \<and> requests (ic\<lparr>ingressDeliverer := takeItem (ingressDeliverer ic)\<rparr>) ic'"
  using assms delivers_requests [OF delivers_reconcileIngress, of "ic\<lparr>ingressDeliverer := takeItem (ingressDeliverer ic)\<rparr>" env "dValue item" w]
  by (auto simp: handleIngress_def ingressHandler_def)

lemma handleCluster_requests:
  assumes "targetChannel (clusterDeliverer ic) = item # rest" and "handleCluster env (ic, w) = (p, ic', w')"
  shows "requests (reconcileIngressesOnClusterChange env (dKey item) (ic\<lparr>clusterDeliverer := takeItem (clusterDeliverer ic)\<rparr>)) ic'"
  using assms by (auto simp: handleCluster_def clusterHandler_def intro: requests_reconcileConfigMapForCluster)

lemma handleConfigMap_requests:
  assumes "targetChannel (configMapDeliverer ic) = item # rest" and "handleConfigMap env (ic, w) = (p, ic', w')"
  shows "requests (ic\<lparr>configMapDeliverer := takeItem (configMapDeliverer ic)\<rparr>) ic'"
  using assms by (auto simp: handleConfigMap_def configMapHandler_def intro: requests_reconcileConfigMapForCluster)

text \<open>The callbacks of the federated informers and the triggers only make requests.\<close>

lemma requests_notify:
  assumes "\<And>c s. requests s (notifyAvailable h c s)"
    and "\<And>c objs s cb. ClusterUnavailable h = Some cb \<Longrightarrow> requests s (cb c objs s)"
    and "processClusterDelta h d (f, ic) = (f', ic')"
  shows "requests ic ic'"
proof -
  have rem: "requests ic (snd (removeAndNotify h c (g, ic)))" for c g ic
    using assms(2) by (simp add: removeAndNotify_def Let_def split: option.split)
  have add: "requests ic (snd (addAndNotify h c (g, ic)))" for c g ic
    using assms(1) by (simp add: addAndNotify_def)
  have both: "requests ic (snd (addAndNotify h c (removeAndNotify h c' (g, ic))))" for c c' g ic
    using requests_trans [OF rem add] by (metis prod.collapse)
  from assms(3) have "ic' = snd (processClusterDelta h d (f, ic))" by simp
  then show ?thesis
    by (auto simp: processClusterDelta_def clusterUpdateFunc_def clusterAddFunc_def clusterDeleteFunc_def Let_def rem add both
        split: delta.split option.split deleted.split)
qed

lemma requests_ingressCluster:
  "processClusterDelta (ingressClusterHandlers env) d (f, ic) = (f', ic') \<Longrightarrow> requests ic ic'"
  by (rule requests_notify) (auto simp: ingressClusterHandlers_def notifyAvailable_def)

lemma requests_configMapCluster:
  "processClusterDelta (configMapClusterHandlers env) d (f, ic) = (f', ic') \<Longrightarrow> requests ic ic'"
  by (rule requests_notify) (auto simp: configMapClusterHandlers_def notifyAvailable_def)

lemma processMemberDelta_trigger:
  assumes "\<And>obj s. requests s (trigger obj s)"
    and "processMemberDelta keyFunc (NewTriggerOnAllChanges deepEqual trigger) name d (f, ic) = (p, f', ic')"
  shows "requests ic ic' \<and> (inf_wf f \<longrightarrow> inf_wf f') \<and>
    p = (if missed d \<and> map_of (targetInformers f) name \<noteq> None then Some TypeAssertion else None)"
  using assms
  by (auto simp: processMemberDelta_def processDelta_trigger inf_wf_put split: option.splits if_splits)

lemma inf_wf_markSynced: "inf_wf f \<Longrightarrow> inf_wf (markSynced which f)"
  by (auto simp: markSynced_def inf_wf_put split: option.split) (simp add: inf_wf_def)

section \<open>Runs\<close>

text \<open>
  What a run shows: an ingress was reconciled, and the version of it that the store held; the config
  map of a cluster was reconciled; the store got a new version of an ingress, or lost it.
\<close>

datatype icLabel =
  Reconciled string "Ingress option" | ConfigMapReconciled string | Stored string "Ingress option"

definition labels :: "icEvent \<Rightarrow> 'c IngressController \<Rightarrow> icLabel list" where
  "labels e ic =
     (case e of
        HandleIngress \<Rightarrow>
          (case targetChannel (ingressDeliverer ic) of
             [] \<Rightarrow> []
           | item # rest \<Rightarrow> [Reconciled (nnString (dValue item)) (map_of (ingressInformerStore ic) (nnString (dValue item)))])
      | HandleCluster \<Rightarrow>
          (case targetChannel (clusterDeliverer ic) of [] \<Rightarrow> [] | item # rest \<Rightarrow> [ConfigMapReconciled (dKey item)])
      | HandleConfigMap \<Rightarrow>
          (case targetChannel (configMapDeliverer ic) of [] \<Rightarrow> [] | item # rest \<Rightarrow> [ConfigMapReconciled (dKey item)])
      | IngressDelta (Sync i) \<Rightarrow> [Stored (ingressStoreKey i) (Some i)]
      | IngressDelta (Removed (Deleted i)) \<Rightarrow> [Stored (ingressStoreKey i) None]
      | IngressDelta (Removed (DeletedFinalStateUnknown k i)) \<Rightarrow> [Stored k None]
      | _ \<Rightarrow> [])"

text \<open>
  What the informers list and watch: ingresses of all namespaces, in the federation and in the
  clusters, and the config maps of the namespace of the UID. Both kinds of objects are namespaced.
\<close>

definition ingressListed :: "Ingress \<Rightarrow> bool" where
  "ingressListed i \<longleftrightarrow> omNamespace (inMeta i) \<noteq> []"

definition memberIngressListed :: "Ingress \<Rightarrow> bool" where
  "memberIngressListed i \<longleftrightarrow> omNamespace (inMeta i) \<noteq> []"

definition configMapListed :: "ConfigMap \<Rightarrow> bool" where
  "configMapListed cm \<longleftrightarrow> omNamespace (cmMeta cm) = uidConfigMapNamespace"

definition valid_event :: "icEvent \<Rightarrow> bool" where
  "valid_event e \<longleftrightarrow>
     (case e of
        IngressDelta (Sync i) \<Rightarrow> ingressListed i
      | MemberIngressDelta name (Sync i) \<Rightarrow> memberIngressListed i
      | MemberConfigMapDelta name (Sync cm) \<Rightarrow> configMapListed cm
      | _ \<Rightarrow> True)"

inductive ic_run :: "('c, 'w) kubeAPI \<Rightarrow> ('c, 'w) icSystem \<Rightarrow> icLabel list \<Rightarrow> ('c, 'w) icSystem \<Rightarrow> bool"
  for api :: "('c, 'w) kubeAPI" and s0 :: "('c, 'w) icSystem" where
  run_refl: "ic_run api s0 [] s0"
| run_step: "ic_run api s0 tr s \<Longrightarrow> valid_event e \<Longrightarrow> sysStep api finished e s = (None, s') \<Longrightarrow>
    ic_run api s0 (tr @ labels e (sysIC s)) s'"
| run_time: "ic_run api s0 tr s \<Longrightarrow> sysClock s \<le> t \<Longrightarrow> ic_run api s0 tr (s\<lparr>sysClock := t, sysWorld := w\<rparr>)"

lemma store_ok_delta:
  assumes "store_ok m" and "valid_event (IngressDelta d)"
  shows "store_ok (storeDelta ingressStoreKey d m)"
  using assms storeDelta_distinct [of m ingressStoreKey d]
  by (auto simp: store_ok_def valid_event_def ingressListed_def storeDelta_def list_all_iff split: delta.splits deleted.splits dest: set_map_putD)

lemmas trigger_defs = ingressTrigger_def memberIngressTrigger_def memberConfigMapTrigger_def

text \<open>An informer stores what it is told, and its handlers make requests.\<close>

lemma informerStep_shape:
  assumes "informerStep env e ic = (p, ic')"
  shows "\<exists>ic1 f g. requests ic ic1 \<and>
    ic' = ic1\<lparr>ingressInformerStore := (case e of IngressDelta d \<Rightarrow> storeDelta ingressStoreKey d (ingressInformerStore ic)
                | _ \<Rightarrow> ingressInformerStore ic),
              ingressFederatedInformer := f, configMapFederatedInformer := g\<rparr> \<and>
    (inf_wf (ingressFederatedInformer ic) \<longrightarrow> inf_wf f) \<and> (inf_wf (configMapFederatedInformer ic) \<longrightarrow> inf_wf g)"
proof -
  have simple: ?thesis if "requests ic ic1" "ic' = ic1\<lparr>ingressInformerStore := st\<rparr>"
      "st = (case e of IngressDelta d \<Rightarrow> storeDelta ingressStoreKey d (ingressInformerStore ic) | _ \<Rightarrow> ingressInformerStore ic)" for ic1 st
    using that by (intro exI [of _ ic1] exI [of _ "ingressFederatedInformer ic1"] exI [of _ "configMapFederatedInformer ic1"])
      (auto simp: requests_def)
  have left: ?thesis if "requests ic ic1" "ic' = ic1\<lparr>ingressFederatedInformer := f\<rparr>" "\<forall>d. e \<noteq> IngressDelta d"
      "inf_wf (ingressFederatedInformer ic) \<longrightarrow> inf_wf f" for ic1 f
    using that by (intro exI [of _ ic1] exI [of _ f] exI [of _ "configMapFederatedInformer ic1"]) (auto simp: requests_def split: icEvent.split)
  have right: ?thesis if "requests ic ic1" "ic' = ic1\<lparr>configMapFederatedInformer := g\<rparr>" "\<forall>d. e \<noteq> IngressDelta d"
      "inf_wf (configMapFederatedInformer ic) \<longrightarrow> inf_wf g" for ic1 g
    using that by (intro exI [of _ ic1] exI [of _ "ingressFederatedInformer ic1"] exI [of _ g]) (auto simp: requests_def split: icEvent.split)
  show ?thesis
  proof (cases e)
    case (IngressDelta d)
    have "requests ic (case t of None \<Rightarrow> ic | Some obj \<Rightarrow> deliverIngressObj env obj 0 False ic)" for t
      by (simp split: option.split)
    then show ?thesis
      using assms IngressDelta by (intro simple) (auto simp: informerStep_def trigger_defs processDelta_trigger)
  next
    case (IngressClusterDelta d)
    obtain f ic1 where d: "processClusterDelta (ingressClusterHandlers env) d (ingressFederatedInformer ic, ic) = (f, ic1)" by fastforce
    then have "inf_wf (ingressFederatedInformer ic) \<longrightarrow> inf_wf f" using inf_wf_step fst_processClusterDelta by (metis fst_conv)
    then show ?thesis using assms d IngressClusterDelta by (intro left [OF requests_ingressCluster [OF d]]) (auto simp: informerStep_def)
  next
    case (ConfigMapClusterDelta d)
    obtain f ic1 where d: "processClusterDelta (configMapClusterHandlers env) d (configMapFederatedInformer ic, ic) = (f, ic1)" by fastforce
    then have "inf_wf (configMapFederatedInformer ic) \<longrightarrow> inf_wf f" using inf_wf_step fst_processClusterDelta by (metis fst_conv)
    then show ?thesis using assms d ConfigMapClusterDelta by (intro right [OF requests_configMapCluster [OF d]]) (auto simp: informerStep_def)
  next
    case (MemberIngressDelta name d)
    obtain p1 f ic1 where d: "processMemberDelta ingressStoreKey (memberIngressTrigger env) name d (ingressFederatedInformer ic, ic) = (p1, f, ic1)"
      by (rule prod_cases3)
    from processMemberDelta_trigger [OF _ d [unfolded memberIngressTrigger_def]] show ?thesis
      using assms d MemberIngressDelta by (intro left) (auto simp: informerStep_def)
  next
    case (MemberConfigMapDelta name d)
    obtain p1 f ic1 where d: "processMemberDelta (\<lambda>cm. MetaNamespaceKey (cmMeta cm)) (memberConfigMapTrigger env name) name d
        (configMapFederatedInformer ic, ic) = (p1, f, ic1)"
      by (rule prod_cases3)
    from processMemberDelta_trigger [OF _ d [unfolded memberConfigMapTrigger_def]] show ?thesis
      using assms d MemberConfigMapDelta by (intro right) (auto simp: informerStep_def)
  next
    case (IngressInformerSynced which)
    then show ?thesis using assms by (intro left [OF requests_refl]) (auto simp: informerStep_def inf_wf_markSynced)
  next
    case (ConfigMapInformerSynced which)
    then show ?thesis using assms by (intro right [OF requests_refl]) (auto simp: informerStep_def inf_wf_markSynced)
  qed (use assms simple [OF requests_refl, of "ingressInformerStore ic"] in \<open>simp_all add: informerStep_def\<close>)
qed

lemma informerStep_inv:
  assumes "ic_inv ic" and "valid_event e" and "informerStep env e ic = (p, ic')"
  shows "ic_inv ic'"
proof -
  obtain ic1 f g where shape: "requests ic ic1" "inf_wf (ingressFederatedInformer ic) \<longrightarrow> inf_wf f"
      "inf_wf (configMapFederatedInformer ic) \<longrightarrow> inf_wf g"
      "ic' = ic1\<lparr>ingressInformerStore := (case e of IngressDelta d \<Rightarrow> storeDelta ingressStoreKey d (ingressInformerStore ic)
                | _ \<Rightarrow> ingressInformerStore ic), ingressFederatedInformer := f, configMapFederatedInformer := g\<rparr>"
    using informerStep_shape [OF assms(3)] by blast
  moreover have "store_ok (case e of IngressDelta d \<Rightarrow> storeDelta ingressStoreKey d (ingressInformerStore ic) | _ \<Rightarrow> ingressInformerStore ic)"
    using assms(1,2) store_ok_delta by (auto simp: ic_inv_def split: icEvent.split)
  ultimately show ?thesis
    using ic_inv_requests [OF assms(1) shape(1)] assms(1) by (simp add: ic_inv_def delays_def)
qed

lemma Run_simps:
  "Run env (IngressRound r) (ic, w) = (None, ic\<lparr>ingressDeliverer := runRound (envNow env) r (ingressDeliverer ic)\<rparr>, w)"
  "Run env (ClusterRound r) (ic, w) = (None, ic\<lparr>clusterDeliverer := runRound (envNow env) r (clusterDeliverer ic)\<rparr>, w)"
  "Run env (ConfigMapRound r) (ic, w) = (None, ic\<lparr>configMapDeliverer := runRound (envNow env) r (configMapDeliverer ic)\<rparr>, w)"
  "Run env IngressBackoffGC (ic, w) = (None, ic\<lparr>ingressBackoff := boGC (envNow env) (ingressBackoff ic)\<rparr>, w)"
  "Run env ConfigMapBackoffGC (ic, w) = (None, ic\<lparr>configMapBackoff := boGC (envNow env) (configMapBackoff ic)\<rparr>, w)"
  "Run env HandleIngress = handleIngress env" "Run env HandleCluster = handleCluster env"
  "Run env HandleConfigMap = handleConfigMap env"
  by (simp_all add: Run_def onIC_def)

definition informer_event :: "icEvent \<Rightarrow> bool" where
  "informer_event e \<longleftrightarrow> (case e of IngressRound r \<Rightarrow> False | ClusterRound r \<Rightarrow> False | ConfigMapRound r \<Rightarrow> False |
     HandleIngress \<Rightarrow> False | HandleCluster \<Rightarrow> False | HandleConfigMap \<Rightarrow> False | IngressBackoffGC \<Rightarrow> False |
     ConfigMapBackoffGC \<Rightarrow> False | _ \<Rightarrow> True)"

lemma Run_informer: "informer_event e \<Longrightarrow> Run env e (ic, w) = (fst (informerStep env e ic), snd (informerStep env e ic), w)"
  by (cases e) (simp_all add: Run_def onIC_def informer_event_def split_beta Let_def)

lemma Run_informerE:
  assumes "informer_event e" and "Run env e (ic, w) = (p, ic', w')"
  shows "informerStep env e ic = (p, ic')"
  using assms by (simp add: Run_informer prod_eq_iff)

lemma ic_inv_gc:
  assumes "ic_inv ic"
  shows "ic_inv (ic\<lparr>ingressBackoff := boGC now (ingressBackoff ic)\<rparr>)" "ic_inv (ic\<lparr>configMapBackoff := boGC now (configMapBackoff ic)\<rparr>)"
  using assms by (simp_all add: ic_inv_def delays_def)

lemma event_cases:
  obtains "e = HandleIngress" | "e = HandleCluster" | "e = HandleConfigMap" | r where "e = IngressRound r"
  | r where "e = ClusterRound r" | r where "e = ConfigMapRound r" | "e = IngressBackoffGC" | "e = ConfigMapBackoffGC"
  | "informer_event e"
  by (cases e) (auto simp: informer_event_def)

lemma handlers_inv:
  assumes "ic_inv ic"
  shows "handleIngress env (ic, w) = (p, ic', w') \<Longrightarrow> ic_inv ic'"
    and "handleCluster env (ic, w) = (p, ic', w') \<Longrightarrow> ic_inv ic'"
    and "handleConfigMap env (ic, w) = (p, ic', w') \<Longrightarrow> ic_inv ic'"
proof -
  show "ic_inv ic'" if "handleIngress env (ic, w) = (p, ic', w')"
    using that assms handleIngress_requests [OF _ that] ic_inv_requests [OF ic_inv_takeItem(1) [OF assms]]
    by (cases "targetChannel (ingressDeliverer ic)") (auto simp: handleIngress_def)
  show "ic_inv ic'" if "handleCluster env (ic, w) = (p, ic', w')"
  proof (cases "targetChannel (clusterDeliverer ic)")
    case (Cons item rest)
    from ic_inv_requests [OF ic_inv_requests [OF ic_inv_takeItem(2) [OF assms] requests_reconcileIngressesOnClusterChange]
        handleCluster_requests [OF this that]] show ?thesis .
  qed (use that assms in \<open>simp add: handleCluster_def\<close>)
  show "ic_inv ic'" if "handleConfigMap env (ic, w) = (p, ic', w')"
    using that assms handleConfigMap_requests [OF _ that] ic_inv_requests [OF ic_inv_takeItem(3) [OF assms]]
    by (cases "targetChannel (configMapDeliverer ic)") (auto simp: handleConfigMap_def)
qed

lemma Run_inv:
  assumes "ic_inv ic" and "valid_event e" and "Run env e (ic, w) = (p, ic', w')"
  shows "ic_inv ic'"
proof (cases rule: event_cases [of e])
  case 9
  then show ?thesis using assms informerStep_inv [OF assms(1,2)] by (metis Run_informer prod.collapse prod.inject)
qed (use assms(3) handlers_inv [OF assms(1)] ic_inv_runRound [OF assms(1)] ic_inv_gc [OF assms(1)] in
    \<open>auto simp: Run_simps simp del: prod.inject simp add: prod.inject\<close>)

lemma sysStep_Run:
  assumes "sysStep api finished e s = (p, s')"
  obtains env w' where "env = \<lparr>envNow = sysClock s, envAPI = api, envFinished = finished\<rparr>"
    and "Run env e (sysIC s, sysWorld s) = (p, sysIC s', w')" and "sysClock s' = sysClock s"
  using assms by (auto simp: sysStep_def Let_def split: prod.splits)

lemma sysStep_inv: "ic_inv (sysIC s) \<Longrightarrow> valid_event e \<Longrightarrow> sysStep api finished e s = (p, s') \<Longrightarrow> ic_inv (sysIC s')"
  by (metis Run_inv sysStep_Run)

lemma ic_run_inv: "ic_run api s tr s' \<Longrightarrow> ic_inv (sysIC s) \<Longrightarrow> ic_inv (sysIC s')"
  by (induction rule: ic_run.induct) (auto intro: sysStep_inv)

lemma ic_inv_new: "ic_inv (NewIngressController f g client)"
  by (simp add: ic_inv_def NewIngressController_def items_def pending_def store_ok_def delays_def inf_inv_new [unfolded inf_inv_def]
      bo_minute_def bo_inv_new second_def) (simp add: NewDelayingDeliverer_def NewBackOff_def)

section \<open>Properties\<close>

text \<open>
  C9. In every state the running controller can reach, whatever the interleaving of its informers,
  deliverers and handlers and whatever the API servers answer: the heaps of the deliverers are in
  order, every request for an ingress carries the key of that ingress, both views of the federation
  and the store of ingresses are keyed by their objects, the settings are unchanged, and no backoff
  exceeds a minute.
\<close>

theorem system_invariant:
  assumes "ic_run api (StartFederatedIngressController newIngressInformer newConfigMapInformer client w now) tr s"
  shows "ic_inv (sysIC s) \<and> boGet key (ingressBackoff (sysIC s)) \<le> 60 * second \<and>
    boGet key (configMapBackoff (sysIC s)) \<le> 60 * second"
proof -
  have "ic_inv (sysIC s)"
    by (rule ic_run_inv [OF assms]) (simp add: StartFederatedIngressController_def ic_inv_new)
  then show ?thesis by (simp add: ic_inv_def bo_minute_get)
qed

definition missed_event :: "icEvent \<Rightarrow> 'c IngressController \<Rightarrow> bool" where
  "missed_event e ic \<longleftrightarrow>
     (case e of
        IngressDelta d \<Rightarrow> missed d
      | MemberIngressDelta name d \<Rightarrow> missed d \<and> map_of (targetInformers (ingressFederatedInformer ic)) name \<noteq> None
      | MemberConfigMapDelta name d \<Rightarrow> missed d \<and> map_of (targetInformers (configMapFederatedInformer ic)) name \<noteq> None
      | _ \<Rightarrow> False)"

definition data_missing :: "'c IngressController \<Rightarrow> bool" where
  "data_missing ic \<longleftrightarrow> (\<exists>name cm. GetByKey (configMapFederatedInformer ic) name uidConfigMapKey = Inr (Some cm) \<and> cmData cm = None)"

lemma updateConfigMap_panic:
  "updateConfigMap env c cm uid s = (p, s') \<Longrightarrow> p = None \<or> p = Some NilMapWrite \<and> cmData cm = None"
  by (cases s) (auto simp: updateConfigMap_def Let_def split: if_splits option.splits prod.splits)

lemma reconcileConfigMap_panic:
  "reconcileConfigMap env c cm s = (p, s') \<Longrightarrow> p = None \<or> p = Some NilMapWrite \<and> cmData cm = None"
  by (cases s) (auto simp: reconcileConfigMap_def Let_def split: prod.splits sum.splits dest: updateConfigMap_panic)

lemma reconcileConfigMapForCluster_panic:
  "reconcileConfigMapForCluster env name (ic, w) = (p, s') \<Longrightarrow> p = None \<or> p = Some NilMapWrite \<and> data_missing ic"
  by (auto simp: reconcileConfigMapForCluster_def data_missing_def split: if_splits sum.splits option.splits
      dest: reconcileConfigMap_panic)

lemma reconcileIngressesOnClusterChange_informer [simp]:
  "configMapFederatedInformer (reconcileIngressesOnClusterChange env name ic) = configMapFederatedInformer ic"
proof -
  have "configMapFederatedInformer (foldl (\<lambda>ic i. deliverIngress env (nsName (inMeta i)) (smallDelay ic) False ic) ic is) =
      configMapFederatedInformer ic" for ic and "is" :: "Ingress list"
    by (induction "is" arbitrary: ic) simp_all
  then show ?thesis by (simp add: reconcileIngressesOnClusterChange_def Let_def deliverCluster_def)
qed

lemma handlers_panic:
  "handleIngress env (ic, w) = (p, s') \<Longrightarrow> p = None"
  "handleCluster env (ic, w) = (p, s') \<Longrightarrow> p = None \<or> p = Some NilMapWrite \<and> data_missing ic"
  "handleConfigMap env (ic, w) = (p, s') \<Longrightarrow> p = None \<or> p = Some NilMapWrite \<and> data_missing ic"
  by (auto simp: handleIngress_def handleCluster_def clusterHandler_def handleConfigMap_def configMapHandler_def data_missing_def
      split: list.splits dest!: reconcileConfigMapForCluster_panic)

lemma informerStep_panic:
  "fst (informerStep env e ic) = (if missed_event e ic then Some TypeAssertion else None)"
  by (cases e) (auto simp: informerStep_def missed_event_def trigger_defs processDelta_trigger processMemberDelta_def
      split_beta Let_def split: option.splits)


end
