(* ===== verification/Ingress_Liveness.thy ===== *)
theory Ingress_Liveness
  imports Ingress_System
begin

text \<open>
  What the running ingress controller reacts to: a change of an ingress in the federation is followed
  by a reconciliation that sees it, and a cluster that becomes ready is followed by reconciliations
  of all ingresses and of its config map.
\<close>

section \<open>No request is lost\<close>

text \<open>
  \<open>owed\<close>: some item on its way to the handler answers a request for the key at time \<open>t\<close>. A deliverer
  is idle when its channels are empty and no item is due.
\<close>

definition owed :: "string \<Rightarrow> int \<Rightarrow> 'v DelayingDeliverer \<Rightarrow> bool" where
  "owed key t d \<longleftrightarrow> (\<exists>i \<in> items d. answers key t i)"

definition idle :: "int \<Rightarrow> 'v DelayingDeliverer \<Rightarrow> bool" where
  "idle now d \<longleftrightarrow> updateChannel d = [] \<and> targetChannel d = [] \<and> list_all (\<lambda>i. now < dTime i) (hdata (dlHeap d))"

lemma owed_idle: "owed key t d \<Longrightarrow> idle now d \<Longrightarrow> now < t"
  by (auto simp: owed_def idle_def items_def pending_def answers_def list_all_iff)

lemma owed_answered: "owed key t d \<longleftrightarrow> answered_or_owed key t 0 d"
  by (simp add: owed_def answered_or_owed_def items_def)

lemma owed_runRound: "dd_inv d \<Longrightarrow> owed key t d \<Longrightarrow> owed key t (runRound now received d)"
  unfolding owed_answered by (rule dd_step_keeps_answer [OF dd_round])

lemma owed_adds: "adds P d d' \<Longrightarrow> owed key t d \<Longrightarrow> owed key t d'"
  by (auto simp: adds_def owed_def items_def pending_def)

lemma owed_requests:
  assumes "requests ic ic'"
  shows "owed key t (ingressDeliverer ic) \<Longrightarrow> owed key t (ingressDeliverer ic')"
    and "owed key t (clusterDeliverer ic) \<Longrightarrow> owed key t (clusterDeliverer ic')"
    and "owed key t (configMapDeliverer ic) \<Longrightarrow> owed key t (configMapDeliverer ic')"
  using assms owed_adds by (fastforce simp: requests_def)+

lemma owed_DeliverAt [simp]: "owed key t (DeliverAt key v t d)"
  by (simp add: owed_def items_def DeliverAt_def answers_def)

lemma owed_DeliverAfter [simp]: "owed key (now + delay) (DeliverAfter key v delay now d)"
  by (simp add: DeliverAfter_def)

lemma owed_later: "owed key t d \<Longrightarrow> t \<le> t' \<Longrightarrow> owed key t' d"
  by (force simp: owed_def answers_def)

lemma owed_take:
  assumes "targetChannel d = item # rest" and "owed key t d"
  shows "dKey item = key \<or> owed key t (takeItem d)"
  using assms by (auto simp: owed_def items_def takeItem_def pending_def answers_def)

text \<open>Every step but the handler of a deliverer keeps what the deliverer owes.\<close>

lemma informerStep_adds:
  assumes "informerStep env e ic = (p, ic')"
  shows "adds named (ingressDeliverer ic) (ingressDeliverer ic') \<and> adds (\<lambda>_. True) (clusterDeliverer ic) (clusterDeliverer ic') \<and>
    adds (\<lambda>_. True) (configMapDeliverer ic) (configMapDeliverer ic')"
  using informerStep_shape [OF assms] by (auto simp: requests_def)

lemma Run_owed_ingress:
  assumes "ic_inv ic" and "Run env e (ic, w) = (p, ic', w')" and "owed key t (ingressDeliverer ic)"
  shows "owed key t (ingressDeliverer ic') \<or> (\<exists>v. Reconciled key v \<in> set (labels e ic))"
proof (cases rule: event_cases [of e])
  case 1
  show ?thesis
  proof (cases "targetChannel (ingressDeliverer ic)")
    case (Cons item rest)
    then have "named item" using assms(1) by (simp add: ic_inv_def items_def)
    moreover have "requests (ic\<lparr>ingressDeliverer := takeItem (ingressDeliverer ic)\<rparr>) ic'"
      using handleIngress_requests [OF Cons, of env w p ic' w'] assms(2) 1 by (simp add: Run_simps)
    ultimately show ?thesis
      using owed_take [OF Cons assms(3)] 1 Cons owed_requests(1) by (fastforce simp: labels_def)
  qed (use assms 1 in \<open>simp add: Run_simps handleIngress_def\<close>)
next
  case 2
  show ?thesis
  proof (cases "targetChannel (clusterDeliverer ic)")
    case (Cons item rest)
    have "requests (ic\<lparr>clusterDeliverer := takeItem (clusterDeliverer ic)\<rparr>) ic'"
      using requests_trans [OF requests_reconcileIngressesOnClusterChange handleCluster_requests [OF Cons]] assms(2) 2
      by (simp add: Run_simps)
    from owed_requests [OF this] show ?thesis using assms(3) by simp
  qed (use assms 2 in \<open>simp add: Run_simps handleCluster_def\<close>)
next
  case 3
  show ?thesis
  proof (cases "targetChannel (configMapDeliverer ic)")
    case (Cons item rest)
    have "requests (ic\<lparr>configMapDeliverer := takeItem (configMapDeliverer ic)\<rparr>) ic'"
      using handleConfigMap_requests [OF Cons] assms(2) 3 by (simp add: Run_simps)
    from owed_requests [OF this] show ?thesis using assms(3) by simp
  qed (use assms 3 in \<open>simp add: Run_simps handleConfigMap_def\<close>)
next
  case 9
  then show ?thesis using informerStep_adds [OF Run_informerE [OF _ assms(2)]] owed_adds assms(3) by blast
qed (use assms owed_runRound [of "ingressDeliverer ic"] in \<open>auto simp: Run_simps ic_inv_def\<close>)

lemma ic_run_owed_ingress:
  assumes "ic_run api s tr s'" and "ic_inv (sysIC s)" and "owed key t (ingressDeliverer (sysIC s))"
  shows "owed key t (ingressDeliverer (sysIC s')) \<or> (\<exists>v. Reconciled key v \<in> set tr)"
  using assms
proof (induction rule: ic_run.induct)
  case (run_step tr s1 e finished s2)
  have inv: "ic_inv (sysIC s1)" using ic_run_inv run_step by blast
  obtain env w' where "Run env e (sysIC s1, sysWorld s1) = (None, sysIC s2, w')"
    by (rule sysStep_Run [OF run_step.hyps(3)])
  from Run_owed_ingress [OF inv this, of key t] run_step show ?case by auto
qed auto

section \<open>The store\<close>

definition latest :: "string \<Rightarrow> Ingress option \<Rightarrow> icLabel list \<Rightarrow> Ingress option" where
  "latest key v tr = foldl (\<lambda>v l. case l of Stored k x \<Rightarrow> if k = key then x else v | _ \<Rightarrow> v) v tr"

lemma latest_simps [simp]: "latest key v [] = v" "latest key v (tr @ tr') = latest key (latest key v tr) tr'"
  by (simp_all add: latest_def)

lemma Run_store:
  assumes "Run env e (ic, w) = (p, ic', w')"
  shows "ingressInformerStore ic' =
    (case e of IngressDelta d \<Rightarrow> storeDelta ingressStoreKey d (ingressInformerStore ic) | _ \<Rightarrow> ingressInformerStore ic)"
proof (cases rule: event_cases [of e])
  case 1
  then show ?thesis
    using assms handleIngress_requests [of ic _ _ env w p ic' w']
    by (cases "targetChannel (ingressDeliverer ic)") (auto simp: Run_simps requests_def, simp add: handleIngress_def)
next
  case 2
  show ?thesis
  proof (cases "targetChannel (clusterDeliverer ic)")
    case (Cons item rest)
    have "requests (ic\<lparr>clusterDeliverer := takeItem (clusterDeliverer ic)\<rparr>) ic'"
      using requests_trans [OF requests_reconcileIngressesOnClusterChange handleCluster_requests [OF Cons]] assms 2
      by (simp add: Run_simps)
    then show ?thesis using 2 by (simp add: requests_def)
  qed (use assms 2 in \<open>simp add: Run_simps handleCluster_def\<close>)
next
  case 3
  then show ?thesis
    using assms handleConfigMap_requests [of ic _ _ env w p ic' w']
    by (cases "targetChannel (configMapDeliverer ic)") (auto simp: Run_simps requests_def, simp add: handleConfigMap_def)
next
  case 9
  from informerStep_shape [OF Run_informerE [OF this assms]] show ?thesis by auto
qed (use assms in \<open>auto simp: Run_simps\<close>)

lemma Run_latest:
  assumes "Run env e (ic, w) = (p, ic', w')"
  shows "map_of (ingressInformerStore ic') key = latest key (map_of (ingressInformerStore ic) key) (labels e ic)"
  unfolding Run_store [OF assms] labels_def
  by (auto simp: storeDelta_def latest_def split: icEvent.split delta.split deleted.split list.split)

lemma labels_Reconciled:
  assumes "labels e ic = us @ Reconciled key v # vs"
  shows "us = [] \<and> v = map_of (ingressInformerStore ic) key"
  using assms
  by (cases us) (auto simp: labels_def split: icEvent.splits delta.splits deleted.splits list.splits)

lemma ic_run_latest:
  assumes "ic_run api s tr s'"
  shows "map_of (ingressInformerStore (sysIC s')) key = latest key (map_of (ingressInformerStore (sysIC s)) key) tr"
  using assms
proof (induction rule: ic_run.induct)
  case (run_step tr s1 e finished s2)
  obtain env w' where "Run env e (sysIC s1, sysWorld s1) = (None, sysIC s2, w')"
    by (rule sysStep_Run [OF run_step.hyps(3)])
  from Run_latest [OF this] run_step.IH show ?case by simp
qed simp_all

text \<open>A reconciliation sees the version of the ingress that was stored last.\<close>

lemma ic_run_sees_latest:
  assumes "ic_run api s tr s'" and "Reconciled key v \<in> set tr"
  shows "\<exists>us vs. tr = us @ Reconciled key v # vs \<and> v = latest key (map_of (ingressInformerStore (sysIC s)) key) us"
  using assms
proof (induction rule: ic_run.induct)
  case (run_step tr s1 e finished s2)
  show ?case
  proof (cases "Reconciled key v \<in> set tr")
    case True
    with run_step.IH obtain us vs where "tr = us @ Reconciled key v # vs"
        "v = latest key (map_of (ingressInformerStore (sysIC s)) key) us" by blast
    then show ?thesis by (intro exI [of _ us] exI [of _ "vs @ labels e (sysIC s1)"]) simp
  next
    case False
    with run_step.prems have "Reconciled key v \<in> set (labels e (sysIC s1))" by simp
    then obtain us vs where l: "labels e (sysIC s1) = us @ Reconciled key v # vs" by (meson split_list)
    from labels_Reconciled [OF l] ic_run_latest [OF run_step.hyps(1), of key] l show ?thesis
      by (intro exI [of _ tr] exI [of _ vs]) simp
  qed
qed auto

lemma ic_run_clock: "ic_run api s tr s' \<Longrightarrow> sysClock s \<le> sysClock s'"
proof (induction rule: ic_run.induct)
  case (run_step tr s1 e finished s2)
  then show ?case by (metis sysStep_Run)
qed auto

section \<open>Cluster changes\<close>

lemma owed_foldl_deliver:
  assumes "i \<in> set is"
  shows "owed (nnString (nsName (inMeta i))) (envNow env + smallDelay ic)
    (ingressDeliverer (foldl (\<lambda>ic i. deliverIngress env (nsName (inMeta i)) (smallDelay ic) False ic) ic is))"
  using assms
proof (induction "is" arbitrary: ic)
  case (Cons j "is")
  let ?ic = "deliverIngress env (nsName (inMeta j)) (smallDelay ic) False ic"
  have same: "smallDelay ?ic = smallDelay ic" by (simp add: deliverIngress_def Let_def)
  show ?case
  proof (cases "i \<in> set is")
    case True
    then show ?thesis using Cons.IH [of ?ic] same by simp
  next
    case False
    then have "owed (nnString (nsName (inMeta i))) (envNow env + smallDelay ic) (ingressDeliverer ?ic)"
      using Cons.prems by (simp add: deliverIngress_def Let_def)
    moreover have "requests ?ic (foldl (\<lambda>ic i. deliverIngress env (nsName (inMeta i)) (smallDelay ic) False ic) ?ic is)"
      by (rule requests_foldl) simp
    ultimately show ?thesis by (simp add: owed_requests(1))
  qed
qed simp

lemma store_key: "store_ok m \<Longrightarrow> (key, i) \<in> set m \<Longrightarrow> key = nnString (nsName (inMeta i))"
  by (auto simp: store_ok_def list_all_iff MetaNamespaceKey_nsName)

lemma fan_out:
  assumes "ic_inv ic" and "(key, i) \<in> set (ingressInformerStore ic)"
  shows "owed key (envNow env + 3 * second) (ingressDeliverer (reconcileIngressesOnClusterChange env name ic))"
proof -
  define ic1 where "ic1 = (if \<not> isSynced ic then deliverCluster env name None (clusterAvailableDelay ic) ic else ic)"
  have "store_ok (ingressInformerStore ic)" and small: "smallDelay ic = 3 * second"
    using assms(1) by (simp_all add: ic_inv_def delays_def)
  then have key: "key = nnString (nsName (inMeta i))" using store_key assms(2) by blast
  have ic1: "ingressInformerStore ic1 = ingressInformerStore ic" "smallDelay ic1 = smallDelay ic"
    by (simp_all add: ic1_def deliverCluster_def)
  have "i \<in> set (map snd (ingressInformerStore ic1))" using assms(2) ic1 by force
  from owed_foldl_deliver [OF this, of env ic1] show ?thesis
    unfolding reconcileIngressesOnClusterChange_def Let_def ic1_def [symmetric] key ic1(2) small .
qed

lemma Run_owed_cluster:
  assumes "ic_inv ic" and "Run env e (ic, w) = (p, ic', w')" and "owed name t (clusterDeliverer ic)"
  shows "owed name t (clusterDeliverer ic') \<or>
    ConfigMapReconciled name \<in> set (labels e ic) \<and>
    (\<forall>(key, i) \<in> set (ingressInformerStore ic'). owed key (envNow env + 3 * second) (ingressDeliverer ic'))"
proof (cases rule: event_cases [of e])
  case 1
  show ?thesis
  proof (cases "targetChannel (ingressDeliverer ic)")
    case (Cons item rest)
    have "requests (ic\<lparr>ingressDeliverer := takeItem (ingressDeliverer ic)\<rparr>) ic'"
      using handleIngress_requests [OF Cons, of env w p ic' w'] assms(2) 1 by (simp add: Run_simps)
    from owed_requests [OF this] show ?thesis using assms(3) by simp
  qed (use assms 1 in \<open>simp add: Run_simps handleIngress_def\<close>)
next
  case 2
  show ?thesis
  proof (cases "targetChannel (clusterDeliverer ic)")
    case (Cons item rest)
    let ?ic = "ic\<lparr>clusterDeliverer := takeItem (clusterDeliverer ic)\<rparr>"
    have req: "requests (reconcileIngressesOnClusterChange env (dKey item) ?ic) ic'"
      using handleCluster_requests [OF Cons] assms(2) 2 by (simp add: Run_simps)
    have req': "requests ?ic ic'" using requests_trans [OF requests_reconcileIngressesOnClusterChange req] .
    from owed_take [OF Cons assms(3)] show ?thesis
    proof
      assume "owed name t (takeItem (clusterDeliverer ic))"
      then show ?thesis using owed_requests(2) [OF req'] by simp
    next
      assume name: "dKey item = name"
      have "owed key (envNow env + 3 * second) (ingressDeliverer ic')" if "(key, i) \<in> set (ingressInformerStore ic')" for key i
      proof -
        have "(key, i) \<in> set (ingressInformerStore ?ic)" using that req' by (simp add: requests_def)
        from fan_out [OF ic_inv_takeItem(2) [OF assms(1)] this] show ?thesis by (rule owed_requests(1) [OF req])
      qed
      then show ?thesis using name 2 Cons by (auto simp: labels_def)
    qed
  qed (use assms 2 in \<open>simp add: Run_simps handleCluster_def\<close>)
next
  case 3
  show ?thesis
  proof (cases "targetChannel (configMapDeliverer ic)")
    case (Cons item rest)
    have "requests (ic\<lparr>configMapDeliverer := takeItem (configMapDeliverer ic)\<rparr>) ic'"
      using handleConfigMap_requests [OF Cons] assms(2) 3 by (simp add: Run_simps)
    from owed_requests [OF this] show ?thesis using assms(3) by simp
  qed (use assms 3 in \<open>simp add: Run_simps handleConfigMap_def\<close>)
next
  case 9
  then show ?thesis using informerStep_adds [OF Run_informerE [OF _ assms(2)]] owed_adds assms(3) by blast
qed (use assms owed_runRound [of "clusterDeliverer ic"] in \<open>auto simp: Run_simps ic_inv_def\<close>)

text \<open>An ingress that enters the store is owed at once.\<close>

lemma Run_delta_owed:
  assumes "Run env (IngressDelta d) (ic, w) = (p, ic', w')"
    and "triggers ingressStoreKey deepEqualIngress d (ingressInformerStore ic) = Some obj"
  shows "owed (nnString (nsName (inMeta obj))) (envNow env) (ingressDeliverer ic')"
proof -
  have "informerStep env (IngressDelta d) ic = (p, ic')"
    using assms(1) by (intro Run_informerE) (simp_all add: informer_event_def)
  then have "ic' = (deliverIngressObj env obj 0 False ic)\<lparr>ingressInformerStore := storeDelta ingressStoreKey d (ingressInformerStore ic)\<rparr>"
    using assms(2) by (auto simp: informerStep_def trigger_defs processDelta_trigger)
  then show ?thesis using owed_DeliverAfter [of _ "envNow env" 0]
    by (simp add: deliverIngressObj_def deliverIngress_def Let_def)
qed

lemma Run_new_key:
  assumes "ic_inv ic" and "valid_event e" and "Run env e (ic, w) = (p, ic', w')"
    and "key \<in> fst ` set (ingressInformerStore ic')" and "key \<notin> fst ` set (ingressInformerStore ic)"
  shows "owed key (envNow env) (ingressDeliverer ic')"
proof -
  obtain d where e: "e = IngressDelta d" using assms(4,5) Run_store [OF assms(3)] by (auto split: icEvent.splits)
  then obtain obj where d: "d = Sync obj" "key = ingressStoreKey obj"
    using assms(4,5) Run_store [OF assms(3)] by (cases d) (auto simp: storeDelta_def split: deleted.splits)
  then have "triggers ingressStoreKey deepEqualIngress d (ingressInformerStore ic) = Some obj"
    using assms(5) by (simp add: triggers_def map_of_eq_None_iff [THEN iffD2])
  from Run_delta_owed [OF assms(3) [unfolded e] this] show ?thesis
    using assms(2) d e by (simp add: MetaNamespaceKey_nsName valid_event_def ingressListed_def)
qed

definition all_owed :: "('c, 'w) icSystem \<Rightarrow> icLabel list \<Rightarrow> bool" where
  "all_owed s tr \<longleftrightarrow> (\<forall>key \<in> fst ` set (ingressInformerStore (sysIC s)).
     owed key (sysClock s + 3 * second) (ingressDeliverer (sysIC s)) \<or> (\<exists>v. Reconciled key v \<in> set tr))"

lemma all_owed_step:
  assumes "ic_inv (sysIC s)" and "valid_event e" and "sysStep api finished e s = (None, s')" and "all_owed s tr"
  shows "all_owed s' (tr @ labels e (sysIC s))"
proof -
  obtain env w' where run: "env = \<lparr>envNow = sysClock s, envAPI = api, envFinished = finished\<rparr>"
      "Run env e (sysIC s, sysWorld s) = (None, sysIC s', w')" "sysClock s' = sysClock s"
    by (rule sysStep_Run [OF assms(3)])
  show ?thesis unfolding all_owed_def
  proof
    fix key assume key: "key \<in> fst ` set (ingressInformerStore (sysIC s'))"
    show "owed key (sysClock s' + 3 * second) (ingressDeliverer (sysIC s')) \<or> (\<exists>v. Reconciled key v \<in> set (tr @ labels e (sysIC s)))"
    proof (cases "key \<in> fst ` set (ingressInformerStore (sysIC s))")
      case True
      then show ?thesis using assms(4) Run_owed_ingress [OF assms(1) run(2)] run(3) by (auto simp: all_owed_def)
    next
      case False
      then have "owed key (sysClock s) (ingressDeliverer (sysIC s'))"
        using Run_new_key [OF assms(1,2) run(2) key] run(1) by simp
      from owed_later [OF this, of "sysClock s' + 3 * second"] show ?thesis using run(3) by (simp add: second_def)
    qed
  qed
qed

lemma ic_run_owed_cluster:
  assumes "ic_run api s tr s'" and "ic_inv (sysIC s)" and "owed name t (clusterDeliverer (sysIC s))"
  shows "owed name t (clusterDeliverer (sysIC s')) \<or> ConfigMapReconciled name \<in> set tr \<and> all_owed s' tr"
  using assms
proof (induction rule: ic_run.induct)
  case (run_step tr s1 e finished s2)
  have inv: "ic_inv (sysIC s1)" using ic_run_inv run_step by blast
  obtain env w' where run: "env = \<lparr>envNow = sysClock s1, envAPI = api, envFinished = finished\<rparr>"
      "Run env e (sysIC s1, sysWorld s1) = (None, sysIC s2, w')" "sysClock s2 = sysClock s1"
    by (rule sysStep_Run [OF run_step.hyps(3)])
  from run_step.IH [OF run_step.prems] show ?case
  proof
    assume "owed name t (clusterDeliverer (sysIC s1))"
    from Run_owed_cluster [OF inv run(2) this] show ?thesis using run(1,3) by (auto simp: all_owed_def)
  next
    assume "ConfigMapReconciled name \<in> set tr \<and> all_owed s1 tr"
    then show ?thesis using all_owed_step [OF inv run_step.hyps(2,3)] by simp
  qed
next
  case (run_time tr s1 t' w)
  have "all_owed s1 tr \<Longrightarrow> all_owed (s1\<lparr>sysClock := t', sysWorld := w\<rparr>) tr"
    using run_time.hyps(2) unfolding all_owed_def by (auto intro: owed_later)
  then show ?case using run_time by auto
qed auto

text \<open>The callback of the ingress informer when a cluster becomes ready.\<close>

lemma ready_cluster_owed:
  assumes "ic_inv ic" and "Run env (IngressClusterDelta (Sync c)) (ic, w) = (p, ic', w')" and "isClusterReady c"
    and "\<And>old. map_of (clusterStore (ingressFederatedInformer ic)) (clName c) = Some old \<Longrightarrow> \<not> isClusterReady old"
  shows "owed (clName c) (envNow env + 5 * second) (clusterDeliverer ic')"
proof -
  define h where "h = ingressClusterHandlers env"
  have delay: "clusterAvailableDelay ic = 5 * second" "clusterUnavailableDelay ic = 5 * second"
    using assms(1) by (simp_all add: ic_inv_def delays_def)
  have add: "owed (clName c) (envNow env + 5 * second) (clusterDeliverer (snd (addAndNotify h c (f, ic1))))"
    if "clusterAvailableDelay ic1 = 5 * second" for f ic1
    using that by (simp add: h_def addAndNotify_def ingressClusterHandlers_def notifyAvailable_def deliverCluster_def)
  have rem: "clusterAvailableDelay (snd (removeAndNotify h old (f, ic))) = 5 * second" for f old
    using delay by (simp add: h_def removeAndNotify_def ingressClusterHandlers_def deliverCluster_def Let_def)
  have both: "owed (clName c) (envNow env + 5 * second) (clusterDeliverer (snd (addAndNotify h c (removeAndNotify h old (f, ic)))))" for old f
    using add [OF rem, of "fst (removeAndNotify h old (f, ic))" old f] by (metis prod.collapse)
  have "owed (clName c) (envNow env + 5 * second)
      (clusterDeliverer (snd (processClusterDelta h (Sync c) (ingressFederatedInformer ic, ic))))"
    using assms(3,4) add [OF delay(1)] both
    by (auto simp: processClusterDelta_def clusterUpdateFunc_def clusterAddFunc_def Let_def split: option.split)
  moreover have "informerStep env (IngressClusterDelta (Sync c)) ic = (p, ic')"
    using assms(2) by (intro Run_informerE) (simp_all add: informer_event_def)
  ultimately show ?thesis by (auto simp: informerStep_def h_def [symmetric] split: prod.splits)
qed

section \<open>Runs as lists of events\<close>

text \<open>Events with the times at which they happen; \<open>None\<close> when one of them panics.\<close>

fun runEvents ::
  "('c, 'w) kubeAPI \<Rightarrow> (int \<times> icEvent) list \<Rightarrow> ('c, 'w) icSystem \<Rightarrow> (icLabel list \<times> ('c, 'w) icSystem) option" where
  "runEvents api [] s = Some ([], s)"
| "runEvents api ((t, e) # es) s =
     (let s = s\<lparr>sysClock := max t (sysClock s)\<rparr> in
      if \<not> valid_event e then None
      else case sysStep api [] e s of
        (Some p, s') \<Rightarrow> None
      | (None, s') \<Rightarrow> map_option (\<lambda>(tr, s''). (labels e (sysIC s) @ tr, s'')) (runEvents api es s'))"

lemma ic_run_trans: "ic_run api s1 tr' s2 \<Longrightarrow> ic_run api s tr s1 \<Longrightarrow> ic_run api s (tr @ tr') s2"
proof (induction rule: ic_run.induct)
  case (run_step tr' s1 e finished s2)
  then show ?case using ic_run.run_step [of api s "tr @ tr'" s1 e finished s2] by simp
qed (auto intro: ic_run.intros)

lemma runEvents_run: "runEvents api es s = Some (tr, s') \<Longrightarrow> ic_run api s tr s'"
proof (induction es arbitrary: s tr)
  case (Cons te es)
  obtain t e where te: "te = (t, e)" by fastforce
  let ?s = "s\<lparr>sysClock := max t (sysClock s)\<rparr>"
  obtain s1 tr1 where s1: "valid_event e" "sysStep api [] e ?s = (None, s1)" "runEvents api es s1 = Some (tr1, s')"
      "tr = labels e (sysIC s) @ tr1"
    using Cons.prems by (auto simp: te Let_def split: if_splits prod.splits option.splits)
  have "ic_run api s [] ?s" using run_time [OF run_refl, of s "max t (sysClock s)" api "sysWorld s"] by simp
  from ic_run.run_step [OF this s1(1,2)] show ?case using ic_run_trans [OF Cons.IH [OF s1(3)]] s1(4) by fastforce
qed (auto intro: run_refl)

lemma runEvents_append:
  "runEvents api (es @ es') s = (case runEvents api es s of
     None \<Rightarrow> None
   | Some (tr, s') \<Rightarrow> map_option (\<lambda>r. (tr @ fst r, snd r)) (runEvents api es' s'))"
proof (induction es arbitrary: s)
  case (Cons te es)
  then show ?case by (cases te) (auto simp: Let_def option.map_comp o_def split_beta split: option.split prod.split)
qed (simp add: option.map_ident split_beta)

section \<open>Properties\<close>



section \<open>Examples\<close>

definition exWeb :: Ingress where
  "exWeb = zeroIngress\<lparr>inMeta := zeroMeta\<lparr>omName := ''web'', omNamespace := ''default''\<rparr>\<rparr>"

definition exStart :: "(string, fed_world) icSystem" where
  "exStart = StartFederatedIngressController (\<lambda>c client. \<lparr>infStore = [], infHasSynced = True\<rparr>)
     (\<lambda>c client. \<lparr>infStore = [], infHasSynced = True\<rparr>) (\<lambda>c. Inr (clName c))
     \<lparr>fwIngresses = [exWeb], fwClusters = [], fwMemberIngresses = (\<lambda>c. []), fwMemberConfigMaps = (\<lambda>c. [])\<rparr> 0"

definition exChanged :: "(string, fed_world) icSystem" where
  "exChanged = snd (sysStep trackerAPI [] (IngressDelta (Sync exWeb)) exStart)"

definition exEvents :: "(int \<times> icEvent) list" where
  "exEvents = [(0, IngressRound True), (1, IngressRound False), (2, HandleIngress), (3, IngressRound True)]"

lemma exEvents_run:
  "case runEvents trackerAPI exEvents exChanged of
     Some (tr, s) \<Rightarrow> tr = [Reconciled ''default/web'' (Some exWeb)] \<and> idle (sysClock s) (ingressDeliverer (sysIC s))
   | None \<Rightarrow> False"
  by code_simp

lemma exStart_reach:
  "ic_run trackerAPI (StartFederatedIngressController (\<lambda>c client. \<lparr>infStore = [], infHasSynced = True\<rparr>)
     (\<lambda>c client. \<lparr>infStore = [], infHasSynced = True\<rparr>) (\<lambda>c. Inr (clName c))
     \<lparr>fwIngresses = [exWeb], fwClusters = [], fwMemberIngresses = (\<lambda>c. []), fwMemberConfigMaps = (\<lambda>c. [])\<rparr> 0) [] exStart"
  unfolding exStart_def by (rule run_refl)

lemma exChanged_step: "sysStep trackerAPI [] (IngressDelta (Sync exWeb)) exStart = (None, exChanged)"
proof -
  have "fst (sysStep trackerAPI [] (IngressDelta (Sync exWeb)) exStart) = None" by code_simp
  then show ?thesis by (simp add: exChanged_def prod_eq_iff)
qed


definition exReadyCluster :: "(string, fed_world) icSystem" where
  "exReadyCluster = snd (sysStep trackerAPI [] (IngressClusterDelta (Sync (exampleCluster ''a''))) exStart)"

definition exClusterEvents :: "(int \<times> icEvent) list" where
  "exClusterEvents = [(0, ClusterRound True), (5 * second, ClusterRound False), (5 * second, HandleCluster),
     (5 * second, ClusterRound True), (5 * second, IngressDelta (Sync exWeb))]"

definition exIngressEvents :: "(int \<times> icEvent) list" where
  "exIngressEvents = [(8 * second, IngressRound True), (8 * second, IngressRound False)]"

text \<open>An ingress handled while the stores are not in sync is delivered again.\<close>

definition unsyncedStep :: "(string, fed_world) icSystem \<Rightarrow> (string, fed_world) icSystem" where
  "unsyncedStep s =
     (let ic = sysIC s; d = ingressDeliverer ic in
      s\<lparr>sysIC := deliverIngress \<lparr>envNow = sysClock s, envAPI = trackerAPI, envFinished = []\<rparr> (dValue (hd (targetChannel d)))
        (clusterAvailableDelay ic) False (ic\<lparr>ingressDeliverer := takeItem d\<rparr>)\<rparr>)"

definition exLast :: "(string, fed_world) icSystem \<Rightarrow> (string, fed_world) icSystem" where
  "exLast s = s\<lparr>sysIC := (sysIC s)\<lparr>ingressDeliverer := runRound (sysClock s) True (ingressDeliverer (sysIC s))\<rparr>\<rparr>"

lemma unsyncedStep_run:
  assumes "\<not> isSynced (sysIC s)" and "targetChannel (ingressDeliverer (sysIC s)) \<noteq> []"
  shows "ic_run trackerAPI s (labels HandleIngress (sysIC s)) (exLast (unsyncedStep s))"
proof -
  obtain item rest where item: "targetChannel (ingressDeliverer (sysIC s)) = item # rest"
    using assms(2) by (cases "targetChannel (ingressDeliverer (sysIC s))") auto
  have "isSynced (ic\<lparr>ingressDeliverer := d\<rparr>) = isSynced ic" for ic :: "string IngressController" and d
    by (simp add: isSynced_def GetReadyClusters_def)
  then have "sysStep trackerAPI [] HandleIngress s = (None, unsyncedStep s)"
    using assms(1) item by (simp add: sysStep_def Run_simps handleIngress_def ingressHandler_def reconcileIngress_def
        unsyncedStep_def Let_def)
  moreover have "sysStep trackerAPI [] (IngressRound True) (unsyncedStep s) = (None, exLast (unsyncedStep s))"
    by (simp add: sysStep_def Run_simps exLast_def)
  moreover have "valid_event HandleIngress" "valid_event (IngressRound True)" by (simp_all add: valid_event_def)
  moreover have "labels (IngressRound True) ic = []" for ic :: "string IngressController" by (simp add: labels_def)
  ultimately show ?thesis using run_step [OF run_step [OF run_refl]] by fastforce
qed

lemma exClusterEvents_run:
  "case runEvents trackerAPI exClusterEvents exReadyCluster of
     Some (tr, s) \<Rightarrow> idle (sysClock s) (clusterDeliverer (sysIC s)) \<and> sysClock s = 5 * second \<and>
       map fst (ingressInformerStore (sysIC s)) = [''default/web'']
   | None \<Rightarrow> False"
  by code_simp

lemma exIngressEvents_run:
  "case runEvents trackerAPI (exClusterEvents @ exIngressEvents) exReadyCluster of
     Some (tr, s) \<Rightarrow> \<not> isSynced (sysIC s) \<and> targetChannel (ingressDeliverer (sysIC s)) \<noteq> [] \<and>
       idle (sysClock (exLast (unsyncedStep s))) (ingressDeliverer (sysIC (exLast (unsyncedStep s)))) \<and>
       sysClock (exLast (unsyncedStep s)) = 8 * second
   | None \<Rightarrow> False"
  by code_simp


theorem system_invariant_witness:
  "case runEvents trackerAPI exEvents exChanged of
     Some (tr, s) \<Rightarrow> ic_inv (sysIC s) \<and> boGet ''default/web'' (ingressBackoff (sysIC s)) \<le> 60 * second
   | None \<Rightarrow> False"
proof -
  obtain tr s where run: "runEvents trackerAPI exEvents exChanged = Some (tr, s)"
    using exEvents_run by (auto split: option.splits)
  have "valid_event (IngressDelta (Sync exWeb))" by code_simp
  from system_invariant [OF ic_run_trans [OF runEvents_run [OF run] run_step [OF exStart_reach this exChanged_step]], of "''default/web''"]
  show ?thesis unfolding run by simp
qed


end
