(* ===== verification/Deliverer_Channels.thy ===== *)
theory Deliverer_Channels
  imports Deliverer
begin

text \<open>
  The two goroutines of a delaying deliverer (\<open>federation-controller/util/delaying_deliverer.go\<close>) and
  the bounded channels between them, one statement that can block at a time. The goroutine of
  \<open>run\<close> sends to the target channel and receives from the update channel; the goroutine that
  \<open>StartWithHandler\<close> starts receives from the target channel, and its handler may send to the update
  channel of the same deliverer. The theory shows that this refines the deliverer of theory \<open>Deliverer\<close>,
  whose channels are unbounded, and in which states the two goroutines wait for each other for ever.
\<close>

section \<open>The goroutines\<close>

definition targetCapacity :: nat where "targetCapacity = 100"

definition delayingDelivererUpdateChanCapacity :: nat where "delayingDelivererUpdateChanCapacity = 1000"

text \<open>
  Where the goroutine of \<open>run\<close> is: in the loop of \<open>deliver\<close>, at its send, or at the \<open>select\<close>
  statement; the number is the time that the round has read.
\<close>

datatype 'v runState = Delivering int | Sending int "'v DelayingDelivererItem" | Selecting int

text \<open>
  \<open>chHandler\<close> are the requests that the handler has still to send before it returns. \<open>chTaken\<close> and
  \<open>chSent\<close> record the items handled and the number of requests of other goroutines; no step reads them.
\<close>

record 'v channels =
  chDeliverer :: "'v DelayingDeliverer"
  chRun :: "'v runState"
  chHandler :: "'v DelayingDelivererItem list"
  chNow :: int
  chTaken :: "'v DelayingDelivererItem list"
  chSent :: nat

definition StartWithHandler :: "int \<Rightarrow> 'v channels" where
  "StartWithHandler now =
     \<lparr>chDeliverer = NewDelayingDeliverer, chRun = Delivering now, chHandler = [], chNow = now,
      chTaken = [], chSent = 0\<rparr>"

definition due :: "int \<Rightarrow> 'v delivererHeap \<Rightarrow> bool" where
  "due timestamp h \<longleftrightarrow> hLen h > 0 \<and> \<not> timestamp < dTime (hdata h ! 0)"

text \<open>The next statement of \<open>run\<close>; \<open>None\<close> when it blocks. \<open>received\<close> is the case of \<open>select\<close> that is tried.\<close>

definition runGo :: "bool \<Rightarrow> 'v channels \<Rightarrow> 'v channels option" where
  "runGo received s =
     (let d = chDeliverer s in
      case chRun s of
        Delivering timestamp \<Rightarrow>
          if due timestamp (dlHeap d) then
            Some (s\<lparr>chDeliverer := d\<lparr>dlHeap := snd (heapPop (dlHeap d))\<rparr>,
                    chRun := Sending timestamp (fst (heapPop (dlHeap d)))\<rparr>)
          else Some (s\<lparr>chRun := Selecting timestamp\<rparr>)
      | Sending timestamp item \<Rightarrow>
          if length (targetChannel d) < targetCapacity then
            Some (s\<lparr>chDeliverer := d\<lparr>targetChannel := targetChannel d @ [item]\<rparr>, chRun := Delivering timestamp\<rparr>)
          else None
      | Selecting now \<Rightarrow>
          if received then
            (case updateChannel d of
               [] \<Rightarrow> None
             | item # rest \<Rightarrow>
                 Some (s\<lparr>chDeliverer := d\<lparr>updateChannel := rest, dlHeap := updateHeap item (dlHeap d)\<rparr>,
                         chRun := Delivering (chNow s)\<rparr>))
          else if nextWakeUp now d \<le> chNow s then Some (s\<lparr>chRun := Delivering (chNow s)\<rparr>)
          else None)"

text \<open>
  The next statement of the handler goroutine: the handler sends its next request, or it has returned
  and the next item is received; \<open>requestsOf\<close> are the requests that the handler makes for an item.
\<close>

definition handlerGo ::
  "('v DelayingDelivererItem \<Rightarrow> 'v DelayingDelivererItem list) \<Rightarrow> 'v channels \<Rightarrow> 'v channels option" where
  "handlerGo requestsOf s =
     (let d = chDeliverer s in
      case chHandler s of
        r # rs \<Rightarrow>
          if length (updateChannel d) < delayingDelivererUpdateChanCapacity then
            Some (s\<lparr>chDeliverer := DeliverAt (dKey r) (dValue r) (dTime r) d, chHandler := rs\<rparr>)
          else None
      | [] \<Rightarrow>
          (case targetChannel d of
             [] \<Rightarrow> None
           | item # rest \<Rightarrow>
               Some (s\<lparr>chDeliverer := d\<lparr>targetChannel := rest\<rparr>, chHandler := requestsOf item,
                       chTaken := chTaken s @ [item]\<rparr>)))"

text \<open>Another goroutine calls \<open>DeliverAfter\<close>.\<close>

definition requestGo :: "string \<Rightarrow> 'v \<Rightarrow> int \<Rightarrow> 'v channels \<Rightarrow> 'v channels option" where
  "requestGo key value delay s =
     (if length (updateChannel (chDeliverer s)) < delayingDelivererUpdateChanCapacity then
        Some (s\<lparr>chDeliverer := DeliverAfter key value delay (chNow s) (chDeliverer s), chSent := Suc (chSent s)\<rparr>)
      else None)"

text \<open>Steps of the goroutines, for a handler that may behave as any function of \<open>F\<close>; and runs, in which time passes.\<close>

inductive ch_step ::
  "('v DelayingDelivererItem \<Rightarrow> 'v DelayingDelivererItem list) set \<Rightarrow> 'v channels \<Rightarrow> 'v channels \<Rightarrow> bool"
  for F where
  ch_runs: "runGo received s = Some s' \<Longrightarrow> ch_step F s s'"
| ch_handles: "f \<in> F \<Longrightarrow> handlerGo f s = Some s' \<Longrightarrow> ch_step F s s'"
| ch_request: "0 \<le> delay \<Longrightarrow> requestGo key value delay s = Some s' \<Longrightarrow> ch_step F s s'"

inductive ch_run ::
  "('v DelayingDelivererItem \<Rightarrow> 'v DelayingDelivererItem list) set \<Rightarrow> 'v channels \<Rightarrow> 'v channels \<Rightarrow> bool"
  for F where
  ch_refl: "ch_run F s s"
| ch_next: "ch_run F s s1 \<Longrightarrow> ch_step F s1 s2 \<Longrightarrow> ch_run F s s2"
| ch_tick: "ch_run F s s1 \<Longrightarrow> 0 \<le> t \<Longrightarrow> ch_run F s (s1\<lparr>chNow := chNow s1 + t\<rparr>)"

abbreviation ch_reach ::
  "('v DelayingDelivererItem \<Rightarrow> 'v DelayingDelivererItem list) set \<Rightarrow> 'v channels \<Rightarrow> bool" where
  "ch_reach F s \<equiv> \<exists>now. ch_run F (StartWithHandler now) s"

lemma ch_run_trans: "ch_run F s1 s2 \<Longrightarrow> ch_run F s s1 \<Longrightarrow> ch_run F s s2"
  by (induction rule: ch_run.induct) (auto intro: ch_next ch_tick)

lemma ch_one: "ch_step F s s' \<Longrightarrow> ch_run F s s'"
  by (rule ch_next [OF ch_refl])

section \<open>Refinement of the unbounded deliverer\<close>

text \<open>
  The deliverer without bounds that a state stands for: all items sent so far are on its target
  channel, the one at the send included, and the loop of \<open>deliver\<close> has run to its end.
\<close>

definition inHand :: "'v channels \<Rightarrow> 'v DelayingDelivererItem list" where
  "inHand s = (case chRun s of Sending t i \<Rightarrow> [i] | _ \<Rightarrow> [])"

definition fullTarget :: "'v channels \<Rightarrow> 'v DelayingDeliverer" where
  "fullTarget s = (chDeliverer s)\<lparr>targetChannel := chTaken s @ targetChannel (chDeliverer s) @ inHand s\<rparr>"

definition chAbs :: "'v channels \<Rightarrow> 'v DelayingDeliverer" where
  "chAbs s =
     (case chRun s of
        Delivering t \<Rightarrow> deliver t (fullTarget s)
      | Sending t i \<Rightarrow> deliver t (fullTarget s)
      | Selecting t \<Rightarrow> fullTarget s)"

definition ch_inv :: "'v channels \<Rightarrow> bool" where
  "ch_inv s \<longleftrightarrow>
     length (targetChannel (chDeliverer s)) \<le> targetCapacity \<and>
     length (updateChannel (chDeliverer s)) \<le> delayingDelivererUpdateChanCapacity \<and>
     (\<forall>t. chRun s = Selecting t \<longrightarrow> \<not> due t (dlHeap (chDeliverer s)))"

lemma deliver_not_due: "\<not> due t (dlHeap d) \<Longrightarrow> deliver t d = d"
  by (auto simp: deliver_def deliverLoop.simps [of t "dlHeap d"] due_def)

lemma deliver_due:
  "due t (dlHeap d) \<Longrightarrow> deliver t d =
     deliver t (d\<lparr>dlHeap := snd (heapPop (dlHeap d)), targetChannel := targetChannel d @ [fst (heapPop (dlHeap d))]\<rparr>)"
  by (simp add: deliver_def deliverLoop.simps [of t "dlHeap d"] due_def split: prod.split)

lemma deliver_DeliverAt: "deliver t (DeliverAt key v t' d) = DeliverAt key v t' (deliver t d)"
  by (simp add: deliver_def DeliverAt_def split: prod.split)

lemma chAbs_request:
  assumes "chDeliverer s' = DeliverAt key v t (chDeliverer s)" and "chRun s' = chRun s" and "chTaken s' = chTaken s"
  shows "chAbs s' = DeliverAt key v t (chAbs s)"
proof -
  have "fullTarget s' = DeliverAt key v t (fullTarget s)"
    using assms by (simp add: fullTarget_def inHand_def DeliverAt_def)
  then show ?thesis using assms(2) by (simp add: chAbs_def deliver_DeliverAt split: runState.split)
qed

lemma dd_one: "dd_step d d' \<Longrightarrow> dd_run d d'"
  by (rule dd_next [OF dd_refl])

lemma dd_run_trans: "dd_run d1 d2 \<Longrightarrow> dd_run d d1 \<Longrightarrow> dd_run d d2"
  by (induction rule: dd_run.induct) (auto intro: dd_next)

lemma dd_deliver: "dd_run d (deliver now d)"
proof -
  have "runRound now False d = deliver now d" by (simp add: runRound_def Let_def)
  then show ?thesis by (metis dd_round dd_one)
qed

lemma runGo_refines:
  assumes "ch_inv s" and "runGo received s = Some s'"
  shows "dd_run (chAbs s) (chAbs s')"
proof (cases "chRun s")
  case (Delivering t)
  show ?thesis
  proof (cases "due t (dlHeap (chDeliverer s))")
    case True
    then have "due t (dlHeap (fullTarget s))" by (simp add: fullTarget_def)
    with True assms(2) Delivering have "chAbs s' = chAbs s"
      by (auto simp: runGo_def Let_def chAbs_def deliver_due fullTarget_def inHand_def)
    then show ?thesis by (simp add: dd_refl)
  next
    case False
    then have "deliver t (fullTarget s) = fullTarget s" by (simp add: deliver_not_due fullTarget_def)
    with False assms(2) Delivering have "chAbs s' = chAbs s"
      by (auto simp: runGo_def Let_def chAbs_def fullTarget_def inHand_def)
    then show ?thesis by (simp add: dd_refl)
  qed
next
  case (Sending t i)
  with assms(2) have "chAbs s' = chAbs s"
    by (auto simp: runGo_def Let_def chAbs_def fullTarget_def inHand_def split: if_splits)
  then show ?thesis by (simp add: dd_refl)
next
  case (Selecting t)
  then have nd: "deliver t (fullTarget s) = fullTarget s"
    using assms(1) by (simp add: ch_inv_def deliver_not_due fullTarget_def)
  show ?thesis
  proof (cases received)
    case True
    with assms(2) Selecting obtain item rest where u: "updateChannel (chDeliverer s) = item # rest"
        and s': "s' = s\<lparr>chDeliverer := (chDeliverer s)\<lparr>updateChannel := rest,
          dlHeap := updateHeap item (dlHeap (chDeliverer s))\<rparr>, chRun := Delivering (chNow s)\<rparr>"
      by (auto simp: runGo_def Let_def split: list.splits)
    have "fullTarget s' = (fullTarget s)\<lparr>updateChannel := rest, dlHeap := updateHeap item (dlHeap (fullTarget s))\<rparr>"
      using Selecting by (simp add: s' fullTarget_def inHand_def)
    moreover have "updateChannel (fullTarget s) = item # rest" using u by (simp add: fullTarget_def)
    ultimately have "fullTarget s' = runRound t True (fullTarget s)" by (simp add: runRound_def nd Let_def)
    then have "chAbs s' = deliver (chNow s) (runRound t True (fullTarget s))" by (simp add: s' chAbs_def)
    moreover have "chAbs s = fullTarget s" using Selecting by (simp add: chAbs_def)
    ultimately show ?thesis by (metis dd_deliver dd_round dd_one dd_run_trans)
  next
    case False
    with assms(2) Selecting have "chAbs s' = deliver (chNow s) (chAbs s)"
      by (auto simp: runGo_def Let_def chAbs_def fullTarget_def inHand_def split: if_splits)
    then show ?thesis by (simp add: dd_deliver)
  qed
qed

lemma handlerGo_refines:
  assumes "handlerGo f s = Some s'"
  shows "dd_run (chAbs s) (chAbs s')"
proof (cases "chHandler s")
  case Nil
  with assms have "chAbs s' = chAbs s"
    by (auto simp: handlerGo_def Let_def chAbs_def fullTarget_def inHand_def split: list.splits runState.split)
  then show ?thesis by (simp add: dd_refl)
next
  case (Cons r rs)
  with assms have "chAbs s' = DeliverAt (dKey r) (dValue r) (dTime r) (chAbs s)"
    by (intro chAbs_request) (auto simp: handlerGo_def Let_def split: if_splits)
  then show ?thesis by (metis dd_request dd_one)
qed

lemma requestGo_abs:
  "requestGo key value delay s = Some s' \<Longrightarrow> chAbs s' = DeliverAt key value (chNow s + delay) (chAbs s)"
  by (intro chAbs_request) (auto simp: requestGo_def DeliverAfter_def split: if_splits)

lemma ch_step_refines: "ch_step F s s' \<Longrightarrow> ch_inv s \<Longrightarrow> dd_run (chAbs s) (chAbs s')"
  by (induction rule: ch_step.induct) (metis runGo_refines handlerGo_refines requestGo_abs dd_request dd_one)+

lemma chAbs_tick [simp]: "chAbs (s\<lparr>chNow := t\<rparr>) = chAbs s"
  by (simp add: chAbs_def fullTarget_def inHand_def split: runState.split)

lemma ch_inv_tick [simp]: "ch_inv (s\<lparr>chNow := t\<rparr>) = ch_inv s"
  by (simp add: ch_inv_def)

lemma ch_inv_start [simp]: "ch_inv (StartWithHandler now)"
  by (simp add: ch_inv_def StartWithHandler_def NewDelayingDeliverer_def)

lemma ch_step_inv: "ch_step F s s' \<Longrightarrow> ch_inv s \<Longrightarrow> ch_inv s'"
  by (induction rule: ch_step.induct)
    (auto simp: ch_inv_def runGo_def handlerGo_def requestGo_def Let_def DeliverAt_def DeliverAfter_def
      split: runState.splits if_splits list.splits)

lemma ch_run_inv: "ch_run F s s' \<Longrightarrow> ch_inv s \<Longrightarrow> ch_inv s'"
  by (induction rule: ch_run.induct) (auto intro: ch_step_inv)

lemma ch_run_refines: "ch_run F s s' \<Longrightarrow> ch_inv s \<Longrightarrow> dd_run (chAbs s) (chAbs s')"
proof (induction rule: ch_run.induct)
  case (ch_next s s1 s2)
  then show ?case by (metis ch_run_inv ch_step_refines dd_run_trans)
qed (simp_all add: dd_refl)

lemma chAbs_start [simp]: "chAbs (StartWithHandler now) = NewDelayingDeliverer"
  by (simp add: chAbs_def StartWithHandler_def fullTarget_def inHand_def NewDelayingDeliverer_def
      deliver_not_due due_def hLen_def)

section \<open>Deadlock\<close>

text \<open>
  The goroutine of \<open>run\<close> waits for the handler to receive, and the handler for \<open>run\<close> to receive.
\<close>

definition deadlocked :: "'v channels \<Rightarrow> bool" where
  "deadlocked s \<longleftrightarrow>
     inHand s \<noteq> [] \<and> chHandler s \<noteq> [] \<and>
     length (targetChannel (chDeliverer s)) = targetCapacity \<and>
     length (updateChannel (chDeliverer s)) = delayingDelivererUpdateChanCapacity"

lemma deadlocked_no_step: "deadlocked s \<Longrightarrow> \<not> ch_step F s s'"
  by (auto simp: deadlocked_def inHand_def elim!: ch_step.cases
      simp: runGo_def handlerGo_def requestGo_def Let_def split: runState.splits list.splits)

lemma deadlocked_tick [simp]: "deadlocked (s\<lparr>chNow := t\<rparr>) = deadlocked s"
  by (simp add: deadlocked_def inHand_def)

lemma deadlocked_for_ever:
  "ch_run F s s' \<Longrightarrow> deadlocked s \<Longrightarrow> s' = s\<lparr>chNow := chNow s'\<rparr> \<and> chNow s \<le> chNow s'"
proof (induction rule: ch_run.induct)
  case (ch_next s s1 s2)
  then have "deadlocked s1" by (metis deadlocked_tick)
  then show ?case using ch_next.hyps(2) deadlocked_no_step by blast
next
  case (ch_tick s s1 t)
  then obtain n where "s1 = s\<lparr>chNow := n\<rparr>" "chNow s \<le> n" by blast
  then show ?case using ch_tick.hyps(2) by simp
qed simp

lemma no_step_deadlocked:
  assumes "ch_inv s" and "f \<in> F" and "\<And>s'. \<not> ch_step F s s'"
  shows "deadlocked s"
proof -
  have stuck: "runGo b s = None" "handlerGo f s = None" "requestGo k v 0 s = None" for b k v
    using assms(2,3) by (metis ch_runs not_None_eq, metis ch_handles not_None_eq, metis ch_request order_refl not_None_eq)
  from stuck(3) [of "[]" undefined]
  have u: "length (updateChannel (chDeliverer s)) = delayingDelivererUpdateChanCapacity"
    using assms(1) by (auto simp: requestGo_def ch_inv_def split: if_splits)
  have "\<exists>t i. chRun s = Sending t i \<and> \<not> length (targetChannel (chDeliverer s)) < targetCapacity"
    using stuck(1) [of True] u
    by (auto simp: runGo_def Let_def delayingDelivererUpdateChanCapacity_def split: runState.splits if_splits list.splits)
  then have r: "inHand s \<noteq> []" "length (targetChannel (chDeliverer s)) = targetCapacity"
    using assms(1) by (auto simp: inHand_def ch_inv_def)
  then have "targetChannel (chDeliverer s) \<noteq> []" by (auto simp: targetCapacity_def)
  with stuck(2) have "chHandler s \<noteq> []" by (auto simp: handlerGo_def Let_def split: list.splits)
  with u r show ?thesis by (simp add: deadlocked_def)
qed

section \<open>How many requests it takes\<close>

text \<open>The items on their way and the requests that the handler has still to send.\<close>

definition chLoad :: "'v channels \<Rightarrow> nat" where
  "chLoad s =
     length (targetChannel (chDeliverer s)) + length (inHand s) + length (hdata (dlHeap (chDeliverer s))) +
     length (updateChannel (chDeliverer s)) + length (chHandler s)"

lemma deadlocked_load: "deadlocked s \<Longrightarrow> 1102 \<le> chLoad s"
  by (cases "inHand s"; cases "chHandler s")
    (simp_all add: deadlocked_def chLoad_def targetCapacity_def delayingDelivererUpdateChanCapacity_def)

lemma length_heapUp: "length (hdata (heapUp h j)) = length (hdata h)"
proof (induction h j rule: heapUp.induct)
  case (1 h j)
  then show ?case by (subst heapUp.simps) (simp add: Let_def)
qed

lemma length_heapFix: "length (hdata (heapFix h i)) = length (hdata h)"
  using length_heapDown [of h i "hLen h"] by (auto simp: heapFix_def length_heapUp split: prod.split)

lemma length_updateHeap: "length (hdata (updateHeap item h)) \<le> Suc (length (hdata h))"
  by (simp add: updateHeap_def heapPush_def hPush_def Let_def length_heapUp length_heapFix split: option.split)

lemma runGo_load: "runGo received s = Some s' \<Longrightarrow> chLoad s' \<le> chLoad s \<and> chSent s' = chSent s"
  using length_heapPop [of "dlHeap (chDeliverer s)"] length_updateHeap [of _ "dlHeap (chDeliverer s)"]
  by (auto simp: runGo_def Let_def chLoad_def inHand_def due_def hLen_def split: runState.splits if_splits list.splits)

lemma requestGo_load:
  "requestGo key value delay s = Some s' \<Longrightarrow> chLoad s' = Suc (chLoad s) \<and> chSent s' = Suc (chSent s)"
  by (auto simp: requestGo_def DeliverAfter_def DeliverAt_def chLoad_def inHand_def split: if_splits)

text \<open>A handler that makes at most one request for every item.\<close>

locale frugal_handler =
  fixes F :: "('v DelayingDelivererItem \<Rightarrow> 'v DelayingDelivererItem list) set"
  assumes at_most_one: "f \<in> F \<Longrightarrow> length (f item) \<le> 1"
begin

lemma handlerGo_load: "f \<in> F \<Longrightarrow> handlerGo f s = Some s' \<Longrightarrow> chLoad s' \<le> chLoad s \<and> chSent s' = chSent s"
  using at_most_one [of f "hd (targetChannel (chDeliverer s))"]
  by (auto simp: handlerGo_def Let_def chLoad_def inHand_def DeliverAt_def split: list.splits if_splits)

lemma load_step: "ch_step F s s' \<Longrightarrow> chLoad s' + chSent s \<le> chLoad s + chSent s'"
  by (induction rule: ch_step.induct) (auto dest: runGo_load handlerGo_load requestGo_load)

lemma load_run: "ch_run F s s' \<Longrightarrow> chLoad s' + chSent s \<le> chLoad s + chSent s'"
proof (induction rule: ch_run.induct)
  case (ch_next s s1 s2)
  then show ?case using load_step [OF ch_next.hyps(2)] by linarith
qed (simp_all add: chLoad_def inHand_def)

lemma few_requests_no_deadlock:
  assumes "ch_run F (StartWithHandler now) s" and "chSent s < 1102"
  shows "\<not> deadlocked s"
proof -
  have "chLoad s \<le> chSent s"
    using load_run [OF assms(1)] by (simp add: StartWithHandler_def chLoad_def inHand_def NewDelayingDeliverer_def)
  with assms(2) show ?thesis using deadlocked_load by fastforce
qed

end

subsection \<open>A run into the deadlock\<close>

abbreviation noItems :: "'v delivererHeap" where
  "noItems \<equiv> \<lparr>keyPosition = [], hdata = []\<rparr>"

lemma updateHeap_noItems: "updateHeap item noItems = \<lparr>keyPosition = [(dKey item, 0)], hdata = [item]\<rparr>"
  by (simp add: updateHeap_def heapPush_def hPush_def hLen_def Let_def heapUp.simps)

lemma heapPop_single: "heapPop \<lparr>keyPosition = [(dKey item, 0)], hdata = [item]\<rparr> = (item, noItems)"
  by (simp add: heapPop_def hPop_def hSwap_def heapDown.simps [of _ 0 0] hLen_def map_del_def Let_def)

text \<open>
  \<open>calm\<close>: \<open>run\<close> is at its \<open>select\<close> statement and \<open>k\<close> items wait for the handler, which has to send
  \<open>rs\<close>; \<open>n\<close> requests have been made. \<open>blocked\<close>: the same with one more item at the send.
\<close>

definition calm :: "nat \<Rightarrow> 'v DelayingDelivererItem list \<Rightarrow> nat \<Rightarrow> 'v channels \<Rightarrow> bool" where
  "calm k rs n s \<longleftrightarrow>
     chRun s = Selecting (chNow s) \<and> dlHeap (chDeliverer s) = noItems \<and>
     length (targetChannel (chDeliverer s)) = k \<and> updateChannel (chDeliverer s) = [] \<and> chHandler s = rs \<and> chSent s = n"

definition blocked :: "nat \<Rightarrow> nat \<Rightarrow> 'v DelayingDelivererItem list \<Rightarrow> nat \<Rightarrow> 'v channels \<Rightarrow> bool" where
  "blocked k m rs n s \<longleftrightarrow>
     (\<exists>i. chRun s = Sending (chNow s) i) \<and> dlHeap (chDeliverer s) = noItems \<and>
     length (targetChannel (chDeliverer s)) = k \<and> length (updateChannel (chDeliverer s)) = m \<and>
     chHandler s = rs \<and> chSent s = n"

lemma calm_start: "\<exists>s. ch_run F (StartWithHandler now) s \<and> calm 0 [] 0 s"
proof -
  have "runGo False (StartWithHandler now) = Some ((StartWithHandler now)\<lparr>chRun := Selecting now\<rparr>)"
    by (simp add: runGo_def StartWithHandler_def NewDelayingDeliverer_def due_def hLen_def)
  then have "ch_run F (StartWithHandler now) ((StartWithHandler now)\<lparr>chRun := Selecting now\<rparr>)"
    by (metis ch_runs ch_one)
  then show ?thesis by (intro exI conjI) (auto simp: calm_def StartWithHandler_def NewDelayingDeliverer_def)
qed

text \<open>A request that is due at once is received and comes to the send.\<close>

lemma calm_request:
  fixes s :: "'v channels"
  assumes "calm k rs n s"
  shows "\<exists>s'. ch_run F s s' \<and> blocked k 0 rs (Suc n) s'"
proof -
  let ?i = "\<lparr>dKey = [], dValue = undefined :: 'v, dTime = chNow s\<rparr>"
  let ?d = "chDeliverer s"
  let ?s1 = "s\<lparr>chDeliverer := ?d\<lparr>updateChannel := [?i]\<rparr>, chSent := Suc n\<rparr>"
  let ?s2 = "?s1\<lparr>chDeliverer := ?d\<lparr>updateChannel := [], dlHeap := \<lparr>keyPosition = [([], 0)], hdata = [?i]\<rparr>\<rparr>,
    chRun := Delivering (chNow s)\<rparr>"
  let ?s3 = "?s2\<lparr>chDeliverer := ?d\<lparr>updateChannel := [], dlHeap := noItems\<rparr>, chRun := Sending (chNow s) ?i\<rparr>"
  have "requestGo [] undefined 0 s = Some ?s1"
    using assms by (simp add: requestGo_def calm_def DeliverAfter_def DeliverAt_def delayingDelivererUpdateChanCapacity_def)
  moreover have "runGo True ?s1 = Some ?s2"
    using assms updateHeap_noItems [of ?i] by (simp add: runGo_def calm_def Let_def)
  moreover have "runGo True ?s2 = Some ?s3"
    using heapPop_single [of ?i] by (simp add: runGo_def Let_def due_def hLen_def)
  ultimately have "ch_run F s ?s3" by (meson ch_request ch_runs ch_next ch_refl order_refl)
  moreover have "blocked k 0 rs (Suc n) ?s3" using assms by (simp add: blocked_def calm_def)
  ultimately show ?thesis by blast
qed

lemma blocked_send:
  assumes "blocked k 0 rs n s" and "k < targetCapacity"
  shows "\<exists>s'. ch_run F s s' \<and> calm (Suc k) rs n s'"
proof -
  let ?d = "chDeliverer s"
  obtain i where i: "chRun s = Sending (chNow s) i" using assms(1) by (auto simp: blocked_def)
  let ?s1 = "s\<lparr>chDeliverer := ?d\<lparr>targetChannel := targetChannel ?d @ [i]\<rparr>, chRun := Delivering (chNow s)\<rparr>"
  have "runGo True s = Some ?s1" using assms i by (simp add: runGo_def Let_def blocked_def)
  moreover have "runGo True ?s1 = Some (?s1\<lparr>chRun := Selecting (chNow s)\<rparr>)"
    using assms by (simp add: runGo_def Let_def blocked_def due_def hLen_def)
  ultimately have "ch_run F s (?s1\<lparr>chRun := Selecting (chNow s)\<rparr>)" by (meson ch_runs ch_next ch_refl)
  moreover have "calm (Suc k) rs n (?s1\<lparr>chRun := Selecting (chNow s)\<rparr>)" using assms by (simp add: blocked_def calm_def)
  ultimately show ?thesis by blast
qed

lemma calm_pump:
  assumes "calm k rs n s" and "k + m \<le> targetCapacity"
  shows "\<exists>s'. ch_run F s s' \<and> calm (k + m) rs (n + m) s'"
  using assms(2)
proof (induction m)
  case 0
  then show ?case using assms(1) ch_refl by fastforce
next
  case (Suc m)
  then obtain s1 where s1: "ch_run F s s1" "calm (k + m) rs (n + m) s1" by fastforce
  obtain s2 where s2: "ch_run F s1 s2" "blocked (k + m) 0 rs (Suc (n + m)) s2" using calm_request [OF s1(2)] by blast
  obtain s3 where "ch_run F s2 s3" "calm (Suc (k + m)) rs (Suc (n + m)) s3"
    using blocked_send [OF s2(2)] Suc.prems by fastforce
  then show ?case using s1(1) s2(1) by (metis ch_run_trans add_Suc_right)
qed

lemma blocked_fill:
  assumes "blocked k 0 rs n s" and "m \<le> delayingDelivererUpdateChanCapacity"
  shows "\<exists>s'. ch_run F s s' \<and> blocked k m rs (n + m) s'"
  using assms(2)
proof (induction m)
  case 0
  then show ?case using assms(1) ch_refl by fastforce
next
  case (Suc m)
  then obtain s1 where s1: "ch_run F s s1" "blocked k m rs (n + m) s1" by fastforce
  let ?s2 = "s1\<lparr>chDeliverer := DeliverAfter [] undefined 0 (chNow s1) (chDeliverer s1), chSent := Suc (chSent s1)\<rparr>"
  have "requestGo [] undefined 0 s1 = Some ?s2" using s1(2) Suc.prems by (simp add: requestGo_def blocked_def)
  then have "ch_run F s ?s2" using s1(1) by (metis ch_next ch_request order_refl)
  moreover have "blocked k (Suc m) rs (n + Suc m) ?s2"
    using s1(2) by (simp add: blocked_def DeliverAfter_def DeliverAt_def)
  ultimately show ?case by blast
qed

text \<open>A handler that may make a request for every item.\<close>

locale redelivering_handler =
  fixes F :: "('v DelayingDelivererItem \<Rightarrow> 'v DelayingDelivererItem list) set"
    and f :: "'v DelayingDelivererItem \<Rightarrow> 'v DelayingDelivererItem list"
  assumes may_redeliver: "f \<in> F" and redelivers: "f item \<noteq> []"
begin

lemma handler_takes:
  assumes "calm (Suc k) [] n s"
  shows "\<exists>s' rs. ch_run F s s' \<and> calm k rs n s' \<and> rs \<noteq> []"
proof -
  let ?d = "chDeliverer s"
  obtain i rest where t: "targetChannel ?d = i # rest" "length rest = k"
    using assms by (auto simp: calm_def length_Suc_conv)
  let ?s1 = "s\<lparr>chDeliverer := ?d\<lparr>targetChannel := rest\<rparr>, chHandler := f i, chTaken := chTaken s @ [i]\<rparr>"
  have "handlerGo f s = Some ?s1" using assms t by (simp add: handlerGo_def Let_def calm_def)
  then have "ch_run F s ?s1" by (metis ch_handles ch_one may_redeliver)
  moreover have "calm k (f i) n ?s1" using assms t by (simp add: calm_def)
  ultimately show ?thesis using redelivers by blast
qed

lemma deadlock_reached: "\<exists>s. ch_run F (StartWithHandler now) s \<and> chSent s = 1102 \<and> deadlocked s"
proof -
  obtain s0 where s0: "ch_run F (StartWithHandler now) s0" "calm 0 [] 0 s0" using calm_start by blast
  obtain s1 where s1: "ch_run F s0 s1" "calm (Suc 0) [] 1 s1"
    using calm_pump [OF s0(2), of 1] by (auto simp: targetCapacity_def)
  obtain s2 rs where s2: "ch_run F s1 s2" "calm 0 rs 1 s2" "rs \<noteq> []" using handler_takes [OF s1(2)] by blast
  obtain s3 where s3: "ch_run F s2 s3" "calm 100 rs 101 s3"
    using calm_pump [OF s2(2), of 100] by (auto simp: targetCapacity_def)
  obtain s4 where s4: "ch_run F s3 s4" "blocked 100 0 rs 102 s4" using calm_request [OF s3(2)] by auto
  obtain s5 where s5: "ch_run F s4 s5" "blocked 100 1000 rs 1102 s5"
    using blocked_fill [OF s4(2), of 1000] by (auto simp: delayingDelivererUpdateChanCapacity_def)
  have "ch_run F (StartWithHandler now) s5" by (intro ch_run_trans [OF s5(1)] ch_run_trans [OF s4(1)] ch_run_trans [OF s3(1)] ch_run_trans [OF s2(1)]
        ch_run_trans [OF s1(1)] s0(1))
  moreover have "deadlocked s5" using s5(2) s2(3)
    by (auto simp: blocked_def deadlocked_def inHand_def targetCapacity_def delayingDelivererUpdateChanCapacity_def)
  ultimately show ?thesis using s5(2) by (auto simp: blocked_def)
qed

end

text \<open>
  A handler that makes at most one request for every item, and may make one: the deliverer is stuck
  exactly in the deadlock, stays there, and 1102 requests of others are the least that lead to it.
\<close>

locale single_request_handler = frugal_handler F + redelivering_handler F f
  for F :: "('v DelayingDelivererItem \<Rightarrow> 'v DelayingDelivererItem list) set" and f
begin

lemma stuck_iff_deadlocked:
  assumes "ch_run F (StartWithHandler now) s"
  shows "(\<nexists>s'. ch_step F s s') \<longleftrightarrow> deadlocked s"
  using no_step_deadlocked [OF ch_run_inv [OF assms ch_inv_start] may_redeliver] deadlocked_no_step by blast

lemma deadlock_threshold:
  "(\<forall>s. ch_run F (StartWithHandler now) s \<longrightarrow>
      ((\<nexists>s'. ch_step F s s') \<longleftrightarrow> deadlocked s) \<and>
      (deadlocked s \<longrightarrow> 1102 \<le> chSent s \<and> (\<forall>s'. ch_run F s s' \<longrightarrow> s' = s\<lparr>chNow := chNow s'\<rparr>))) \<and>
   (\<exists>s. ch_run F (StartWithHandler now) s \<and> chSent s = 1102 \<and> deadlocked s)"
proof (intro conjI allI impI)
  fix s assume s: "ch_run F (StartWithHandler now) s"
  show "(\<nexists>s'. ch_step F s s') \<longleftrightarrow> deadlocked s" by (rule stuck_iff_deadlocked [OF s])
  assume d: "deadlocked s"
  then show "1102 \<le> chSent s" using few_requests_no_deadlock [OF s] by (meson not_less)
  fix s' assume "ch_run F s s'"
  then show "s' = s\<lparr>chNow := chNow s'\<rparr>" using deadlocked_for_ever d by blast
qed (rule deadlock_reached)

end

section \<open>Properties\<close>

lemma chAbs_target_drop:
  assumes "chRun s = Selecting t"
  shows "targetChannel (chAbs s) = chTaken s @ targetChannel (chDeliverer s)"
    and "updateChannel (chAbs s) = updateChannel (chDeliverer s)"
    and "pending (chAbs s) = set (hdata (dlHeap (chDeliverer s)))"
  using assms by (simp_all add: chAbs_def fullTarget_def inHand_def pending_def)

lemma not_due_later: "heap_inv h \<Longrightarrow> \<not> due t h \<Longrightarrow> i \<in> set (hdata h) \<Longrightarrow> t < dTime i"
proof -
  assume h: "heap_inv h" "\<not> due t h" "i \<in> set (hdata h)"
  then have "0 < hLen h" by (auto simp: hLen_def)
  then have "dTime (hdata h ! 0) \<le> dTime i" "t < dTime (hdata h ! 0)"
    using h root_least [of h "length (hdata h)"] by (auto simp: heap_inv_def in_set_conv_nth due_def)
  then show ?thesis by simp
qed

text \<open>
  C32. Bounded channels lose no request either: when \<open>run\<close> is back at its \<open>select\<close> statement with a
  time not before the time of a request made earlier, and no update waits, then the handler has received, or
  finds on the target channel, an item for the key whose time is at most that of the request, and
  which was sent after the items that were sent or due at the request.
\<close>

theorem bounded_request_delivered:
  assumes "ch_run F (StartWithHandler now) s" and "requestGo key value delay s = Some s1" and "ch_run F s1 s2"
    and "chRun s2 = Selecting t" and "updateChannel (chDeliverer s2) = []" and "chNow s + delay \<le> t"
  shows "\<exists>i \<in> set (drop (length (targetChannel (chAbs s))) (chTaken s2 @ targetChannel (chDeliverer s2))).
           dKey i = key \<and> dTime i \<le> chNow s + delay"
proof -
  let ?n = "length (targetChannel (chAbs s))" and ?t = "chNow s + delay"
  have s: "ch_inv s" "dd_inv (chAbs s)"
    using ch_run_inv [OF assms(1)] dd_run_inv [OF ch_run_refines [OF assms(1)]] by simp_all
  have abs1: "chAbs s1 = DeliverAt key value ?t (chAbs s)" using requestGo_abs [OF assms(2)] .
  have inv1: "ch_inv s1" using assms(2) s(1)
    by (auto simp: requestGo_def ch_inv_def DeliverAfter_def DeliverAt_def split: if_splits)
  have dd: "dd_inv (chAbs s1)" using s(2) by (simp add: abs1 DeliverAt_def)
  have run: "dd_run (chAbs s1) (chAbs s2)" using ch_run_refines [OF assms(3) inv1] .
  have "answered_or_owed key ?t ?n (chAbs s1)" by (simp add: abs1 answered_or_owed_def DeliverAt_def answers_def)
  then have "answered_or_owed key ?t ?n (chAbs s2)" using dd_run_keeps_answer [OF run dd] by simp
  moreover have "\<not> answers key ?t i" if "i \<in> pending (chAbs s2)" for i
  proof -
    have "\<not> due t (dlHeap (chDeliverer s2))" using ch_run_inv [OF assms(3) inv1] assms(4) by (simp add: ch_inv_def)
    moreover have "heap_inv (dlHeap (chDeliverer s2))"
      using dd_run_inv [OF run dd] assms(4) by (simp add: chAbs_def fullTarget_def)
    ultimately show ?thesis using that assms(6) not_due_later by (fastforce simp: chAbs_target_drop [OF assms(4)] answers_def)
  qed
  ultimately show ?thesis using assms(5) unfolding answered_or_owed_def
    by (auto simp: chAbs_target_drop [OF assms(4)] answers_def)
qed

text \<open>One request, received, delivered, and on the target channel.\<close>

definition exIdle :: "nat channels" where
  "exIdle = (StartWithHandler 0)\<lparr>chRun := Selecting 0\<rparr>"

definition exState :: "nat runState \<Rightarrow> nat delivererHeap \<Rightarrow> nat DelayingDelivererItem list \<Rightarrow> nat DelayingDelivererItem list \<Rightarrow> nat channels" where
  "exState run heap update target =
     \<lparr>chDeliverer = \<lparr>targetChannel = target, dlHeap = heap, updateChannel = update\<rparr>, chRun = run, chHandler = [],
      chNow = 0, chTaken = [], chSent = 1\<rparr>"

lemma exState_run:
  fixes F :: "(nat DelayingDelivererItem \<Rightarrow> nat DelayingDelivererItem list) set"
  defines "i \<equiv> \<lparr>dKey = ''k'', dValue = 7, dTime = 0\<rparr>"
  shows "ch_run F (StartWithHandler 0) exIdle"
    and "requestGo ''k'' 7 0 exIdle = Some (exState (Selecting 0) noItems [i] [])"
    and "ch_run F (exState (Selecting 0) noItems [i] []) (exState (Selecting 0) noItems [] [i])"
proof -
  have "runGo True (StartWithHandler 0) = Some exIdle"
    by (simp add: runGo_def StartWithHandler_def NewDelayingDeliverer_def due_def hLen_def exIdle_def)
  then show "ch_run F (StartWithHandler 0) exIdle" by (metis ch_runs ch_one)
  show "requestGo ''k'' 7 0 exIdle = Some (exState (Selecting 0) noItems [i] [])"
    by (simp add: requestGo_def exIdle_def exState_def StartWithHandler_def NewDelayingDeliverer_def DeliverAfter_def
        DeliverAt_def delayingDelivererUpdateChanCapacity_def i_def)
  let ?h = "\<lparr>keyPosition = [(dKey i, 0)], hdata = [i]\<rparr>"
  have "runGo True (exState (Selecting 0) noItems [i] []) = Some (exState (Delivering 0) ?h [] [])"
    by (simp add: runGo_def exState_def updateHeap_noItems)
  moreover have "runGo True (exState (Delivering 0) ?h [] []) = Some (exState (Sending 0 i) noItems [] [])"
    using heapPop_single [of i] by (simp add: runGo_def exState_def due_def hLen_def i_def)
  moreover have "runGo True (exState (Sending 0 i) noItems [] []) = Some (exState (Delivering 0) noItems [] [i])"
    by (simp add: runGo_def exState_def targetCapacity_def)
  moreover have "runGo True (exState (Delivering 0) noItems [] [i]) = Some (exState (Selecting 0) noItems [] [i])"
    by (simp add: runGo_def exState_def due_def hLen_def)
  ultimately show "ch_run F (exState (Selecting 0) noItems [i] []) (exState (Selecting 0) noItems [] [i])"
    by (meson ch_runs ch_next ch_refl)
qed

lemma bounded_request_delivered_witness:
  "\<exists>i \<in> set (targetChannel (chDeliverer (exState (Selecting 0) noItems [] [\<lparr>dKey = ''k'', dValue = 7, dTime = 0\<rparr>]))).
     dKey i = ''k'' \<and> dTime i \<le> 0"
  using bounded_request_delivered [OF exState_run(1) [of "{}"] exState_run(2,3), of 0]
  by (simp add: exState_def exIdle_def StartWithHandler_def NewDelayingDeliverer_def chAbs_def fullTarget_def inHand_def)

end
