(* ===== verification/Ingress_Channels.thy ===== *)
theory Ingress_Channels
  imports Deliverer_Channels Ingress_System Ingress_Examples
begin

text \<open>
  The handlers of the ingress controller (\<open>ingress_controller.go\<close>, \<open>Run\<close>) send requests to the deliverer that
  calls them. For the ingress and the cluster deliverer this theory shows how many requests a handler
  makes, and how many requests of the informers it takes until a deliverer can deadlock.
\<close>

section \<open>The requests of the handlers\<close>

text \<open>What a handler adds to the update channel of its own deliverer, in a state of the controller.\<close>

definition ingressRequests ::
  "('c, 'w) icEnv \<Rightarrow> 'c IngressController \<times> 'w \<Rightarrow> NamespacedName DelayingDelivererItem
   \<Rightarrow> NamespacedName DelayingDelivererItem list" where
  "ingressRequests env s item =
     drop (length (updateChannel (ingressDeliverer (fst s))))
       (updateChannel (ingressDeliverer (fst (ingressHandler env item s))))"

definition clusterRequests ::
  "('c, 'w) icEnv \<Rightarrow> 'c IngressController \<times> 'w \<Rightarrow> Cluster option DelayingDelivererItem
   \<Rightarrow> Cluster option DelayingDelivererItem list" where
  "clusterRequests env s item =
     drop (length (updateChannel (clusterDeliverer (fst s))))
       (updateChannel (clusterDeliverer (fst (snd (clusterHandler env item s)))))"

text \<open>The handlers in all the states \<open>S\<close> that the controller and its environment may be in.\<close>

definition ingressBehaviours ::
  "(('c, 'w) icEnv \<times> 'c IngressController \<times> 'w) set
   \<Rightarrow> (NamespacedName DelayingDelivererItem \<Rightarrow> NamespacedName DelayingDelivererItem list) set" where
  "ingressBehaviours S = (\<lambda>(env, s). ingressRequests env s) ` S"

definition clusterBehaviours ::
  "(('c, 'w) icEnv \<times> 'c IngressController \<times> 'w) set
   \<Rightarrow> (Cluster option DelayingDelivererItem \<Rightarrow> Cluster option DelayingDelivererItem list) set" where
  "clusterBehaviours S = (\<lambda>(env, s). clusterRequests env s) ` S"

lemma updateChannel_deliverIngress:
  "length (updateChannel (ingressDeliverer (deliverIngress env n d b ic))) = Suc (length (updateChannel (ingressDeliverer ic)))"
  by (simp add: deliverIngress_def DeliverAfter_def DeliverAt_def Let_def)

lemma ingressRequests_length: "length (ingressRequests env (ic, w) item) \<le> 1"
  using delivers_reconcileIngress [of env ic "dValue item" w]
  by (auto simp: ingressRequests_def ingressHandler_def delivers_def updateChannel_deliverIngress)

lemma isSynced_new: "\<not> isSynced (NewIngressController i m c)"
  by (simp add: isSynced_def NewIngressController_def)

lemma ingressRequests_new: "ingressRequests env (NewIngressController i m c, w) item \<noteq> []"
  by (simp add: ingressRequests_def ingressHandler_def reconcileIngress_def isSynced_new updateChannel_deliverIngress)

lemma clusterDeliverer_unchanged [simp]:
  "clusterDeliverer (deliverIngress env n d b ic) = clusterDeliverer ic"
  "clusterDeliverer (retryConfigMap env k d ic) = clusterDeliverer ic"
  by (simp_all add: deliverIngress_def retryConfigMap_def Let_def)

lemma clusterDeliverer_foldl:
  "(\<And>ic x. clusterDeliverer (f ic x) = clusterDeliverer ic) \<Longrightarrow> clusterDeliverer (foldl f ic xs) = clusterDeliverer ic"
  by (induction xs arbitrary: ic) auto

lemma clusterDeliverer_updateConfigMap:
  "clusterDeliverer (fst (snd (updateConfigMap env cl cm uid (ic, w)))) = clusterDeliverer ic"
  by (simp add: updateConfigMap_def Let_def split: option.split prod.split)

lemma clusterDeliverer_reconcileConfigMap:
  "clusterDeliverer (fst (snd (reconcileConfigMap env cl cm (ic, w)))) = clusterDeliverer ic"
  by (auto simp: reconcileConfigMap_def Let_def clusterDeliverer_updateConfigMap split: sum.split prod.split)

lemma clusterDeliverer_reconcileConfigMapForCluster:
  "clusterDeliverer (fst (snd (reconcileConfigMapForCluster env name (ic, w)))) = clusterDeliverer ic"
  by (simp add: reconcileConfigMapForCluster_def clusterDeliverer_reconcileConfigMap clusterDeliverer_foldl
      split: sum.split option.split)

lemma clusterRequests_length: "length (clusterRequests env (ic, w) item) \<le> 1"
  by (simp add: clusterRequests_def clusterHandler_def clusterDeliverer_reconcileConfigMapForCluster
      reconcileIngressesOnClusterChange_def clusterDeliverer_foldl Let_def deliverCluster_def DeliverAfter_def DeliverAt_def)

lemma clusterRequests_new: "clusterRequests env (NewIngressController i m c, w) item \<noteq> []"
  by (simp add: clusterRequests_def clusterHandler_def clusterDeliverer_reconcileConfigMapForCluster isSynced_new
      reconcileIngressesOnClusterChange_def clusterDeliverer_foldl Let_def deliverCluster_def DeliverAfter_def DeliverAt_def)

interpretation ingress_channels: single_request_handler
  "ingressBehaviours (insert (env, NewIngressController i m c, w) S)" "ingressRequests env (NewIngressController i m c, w)"
  for env i m c w S
  by unfold_locales
    (auto simp: ingressBehaviours_def ingressRequests_new intro: order_trans [OF ingressRequests_length])

interpretation cluster_channels: single_request_handler
  "clusterBehaviours (insert (env, NewIngressController i m c, w) S)" "clusterRequests env (NewIngressController i m c, w)"
  for env i m c w S
  by unfold_locales
    (auto simp: clusterBehaviours_def clusterRequests_new intro: order_trans [OF clusterRequests_length])

section \<open>Properties\<close>

text \<open>
  C33. The ingress deliverer can deadlock with its own handler. Whatever states \<open>S\<close> the controller goes through
  from the one it starts in: no goroutine of the deliverer can go on exactly when \<open>run\<close> waits to send to a
  full target channel and the handler waits to send to the full update channel; then nothing but time
  changes any more; this takes at least 1102 requests of the informers; and some run with exactly 1102
  requests ends so.
\<close>

theorem ingress_deliverer_deadlock:
  assumes "(env, NewIngressController i m c, w) \<in> S"
  shows "(\<forall>s. ch_run (ingressBehaviours S) (StartWithHandler now) s \<longrightarrow>
        ((\<nexists>s'. ch_step (ingressBehaviours S) s s') \<longleftrightarrow> deadlocked s) \<and>
        (deadlocked s \<longrightarrow> 1102 \<le> chSent s \<and>
           (\<forall>s'. ch_run (ingressBehaviours S) s s' \<longrightarrow> s' = s\<lparr>chNow := chNow s'\<rparr>))) \<and>
     (\<exists>s. ch_run (ingressBehaviours S) (StartWithHandler now) s \<and> chSent s = 1102 \<and> deadlocked s)"
  using ingress_channels.deadlock_threshold [of env i m c w S now] unfolding insert_absorb [OF assms] .

text \<open>The controller that has just started, in the federation of the examples.\<close>

definition exStarted :: "(string, fed_world) icEnv \<times> string IngressController \<times> fed_world" where
  "exStarted = (exEnv [], NewIngressController (\<lambda>c client. \<lparr>infStore = [], infHasSynced = False\<rparr>)
     (\<lambda>c client. \<lparr>infStore = [], infHasSynced = False\<rparr>) (\<lambda>c. Inr (clName c)), exW)"

lemma ingress_deliverer_deadlock_witness:
  "\<exists>s. ch_run (ingressBehaviours {exStarted}) (StartWithHandler 0) s \<and> chSent s = 1102 \<and> deadlocked s \<and>
     (\<nexists>s'. ch_step (ingressBehaviours {exStarted}) s s')"
  using ingress_deliverer_deadlock [OF singletonI, of "fst exStarted" _ _ _ "snd (snd exStarted)" 0]
  unfolding exStarted_def fst_conv snd_conv by blast

text \<open>The same holds for the cluster deliverer.\<close>

theorem cluster_deliverer_deadlock:
  assumes "(env, NewIngressController i m c, w) \<in> S"
  shows "(\<forall>s. ch_run (clusterBehaviours S) (StartWithHandler now) s \<longrightarrow> deadlocked s \<longrightarrow> 1102 \<le> chSent s) \<and>
     (\<exists>s. ch_run (clusterBehaviours S) (StartWithHandler now) s \<and> chSent s = 1102 \<and> deadlocked s)"
  using cluster_channels.deadlock_threshold [of env i m c w S now] unfolding insert_absorb [OF assms] by blast

end
