(* ===== verification/Delta_FIFO.thy ===== *)
theory Delta_FIFO
  imports Event_Handlers
begin

text \<open>
  The queue between the watch of an API server and the handlers of an informer
  (\<open>client-go/tools/cache/delta_fifo.go\<close>): per object the changes that were not processed yet, and
  the order in which the objects are processed. Every method holds the lock of the queue for all
  of its body, and the function that processes an item runs under this lock too. The store of the
  objects that were processed (\<open>knownObjects\<close>) belongs to the informer, so its current contents are
  an argument. \<open>KeyListerGetter\<close> may be nil (\<open>None\<close>).
\<close>

section \<open>Deltas\<close>

text \<open>
  A \<open>Delta\<close> is a type and an object; a constructor stands for the type. Only the object of a deletion
  can be a \<open>DeletedFinalStateUnknown\<close>.
\<close>

datatype 'o Delta = Added 'o | Updated 'o | SyncDelta 'o | DeletedDelta "'o deleted"

type_synonym 'o Deltas = "'o Delta list"

definition Newest :: "'o Deltas \<Rightarrow> 'o Delta option" where
  "Newest d = (if length d > 0 then Some (d ! (length d - 1)) else None)"

text \<open>Keep the one with the most information if both are deletions.\<close>

definition isDeletionDup :: "'o Delta \<Rightarrow> 'o Delta \<Rightarrow> 'o Delta option" where
  "isDeletionDup a b =
     (case (b, a) of
        (DeletedDelta old, DeletedDelta new) \<Rightarrow>
          (case old of DeletedFinalStateUnknown k obj \<Rightarrow> Some a | Deleted obj \<Rightarrow> Some b)
      | _ \<Rightarrow> None)"

definition isDup :: "'o Delta \<Rightarrow> 'o Delta \<Rightarrow> 'o Delta option" where
  "isDup a b = (case isDeletionDup a b of Some out \<Rightarrow> Some out | None \<Rightarrow> None)"

definition dedupDeltas :: "'o Deltas \<Rightarrow> 'o Deltas" where
  "dedupDeltas deltas =
     (let n = length deltas in
      if n < 2 then deltas
      else case isDup (deltas ! (n - 1)) (deltas ! (n - 2)) of
        Some out \<Rightarrow> take (n - 2) deltas @ [out]
      | None \<Rightarrow> deltas)"

section \<open>The queue\<close>

record 'o DeltaFIFO =
  fifoItems :: "(string \<times> 'o Deltas) list"
  fifoQueue :: "string list"
  populated :: bool
  initialPopulationCount :: nat
  fifoKeyFunc :: "'o \<Rightarrow> string res"
  deltaCompressor :: "('o Deltas \<Rightarrow> 'o Deltas) option"
  fifoClosed :: bool

definition NewDeltaFIFO ::
  "('o \<Rightarrow> string res) \<Rightarrow> ('o Deltas \<Rightarrow> 'o Deltas) option \<Rightarrow> 'o DeltaFIFO" where
  "NewDeltaFIFO keyFunc compressor =
     \<lparr>fifoItems = [], fifoQueue = [], populated = False, initialPopulationCount = 0,
      fifoKeyFunc = keyFunc, deltaCompressor = compressor, fifoClosed = False\<rparr>"

definition fifoClose :: "'o DeltaFIFO \<Rightarrow> 'o DeltaFIFO" where
  "fifoClose f = f\<lparr>fifoClosed := True\<rparr>"

fun KeyOf :: "'o DeltaFIFO \<Rightarrow> 'o Delta \<Rightarrow> string res" where
  "KeyOf f (Added obj) = fifoKeyFunc f obj"
| "KeyOf f (Updated obj) = fifoKeyFunc f obj"
| "KeyOf f (SyncDelta obj) = fifoKeyFunc f obj"
| "KeyOf f (DeletedDelta (Deleted obj)) = fifoKeyFunc f obj"
| "KeyOf f (DeletedDelta (DeletedFinalStateUnknown k obj)) = Inr k"

abbreviation KeyError :: "error \<Rightarrow> error" where
  "KeyError err \<equiv> wrap ''couldn't create key for object: '' err"

definition HasSynced :: "'o DeltaFIFO \<Rightarrow> bool" where
  "HasSynced f \<longleftrightarrow> populated f \<and> initialPopulationCount f = 0"

text \<open>The value of \<open>f.items[id]\<close>, which is nil for a key without an entry.\<close>

definition itemsAt :: "'o DeltaFIFO \<Rightarrow> string \<Rightarrow> 'o Deltas" where
  "itemsAt f ident = (case map_of (fifoItems f) ident of Some deltas \<Rightarrow> deltas | None \<Rightarrow> [])"

fun isDeleted :: "'o Delta \<Rightarrow> bool" where
  "isDeleted (DeletedDelta obj) = True"
| "isDeleted d = False"

fun isSync :: "'o Delta \<Rightarrow> bool" where
  "isSync (SyncDelta obj) = True"
| "isSync d = False"

definition willObjectBeDeletedLocked :: "'o DeltaFIFO \<Rightarrow> string \<Rightarrow> bool" where
  "willObjectBeDeletedLocked f ident =
     (let deltas = itemsAt f ident in length deltas > 0 \<and> isDeleted (deltas ! (length deltas - 1)))"

definition queueActionLocked :: "'o Delta \<Rightarrow> 'o DeltaFIFO \<Rightarrow> error option \<times> 'o DeltaFIFO" where
  "queueActionLocked d f =
     (case KeyOf f d of
        Inl err \<Rightarrow> (Some (KeyError err), f)
      | Inr ident \<Rightarrow>
          if isSync d \<and> willObjectBeDeletedLocked f ident then (None, f)
          else
            let newDeltas = dedupDeltas (itemsAt f ident @ [d]);
                newDeltas = (case deltaCompressor f of None \<Rightarrow> newDeltas | Some compress \<Rightarrow> compress newDeltas);
                exists = \<not> Option.is_none (map_of (fifoItems f) ident)
            in if length newDeltas > 0
               then (None, f\<lparr>fifoQueue := (if exists then fifoQueue f else fifoQueue f @ [ident]),
                 fifoItems := map_put ident newDeltas (fifoItems f)\<rparr>)
               else if exists then (None, f\<lparr>fifoItems := map_del ident (fifoItems f)\<rparr>)
               else (None, f))"

definition fifoAdd :: "'o \<Rightarrow> 'o DeltaFIFO \<Rightarrow> error option \<times> 'o DeltaFIFO" where
  "fifoAdd obj f = queueActionLocked (Added obj) (f\<lparr>populated := True\<rparr>)"

definition fifoUpdate :: "'o \<Rightarrow> 'o DeltaFIFO \<Rightarrow> error option \<times> 'o DeltaFIFO" where
  "fifoUpdate obj f = queueActionLocked (Updated obj) (f\<lparr>populated := True\<rparr>)"

definition fifoDelete ::
  "(string \<times> 'o) list option \<Rightarrow> 'o \<Rightarrow> 'o DeltaFIFO \<Rightarrow> error option \<times> 'o DeltaFIFO" where
  "fifoDelete knownObjects obj f =
     (let d = DeletedDelta (Deleted obj) in
      case KeyOf f d of
        Inl err \<Rightarrow> (Some (KeyError err), f)
      | Inr ident \<Rightarrow>
          let f = f\<lparr>populated := True\<rparr>;
              itemsExist = \<not> Option.is_none (map_of (fifoItems f) ident);
              exists = (case knownObjects of None \<Rightarrow> False | Some known \<Rightarrow> \<not> Option.is_none (map_of known ident))
          in if \<not> exists \<and> \<not> itemsExist then (None, f) else queueActionLocked d f)"

definition addIfNotPresent :: "string \<Rightarrow> 'o Deltas \<Rightarrow> 'o DeltaFIFO \<Rightarrow> 'o DeltaFIFO" where
  "addIfNotPresent ident deltas f =
     (let f = f\<lparr>populated := True\<rparr> in
      if \<not> Option.is_none (map_of (fifoItems f) ident) then f
      else f\<lparr>fifoQueue := fifoQueue f @ [ident], fifoItems := map_put ident deltas (fifoItems f)\<rparr>)"

text \<open>The newest delta of no deltas is nil and its object is read.\<close>

definition AddIfNotPresent :: "'o Deltas \<Rightarrow> 'o DeltaFIFO \<Rightarrow> error option \<times> 'o DeltaFIFO" where
  "AddIfNotPresent deltas f =
     (case Newest deltas of
        None \<Rightarrow> (Some (Panic NilDereference), f)
      | Some d \<Rightarrow>
          (case KeyOf f d of
             Inl err \<Rightarrow> (Some (KeyError err), f)
           | Inr ident \<Rightarrow> (None, addIfNotPresent ident deltas f)))"

text \<open>The first loop of \<open>Replace\<close>, with the keys it collects.\<close>

definition replaceItem ::
  "'o \<Rightarrow> string list \<times> 'o DeltaFIFO \<Rightarrow> error option \<times> string list \<times> 'o DeltaFIFO" where
  "replaceItem item = (\<lambda>(keys, f).
     case KeyOf f (SyncDelta item) of
       Inl err \<Rightarrow> (Some (KeyError err), keys, f)
     | Inr key \<Rightarrow>
         (case queueActionLocked (SyncDelta item) f of
            (Some err, f') \<Rightarrow> (Some (wrap ''couldn't enqueue object: '' err), key # keys, f')
          | (None, f') \<Rightarrow> (None, key # keys, f')))"

text \<open>The deletion that is queued for an object that is not in the list any more.\<close>

definition replaceMissing ::
  "string list \<Rightarrow> (string \<Rightarrow> 'o option) \<Rightarrow> string \<Rightarrow> nat \<times> 'o DeltaFIFO \<Rightarrow> error option \<times> nat \<times> 'o DeltaFIFO" where
  "replaceMissing keys lookup k = (\<lambda>(n, f).
     if k \<in> set keys then (None, n, f)
     else case queueActionLocked (DeletedDelta (DeletedFinalStateUnknown k (lookup k))) f of
       (e, f') \<Rightarrow> (e, n + 1, f'))"

fun deltaObject :: "'o Delta \<Rightarrow> 'o option" where
  "deltaObject (Added obj) = Some obj"
| "deltaObject (Updated obj) = Some obj"
| "deltaObject (SyncDelta obj) = Some obj"
| "deltaObject (DeletedDelta (Deleted obj)) = Some obj"
| "deltaObject (DeletedDelta (DeletedFinalStateUnknown k obj)) = obj"

definition fifoReplace ::
  "(string \<times> 'o) list option \<Rightarrow> 'o list \<Rightarrow> 'o DeltaFIFO \<Rightarrow> error option \<times> 'o DeltaFIFO" where
  "fifoReplace knownObjects list f =
     (case for_each_state replaceItem list ([], f) of
        (Some err, keys, f') \<Rightarrow> (Some err, f')
      | (None, keys, f1) \<Rightarrow>
          (case knownObjects of
             None \<Rightarrow>
               (case for_each_state (replaceMissing keys (\<lambda>k. Option.bind (Newest (itemsAt f1 k)) deltaObject))
                       (map fst (fifoItems f1)) (0, f1) of
                  (Some err, queued, f2) \<Rightarrow> (Some err, f2)
                | (None, queued, f2) \<Rightarrow>
                    (None, if populated f2 then f2
                           else f2\<lparr>populated := True, initialPopulationCount := length list\<rparr>))
           | Some known \<Rightarrow>
               (case for_each_state (replaceMissing keys (map_of known)) (map fst known) (0, f1) of
                  (Some err, queuedDeletions, f2) \<Rightarrow> (Some err, f2)
                | (None, queuedDeletions, f2) \<Rightarrow>
                    (None, if populated f2 then f2
                           else f2\<lparr>populated := True, initialPopulationCount := length list + queuedDeletions\<rparr>))))"

definition syncKeyLocked ::
  "(string \<times> 'o) list \<Rightarrow> string \<Rightarrow> 'o DeltaFIFO \<Rightarrow> error option \<times> 'o DeltaFIFO" where
  "syncKeyLocked known key f =
     (case map_of known key of
        None \<Rightarrow> (None, f)
      | Some obj \<Rightarrow>
          (case KeyOf f (SyncDelta obj) of
             Inl err \<Rightarrow> (Some (KeyError err), f)
           | Inr ident \<Rightarrow>
               if length (itemsAt f ident) > 0 then (None, f)
               else case queueActionLocked (SyncDelta obj) f of
                 (Some err, f') \<Rightarrow> (Some (wrap ''couldn't queue object: '' err), f')
               | (None, f') \<Rightarrow> (None, f')))"

definition fifoResync ::
  "(string \<times> 'o) list option \<Rightarrow> 'o DeltaFIFO \<Rightarrow> error option \<times> 'o DeltaFIFO" where
  "fifoResync knownObjects f =
     (case knownObjects of
        None \<Rightarrow> (Some (Panic NilDereference), f)
      | Some known \<Rightarrow> for_each_state (syncKeyLocked known) (map fst known) f)"

text \<open>
  The function that processes the deltas acts on a state of its own and ends with \<open>nil\<close>, an error, an
  \<open>ErrRequeue\<close> or a panic. \<open>Pop\<close> is \<open>None\<close> while the caller has to wait.
\<close>

datatype processed = Processed | ProcessFailed error | ErrRequeue error | Panicked panic

datatype 'o popped = FIFOClosedError | Popped "'o Deltas" "error option" | PopPanic panic

function Pop ::
  "('o Deltas \<Rightarrow> 's \<Rightarrow> processed \<times> 's) \<Rightarrow> 'o DeltaFIFO \<Rightarrow> 's \<Rightarrow> ('o popped \<times> 'o DeltaFIFO \<times> 's) option" where
  "Pop process f s =
     (case fifoQueue f of
        [] \<Rightarrow> if fifoClosed f then Some (FIFOClosedError, f, s) else None
      | ident # rest \<Rightarrow>
          let item = map_of (fifoItems f) ident;
              f = f\<lparr>fifoQueue := rest,
                initialPopulationCount :=
                  (if initialPopulationCount f > 0 then initialPopulationCount f - 1 else initialPopulationCount f)\<rparr>
          in case item of
            None \<Rightarrow> Pop process f s
          | Some deltas \<Rightarrow>
              let f = f\<lparr>fifoItems := map_del ident (fifoItems f)\<rparr> in
              (case process deltas s of
                 (Processed, s') \<Rightarrow> Some (Popped deltas None, f, s')
               | (ProcessFailed err, s') \<Rightarrow> Some (Popped deltas (Some err), f, s')
               | (ErrRequeue err, s') \<Rightarrow> Some (Popped deltas (Some err), addIfNotPresent ident deltas f, s')
               | (Panicked p, s') \<Rightarrow> Some (PopPanic p, f, s')))"
  by pat_completeness auto
termination
  by (relation "measure (\<lambda>(process, f, s). length (fifoQueue f))") auto

declare Pop.simps [simp del]

section \<open>What is queued for a key\<close>

text \<open>
  The fate of a key: nothing is queued, or its object will be gone, or it will be the given object
  once the deltas are processed.
\<close>

fun afterDelta :: "'o Delta \<Rightarrow> 'o option" where
  "afterDelta (Added obj) = Some obj"
| "afterDelta (Updated obj) = Some obj"
| "afterDelta (SyncDelta obj) = Some obj"
| "afterDelta (DeletedDelta obj) = None"

definition fate :: "'o DeltaFIFO \<Rightarrow> string \<Rightarrow> 'o option option" where
  "fate f k = map_option afterDelta (Newest (itemsAt f k))"

definition willHold :: "'o DeltaFIFO \<Rightarrow> (string \<times> 'o) list \<Rightarrow> string \<Rightarrow> 'o option" where
  "willHold f known k = (case fate f k of None \<Rightarrow> map_of known k | Some v \<Rightarrow> v)"

fun deltaKeyOf :: "('o \<Rightarrow> string) \<Rightarrow> 'o Delta \<Rightarrow> string" where
  "deltaKeyOf key (Added obj) = key obj"
| "deltaKeyOf key (Updated obj) = key obj"
| "deltaKeyOf key (SyncDelta obj) = key obj"
| "deltaKeyOf key (DeletedDelta (Deleted obj)) = key obj"
| "deltaKeyOf key (DeletedDelta (DeletedFinalStateUnknown k obj)) = k"

text \<open>
  The comment in the code: items in the set are in the queue and vice versa, and all deltas in the map
  have at least one delta. Moreover no key is queued twice and deltas are filed under their key. The
  informers of the controllers use a key function without errors and no compressor.
\<close>

definition fifo_inv :: "('o \<Rightarrow> string) \<Rightarrow> 'o DeltaFIFO \<Rightarrow> bool" where
  "fifo_inv key f \<longleftrightarrow> fifoKeyFunc f = (\<lambda>obj. Inr (key obj)) \<and> deltaCompressor f = None \<and>
     distinct (fifoQueue f) \<and> set (fifoQueue f) = fst ` set (fifoItems f) \<and> keys_distinct (fifoItems f) \<and>
     (\<forall>(k, ds) \<in> set (fifoItems f). ds \<noteq> [] \<and> (\<forall>d \<in> set ds. deltaKeyOf key d = k))"

lemma Newest_simps [simp]: "Newest [] = None" "Newest (ds @ [d]) = Some d" "Newest ds = None \<longleftrightarrow> ds = []"
  by (simp_all add: Newest_def)

lemma Newest_last: "Newest ds = (if ds = [] then None else Some (last ds))"
  by (simp add: Newest_def last_conv_nth)

lemma afterDelta_None [simp]: "afterDelta d = None \<longleftrightarrow> isDeleted d"
  by (cases d) auto

lemma dedup_append:
  "dedupDeltas (ds @ [d]) =
     (if isDeleted d \<and> ds \<noteq> [] \<and> isDeleted (last ds)
      then (case last ds of DeletedDelta (DeletedFinalStateUnknown k v) \<Rightarrow> butlast ds @ [d] | _ \<Rightarrow> ds) else ds @ [d])"
proof (cases ds rule: rev_cases)
  case (snoc ds' d')
  then show ?thesis
    by (cases d'; cases d)
      (auto simp: dedupDeltas_def Let_def isDup_def isDeletionDup_def nth_append split: deleted.splits)
qed (simp add: dedupDeltas_def)

lemma dedup_newest: "\<exists>d'. Newest (dedupDeltas (ds @ [d])) = Some d' \<and> afterDelta d' = afterDelta d"
  by (auto simp: dedup_append Newest_last split: Delta.split deleted.split)
    (metis afterDelta_None)+

lemma dedup_nonempty [simp]: "dedupDeltas (ds @ [d]) \<noteq> []"
  using dedup_newest [of ds d] by fastforce

lemma dedup_subset: "set (dedupDeltas (ds @ [d])) \<subseteq> set ds \<union> {d}"
  by (auto simp: dedup_append split: Delta.splits deleted.splits if_splits dest: in_set_butlastD)

lemma willObjectBeDeleted_fate: "willObjectBeDeletedLocked f k \<longleftrightarrow> fate f k = Some None"
  by (auto simp: willObjectBeDeletedLocked_def fate_def Newest_def Let_def)

lemma KeyOf_total: "fifo_inv key f \<Longrightarrow> KeyOf f d = Inr (deltaKeyOf key d)"
  by (cases "(f, d)" rule: KeyOf.cases) (auto simp: fifo_inv_def)

lemma fate_None: "fifo_inv key f \<Longrightarrow> fate f k = None \<longleftrightarrow> k \<notin> set (fifoQueue f)"
  by (auto simp: fate_def itemsAt_def fifo_inv_def map_of_eq_None_iff split: option.split dest!: map_of_SomeD)
    (metis fst_conv imageI)

lemma itemsAt_keys: "fifo_inv key f \<Longrightarrow> d \<in> set (itemsAt f k) \<Longrightarrow> deltaKeyOf key d = k"
  by (fastforce simp: fifo_inv_def itemsAt_def split: option.splits dest: map_of_SomeD)

lemma fate_put:
  "Newest ds = Some d \<Longrightarrow> fifoItems f' = map_put k ds (fifoItems f) \<Longrightarrow> fate f' = (fate f)(k := Some (afterDelta d))"
  by (auto simp: fate_def itemsAt_def fun_eq_iff)

section \<open>The effect of the operations\<close>

lemma fifo_inv_put:
  assumes "fifo_inv key f" and "ds \<noteq> []" and "\<forall>d \<in> set ds. deltaKeyOf key d = k"
  shows "fifo_inv key (f\<lparr>fifoQueue := (if k \<in> set (fifoQueue f) then fifoQueue f else fifoQueue f @ [k]),
    fifoItems := map_put k ds (fifoItems f)\<rparr>)"
  using assms by (auto simp: fifo_inv_def dest!: set_map_putD)

lemma exists_queue: "fifo_inv key f \<Longrightarrow> Option.is_none (map_of (fifoItems f) k) \<longleftrightarrow> k \<notin> set (fifoQueue f)"
  by (simp add: fifo_inv_def Option.is_none_def map_of_eq_None_iff)

lemma fifo_inv_populated [simp]: "fifo_inv key (f\<lparr>populated := b\<rparr>) \<longleftrightarrow> fifo_inv key f"
  by (simp add: fifo_inv_def)

lemma fifo_inv_count [simp]: "fifo_inv key (f\<lparr>initialPopulationCount := n\<rparr>) \<longleftrightarrow> fifo_inv key f"
  by (simp add: fifo_inv_def)

lemma fate_populated [simp]: "fate (f\<lparr>populated := b\<rparr>) = fate f" "fate (f\<lparr>initialPopulationCount := n\<rparr>) = fate f"
  by (simp_all add: fun_eq_iff fate_def itemsAt_def)

text \<open>One action: a sync of an object that will be deleted is dropped, everything else decides the fate of its key.\<close>

lemma queueAction:
  assumes inv: "fifo_inv key f" and k_def: "k = deltaKeyOf key d"
  shows "\<exists>f'. queueActionLocked d f = (None, f') \<and> fifo_inv key f' \<and>
    fate f' = (if isSync d \<and> fate f k = Some None then fate f else (fate f)(k := Some (afterDelta d))) \<and>
    populated f' = populated f \<and> initialPopulationCount f' = initialPopulationCount f \<and> fifoClosed f' = fifoClosed f \<and>
    fifoQueue f' = (if k \<in> set (fifoQueue f) then fifoQueue f else fifoQueue f @ [k])"
proof (cases "isSync d \<and> fate f k = Some None")
  case True
  moreover from this have "k \<in> set (fifoQueue f)" using fate_None [OF inv, of k] by auto
  ultimately show ?thesis
    using inv by (simp add: queueActionLocked_def KeyOf_total k_def willObjectBeDeleted_fate)
next
  case False
  let ?ds = "dedupDeltas (itemsAt f k @ [d])"
  let ?f = "f\<lparr>fifoQueue := (if k \<in> set (fifoQueue f) then fifoQueue f else fifoQueue f @ [k]),
    fifoItems := map_put k ?ds (fifoItems f)\<rparr>"
  have "\<forall>d' \<in> set ?ds. deltaKeyOf key d' = k"
    using dedup_subset [of "itemsAt f k" d] itemsAt_keys [OF inv] k_def by blast
  with fifo_inv_put [OF inv] have "fifo_inv key ?f" by simp
  moreover have "queueActionLocked d f = (None, ?f)"
    using inv False by (auto simp: queueActionLocked_def KeyOf_total [OF inv] exists_queue [OF inv] k_def
        willObjectBeDeleted_fate Let_def fifo_inv_def)
  moreover obtain d' where "Newest ?ds = Some d'" "afterDelta d' = afterDelta d" using dedup_newest by blast
  moreover from this have "fate ?f = (fate f)(k := Some (afterDelta d))" using fate_put [of ?ds d' ?f k f] by simp
  ultimately show ?thesis using False by (intro exI [of _ ?f]) auto
qed

text \<open>The part of the state that the operations on single objects keep: the queue only grows.\<close>

definition extends :: "'o DeltaFIFO \<Rightarrow> 'o DeltaFIFO \<Rightarrow> bool" where
  "extends f f' \<longleftrightarrow> initialPopulationCount f' = initialPopulationCount f \<and> (populated f \<longrightarrow> populated f') \<and>
     (\<exists>q. fifoQueue f' = fifoQueue f @ q)"

lemma extends_refl [simp]: "extends f f"
  by (simp add: extends_def)

lemma extends_trans: "extends f g \<Longrightarrow> extends g h \<Longrightarrow> extends f h"
  by (auto simp: extends_def)

lemma extends_populated [simp]: "extends f (f\<lparr>populated := True\<rparr>)"
  by (simp add: extends_def)

lemma extends_close [simp]: "extends f (fifoClose g) \<longleftrightarrow> extends f g"
  by (simp add: extends_def fifoClose_def)

lemma willHold_close [simp]: "willHold (fifoClose f) known = willHold f known"
  by (simp add: fun_eq_iff willHold_def fate_def itemsAt_def fifoClose_def)

lemma willHold_fate: "fate f' = (fate f)(k := Some v) \<Longrightarrow> willHold f' known = (willHold f known)(k := v)"
  by (auto simp: willHold_def fun_eq_iff)

lemma queueActionE:
  assumes "fifo_inv key f"
  obtains f' where "queueActionLocked d f = (None, f')" "fifo_inv key f'" "extends f f'" "populated f' = populated f"
    "fate f' = (if isSync d \<and> fate f (deltaKeyOf key d) = Some None then fate f
      else (fate f)(deltaKeyOf key d := Some (afterDelta d)))"
    "set (fifoQueue f') = insert (deltaKeyOf key d) (set (fifoQueue f))"
    "length (fifoQueue f') \<le> Suc (length (fifoQueue f))"
  using queueAction [OF assms refl, of d] by (force simp: extends_def insert_absorb split: if_splits)

lemma fifoAdd_willHold:
  assumes "fifo_inv key f"
  shows "\<exists>f'. fifoAdd obj f = (None, f') \<and> fifo_inv key f' \<and> extends f f' \<and> populated f' \<and>
    willHold f' known = (willHold f known)(key obj \<mapsto> obj)"
proof -
  have "fifo_inv key (f\<lparr>populated := True\<rparr>)" using assms by simp
  from queueActionE [OF this, of "Added obj"] obtain f' where
    "fifoAdd obj f = (None, f')" "fifo_inv key f'" "extends (f\<lparr>populated := True\<rparr>) f'" "populated f'"
    "fate f' = (fate f)(key obj := Some (Some obj))"
    by (auto simp: fifoAdd_def)
  then show ?thesis using willHold_fate extends_trans [OF extends_populated] by metis
qed

lemma fifoUpdate_willHold:
  assumes "fifo_inv key f"
  shows "\<exists>f'. fifoUpdate obj f = (None, f') \<and> fifo_inv key f' \<and> extends f f' \<and> populated f' \<and>
    willHold f' known = (willHold f known)(key obj \<mapsto> obj)"
proof -
  have "fifo_inv key (f\<lparr>populated := True\<rparr>)" using assms by simp
  from queueActionE [OF this, of "Updated obj"] obtain f' where
    "fifoUpdate obj f = (None, f')" "fifo_inv key f'" "extends (f\<lparr>populated := True\<rparr>) f'" "populated f'"
    "fate f' = (fate f)(key obj := Some (Some obj))"
    by (auto simp: fifoUpdate_def)
  then show ?thesis using willHold_fate extends_trans [OF extends_populated] by metis
qed

lemma fifoDelete_willHold:
  assumes inv: "fifo_inv key f"
  shows "\<exists>f'. fifoDelete (Some known) obj f = (None, f') \<and> fifo_inv key f' \<and> extends f f' \<and> populated f' \<and>
    willHold f' known = (willHold f known)(key obj := None)"
proof -
  let ?f = "f\<lparr>populated := True\<rparr>" and ?d = "DeletedDelta (Deleted obj)"
  have inv': "fifo_inv key ?f" using inv by simp
  show ?thesis
  proof (cases "map_of known (key obj) = None \<and> key obj \<notin> set (fifoQueue f)")
    case True
    then have "willHold ?f known = (willHold f known)(key obj := None)"
      using fate_None [OF inv, of "key obj"] by (auto simp: willHold_def fun_eq_iff)
    then show ?thesis
      using True inv KeyOf_total [OF inv, of ?d] exists_queue [OF inv'] extends_populated
      by (simp add: fifoDelete_def Let_def)
  next
    case False
    from queueActionE [OF inv', of ?d] obtain f' where
      f': "queueActionLocked ?d ?f = (None, f')" "fifo_inv key f'" "extends ?f f'" "populated f'"
        "fate f' = (fate f)(key obj := Some None)"
      by auto
    moreover have "fifoDelete (Some known) obj f = queueActionLocked ?d ?f"
      using False KeyOf_total [OF inv, of ?d] exists_queue [OF inv']
      by (auto simp: fifoDelete_def Let_def Option.is_none_def)
    ultimately show ?thesis using willHold_fate extends_trans [OF extends_populated] by metis
  qed
qed

text \<open>\<open>Replace\<close>, loop by loop.\<close>

lemma replaceItems:
  assumes "fifo_inv key f" and "distinct (map key list)"
  shows "\<exists>f'. for_each_state replaceItem list (keys, f) = (None, rev (map key list) @ keys, f') \<and>
    fifo_inv key f' \<and> extends f f' \<and> populated f' = populated f \<and>
    fate f' = (\<lambda>k. if k \<in> key ` set list \<and> fate f k \<noteq> Some None
      then Some (map_of (map (\<lambda>obj. (key obj, obj)) list) k) else fate f k) \<and>
    set (fifoQueue f') = set (fifoQueue f) \<union> key ` set list \<and>
    length (fifoQueue f') \<le> length (fifoQueue f) + length list"
  using assms
proof (induction list arbitrary: f keys)
  case (Cons obj list)
  from queueActionE [OF Cons.prems(1), of "SyncDelta obj"] obtain f1 where
    f1: "queueActionLocked (SyncDelta obj) f = (None, f1)" "fifo_inv key f1" "extends f f1" "populated f1 = populated f"
      "fate f1 = (if fate f (key obj) = Some None then fate f else (fate f)(key obj := Some (Some obj)))"
      "set (fifoQueue f1) = insert (key obj) (set (fifoQueue f))" "length (fifoQueue f1) \<le> Suc (length (fifoQueue f))"
    by (auto cong: if_cong)
  have "distinct (map key list)" and fresh: "key obj \<notin> key ` set list" using Cons.prems(2) by auto
  from Cons.IH [OF f1(2) this(1), of "key obj # keys"] obtain f' where
    f': "for_each_state replaceItem list (key obj # keys, f1) = (None, rev (map key list) @ key obj # keys, f')"
      "fifo_inv key f'" "extends f1 f'" "populated f' = populated f1"
      "fate f' = (\<lambda>k. if k \<in> key ` set list \<and> fate f1 k \<noteq> Some None
        then Some (map_of (map (\<lambda>obj. (key obj, obj)) list) k) else fate f1 k)"
      "set (fifoQueue f') = set (fifoQueue f1) \<union> key ` set list"
      "length (fifoQueue f') \<le> length (fifoQueue f1) + length list"
    by blast
  have "replaceItem obj (keys, f) = (None, key obj # keys, f1)"
    using f1(1) KeyOf_total [OF Cons.prems(1), of "SyncDelta obj"] by (simp add: replaceItem_def)
  moreover have "fate f' = (\<lambda>k. if k \<in> key ` set (obj # list) \<and> fate f k \<noteq> Some None
      then Some (map_of (map (\<lambda>obj. (key obj, obj)) (obj # list)) k) else fate f k)"
    using f'(5) f1(5) fresh by (auto simp: fun_eq_iff)
  ultimately show ?case
    using f'(1-4,6,7) f1(3,4,6,7) by (intro exI [of _ f']) (auto intro: extends_trans)
qed simp

lemma replaceMissings:
  assumes "fifo_inv key f"
  shows "\<exists>f'. for_each_state (replaceMissing keys lookup) ks (n, f) =
      (None, n + length (filter (\<lambda>k. k \<notin> set keys) ks), f') \<and>
    fifo_inv key f' \<and> extends f f' \<and> populated f' = populated f \<and>
    fate f' = (\<lambda>k. if k \<in> set ks - set keys then Some None else fate f k) \<and>
    set (fifoQueue f') = set (fifoQueue f) \<union> (set ks - set keys) \<and>
    length (fifoQueue f') \<le> length (fifoQueue f) + length (filter (\<lambda>k. k \<notin> set keys) ks)"
  using assms
proof (induction ks arbitrary: f n)
  case (Cons k ks)
  show ?case
  proof (cases "k \<in> set keys")
    case True
    from Cons.IH [OF Cons.prems, of n] obtain f' where
      "for_each_state (replaceMissing keys lookup) ks (n, f) = (None, n + length (filter (\<lambda>k. k \<notin> set keys) ks), f')"
      "fifo_inv key f'" "extends f f'" "populated f' = populated f"
      "fate f' = (\<lambda>k. if k \<in> set ks - set keys then Some None else fate f k)"
      "set (fifoQueue f') = set (fifoQueue f) \<union> (set ks - set keys)"
      "length (fifoQueue f') \<le> length (fifoQueue f) + length (filter (\<lambda>k. k \<notin> set keys) ks)" by blast
    moreover have "replaceMissing keys lookup k (n, f) = (None, n, f)" using True by (simp add: replaceMissing_def)
    ultimately show ?thesis using True by (intro exI [of _ f']) (auto simp: fun_eq_iff)
  next
    case False
    let ?d = "DeletedDelta (DeletedFinalStateUnknown k (lookup k))"
    from queueActionE [OF Cons.prems, of ?d] obtain f1 where
      f1: "queueActionLocked ?d f = (None, f1)" "fifo_inv key f1" "extends f f1" "populated f1 = populated f"
        "fate f1 = (fate f)(k := Some None)" "set (fifoQueue f1) = insert k (set (fifoQueue f))"
        "length (fifoQueue f1) \<le> Suc (length (fifoQueue f))"
      by auto
    from Cons.IH [OF f1(2), of "n + 1"] obtain f' where
      f': "for_each_state (replaceMissing keys lookup) ks (n + 1, f1) =
          (None, n + 1 + length (filter (\<lambda>k. k \<notin> set keys) ks), f')"
        "fifo_inv key f'" "extends f1 f'" "populated f' = populated f1"
        "fate f' = (\<lambda>k. if k \<in> set ks - set keys then Some None else fate f1 k)"
        "set (fifoQueue f') = set (fifoQueue f1) \<union> (set ks - set keys)"
        "length (fifoQueue f') \<le> length (fifoQueue f1) + length (filter (\<lambda>k. k \<notin> set keys) ks)" by blast
    have "replaceMissing keys lookup k (n, f) = (None, n + 1, f1)" using False f1(1) by (simp add: replaceMissing_def)
    then show ?thesis
      using False f1(3,4,5,6,7) f'(1-7) by (intro exI [of _ f']) (auto simp: fun_eq_iff intro: extends_trans)
  qed
qed simp

text \<open>
  The fate of every key after \<open>Replace\<close>. A listed object arrives unless its key is about to be deleted;
  an object that is not listed is deleted only if the handlers know it already.
\<close>

lemma fifoReplace_fate:
  assumes inv: "fifo_inv key f" and dist: "distinct (map key list)"
  shows "\<exists>f'. fifoReplace (Some known) list f = (None, f') \<and> fifo_inv key f' \<and> populated f' \<and>
    fate f' = (\<lambda>k. if k \<in> key ` set list
      then (if fate f k = Some None then Some None else Some (map_of (map (\<lambda>obj. (key obj, obj)) list) k))
      else if k \<in> fst ` set known then Some None else fate f k) \<and>
    (\<exists>q. fifoQueue f' = fifoQueue f @ q) \<and> key ` set list \<subseteq> set (fifoQueue f') \<and>
    initialPopulationCount f' =
      (if populated f then initialPopulationCount f
       else length list + length (filter (\<lambda>k. k \<notin> key ` set list) (map fst known))) \<and>
    length (fifoQueue f') \<le> length (fifoQueue f) + length list + length (filter (\<lambda>k. k \<notin> key ` set list) (map fst known))"
proof -
  obtain f1 where f1: "for_each_state replaceItem list ([], f) = (None, rev (map key list), f1)"
      "fifo_inv key f1" "extends f f1" "populated f1 = populated f"
      "fate f1 = (\<lambda>k. if k \<in> key ` set list \<and> fate f k \<noteq> Some None
        then Some (map_of (map (\<lambda>obj. (key obj, obj)) list) k) else fate f k)"
      "set (fifoQueue f1) = set (fifoQueue f) \<union> key ` set list"
      "length (fifoQueue f1) \<le> length (fifoQueue f) + length list"
    using replaceItems [OF inv dist, of "[]"] by auto
  from replaceMissings [OF f1(2), of "rev (map key list)" "map_of known" "map fst known" 0] obtain f2 where
    f2: "for_each_state (replaceMissing (rev (map key list)) (map_of known)) (map fst known) (0, f1) =
        (None, length (filter (\<lambda>k. k \<notin> key ` set list) (map fst known)), f2)"
      "fifo_inv key f2" "extends f1 f2" "populated f2 = populated f1"
      "fate f2 = (\<lambda>k. if k \<in> fst ` set known - key ` set list then Some None else fate f1 k)"
      "set (fifoQueue f2) = set (fifoQueue f1) \<union> (fst ` set known - key ` set list)"
      "length (fifoQueue f2) \<le> length (fifoQueue f1) + length (filter (\<lambda>k. k \<notin> key ` set list) (map fst known))"
    by auto
  let ?n = "length list + length (filter (\<lambda>k. k \<notin> key ` set list) (map fst known))"
  let ?f = "if populated f2 then f2 else f2\<lparr>populated := True, initialPopulationCount := ?n\<rparr>"
  have "fifoReplace (Some known) list f = (None, ?f)" using f1(1) f2(1) by (simp add: fifoReplace_def)
  moreover have "fifo_inv key ?f" using f2(2) by simp
  moreover have "fate ?f = (\<lambda>k. if k \<in> key ` set list
      then (if fate f k = Some None then Some None else Some (map_of (map (\<lambda>obj. (key obj, obj)) list) k))
      else if k \<in> fst ` set known then Some None else fate f k)"
    using f2(5) f1(5) by (auto simp: fun_eq_iff)
  moreover have "extends f f2" using f1(3) f2(3) by (rule extends_trans)
  ultimately show ?thesis
    using f1(4,6,7) f2(4,6,7) by (intro exI [of _ ?f]) (auto simp: extends_def)
qed

text \<open>A resync queues what the handlers know already, for keys that nothing is queued for, so it settles nothing anew.\<close>

lemma syncKey_willHold:
  assumes inv: "fifo_inv key f" and keyed: "\<forall>(k, obj) \<in> set known. k = key obj"
  shows "\<exists>f'. syncKeyLocked known k f = (None, f') \<and> fifo_inv key f' \<and> extends f f' \<and> populated f' = populated f \<and>
    willHold f' known = willHold f known"
proof (cases "map_of known k")
  case (Some obj)
  then have k: "key obj = k" using keyed by (fastforce dest: map_of_SomeD)
  show ?thesis
  proof (cases "fate f k")
    case None
    from queueActionE [OF inv, of "SyncDelta obj"] k None obtain f' where
      f': "queueActionLocked (SyncDelta obj) f = (None, f')" "fifo_inv key f'" "extends f f'" "populated f' = populated f"
        "fate f' = (fate f)(k := Some (Some obj))"
      by auto
    have "(willHold f known)(k := Some obj) = willHold f known"
      using Some None by (auto simp: willHold_def fun_eq_iff)
    then show ?thesis
      using f' Some None k KeyOf_total [OF inv, of "SyncDelta obj"] willHold_fate [OF f'(5), of known]
      by (auto simp: syncKeyLocked_def fate_def)
  next
    case (Some v)
    then show ?thesis
      using \<open>map_of known k = Some obj\<close> inv k KeyOf_total [OF inv, of "SyncDelta obj"]
      by (auto simp: syncKeyLocked_def fate_def)
  qed
qed (simp add: syncKeyLocked_def inv)

lemma fifoResync_willHold:
  assumes "fifo_inv key f" and "\<forall>(k, obj) \<in> set known. k = key obj"
  shows "\<exists>f'. fifoResync (Some known) f = (None, f') \<and> fifo_inv key f' \<and> extends f f' \<and> populated f' = populated f \<and>
    willHold f' known = willHold f known"
proof -
  have "\<exists>f'. for_each_state (syncKeyLocked known) ks f = (None, f') \<and> fifo_inv key f' \<and> extends f f' \<and>
      populated f' = populated f \<and> willHold f' known = willHold f known" for ks
    using assms(1)
  proof (induction ks arbitrary: f)
    case (Cons k ks)
    from syncKey_willHold [OF Cons.prems assms(2), of k] obtain f1 where
      f1: "syncKeyLocked known k f = (None, f1)" "fifo_inv key f1" "extends f f1" "populated f1 = populated f"
        "willHold f1 known = willHold f known" by blast
    from Cons.IH [OF f1(2)] obtain f' where "for_each_state (syncKeyLocked known) ks f1 = (None, f')" "fifo_inv key f'"
        "extends f1 f'" "populated f' = populated f1" "willHold f' known = willHold f1 known" by blast
    with f1 show ?case by (intro exI [of _ f']) (auto intro: extends_trans)
  qed simp
  then show ?thesis by (simp add: fifoResync_def)
qed

text \<open>\<open>Pop\<close> takes the first key of the queue, and never meets a key without deltas.\<close>

lemma Pop_empty: "fifoQueue f = [] \<Longrightarrow> Pop process f s = (if fifoClosed f then Some (FIFOClosedError, f, s) else None)"
  by (simp add: Pop.simps [of process f s])

lemma Pop_first:
  assumes inv: "fifo_inv key f" and queue: "fifoQueue f = k # rest"
  shows "\<exists>f'. Pop process f s = Some (case process (itemsAt f k) s of
        (Processed, s') \<Rightarrow> (Popped (itemsAt f k) None, f', s')
      | (ProcessFailed err, s') \<Rightarrow> (Popped (itemsAt f k) (Some err), f', s')
      | (ErrRequeue err, s') \<Rightarrow> (Popped (itemsAt f k) (Some err), addIfNotPresent k (itemsAt f k) f', s')
      | (Panicked p, s') \<Rightarrow> (PopPanic p, f', s')) \<and>
    fifo_inv key f' \<and> fifoQueue f' = rest \<and> populated f' = populated f \<and> fifoClosed f' = fifoClosed f \<and>
    initialPopulationCount f' = initialPopulationCount f - 1 \<and> fate f' = (fate f)(k := None) \<and>
    set (fifoItems f') \<subseteq> set (fifoItems f)"
proof -
  let ?f = "f\<lparr>fifoQueue := rest, initialPopulationCount := initialPopulationCount f - 1,
    fifoItems := map_del k (fifoItems f)\<rparr>"
  have "k \<in> fst ` set (fifoItems f)" using inv queue unfolding fifo_inv_def by (metis list.set_intros(1))
  then obtain ds where ds: "map_of (fifoItems f) k = Some ds" by (metis map_of_eq_None_iff option.exhaust)
  then have "Pop process f s = Some (case process (itemsAt f k) s of
        (Processed, s') \<Rightarrow> (Popped (itemsAt f k) None, ?f, s')
      | (ProcessFailed err, s') \<Rightarrow> (Popped (itemsAt f k) (Some err), ?f, s')
      | (ErrRequeue err, s') \<Rightarrow> (Popped (itemsAt f k) (Some err), addIfNotPresent k (itemsAt f k) ?f, s')
      | (Panicked p, s') \<Rightarrow> (PopPanic p, ?f, s'))"
    using queue by (simp add: Pop.simps [of process f s] itemsAt_def Let_def split: prod.split processed.split)
  moreover have "fifo_inv key ?f"
    using inv queue by (auto simp: fifo_inv_def)
  moreover have "fate ?f = (fate f)(k := None)" by (auto simp: fate_def itemsAt_def fun_eq_iff)
  ultimately show ?thesis by (intro exI [of _ ?f]) auto
qed

lemma Pop_panics:
  assumes "fifo_inv key f" and "fifoQueue f = k # rest" and "Pop process f s = Some (PopPanic p, f', s')"
  shows "fst (process (itemsAt f k) s) = Panicked p"
proof -
  obtain r s1 where "process (itemsAt f k) s = (r, s1)" by fastforce
  then show ?thesis using Pop_first [OF assms(1,2), of process s] assms(3) by (cases r) auto
qed

lemma addIfNotPresent_inv:
  assumes "fifo_inv key f" and "ds \<noteq> []" and "\<forall>d \<in> set ds. deltaKeyOf key d = k"
  shows "fifo_inv key (addIfNotPresent k ds f)"
  using assms fifo_inv_put [of key "f\<lparr>populated := True\<rparr>" ds k] exists_queue [of key "f\<lparr>populated := True\<rparr>" k]
  by (auto simp: addIfNotPresent_def Let_def)

lemma itemsAt_nonempty: "fifo_inv key f \<Longrightarrow> k \<in> set (fifoQueue f) \<Longrightarrow> itemsAt f k \<noteq> []"
  using fate_None [of key f k] by (simp add: fate_def)

lemma Pop_inv:
  assumes inv: "fifo_inv key f" and pop: "Pop process f s = Some (r, f', s')"
  shows "fifo_inv key f'"
proof (cases "fifoQueue f")
  case Nil
  then show ?thesis using assms Pop_empty [OF Nil, of process s] by (simp split: if_splits)
next
  case (Cons k rest)
  from Pop_first [OF inv Cons, of process s] obtain g where g: "fifo_inv key g"
      "Some (r, f', s') = Some (case process (itemsAt f k) s of
        (Processed, s') \<Rightarrow> (Popped (itemsAt f k) None, g, s')
      | (ProcessFailed err, s') \<Rightarrow> (Popped (itemsAt f k) (Some err), g, s')
      | (ErrRequeue err, s') \<Rightarrow> (Popped (itemsAt f k) (Some err), addIfNotPresent k (itemsAt f k) g, s')
      | (Panicked p, s') \<Rightarrow> (PopPanic p, g, s'))"
    using pop by auto
  moreover have "fifo_inv key (addIfNotPresent k (itemsAt f k) g)"
    using addIfNotPresent_inv [OF g(1)] itemsAt_nonempty [OF inv, of k] itemsAt_keys [OF inv, of _ k] Cons by simp
  ultimately show ?thesis by (auto split: prod.splits processed.splits)
qed

section \<open>Runs of the queue\<close>

text \<open>
  The reflector produces, \<open>Pop\<close> consumes, with any function that processes the items, and what was
  popped may be put back. A list from an API server has one object per key.
\<close>

inductive fifo_step :: "('o \<Rightarrow> string) \<Rightarrow> 'o DeltaFIFO \<Rightarrow> 'o DeltaFIFO \<Rightarrow> bool" for key where
  step_add: "fifo_step key f (snd (fifoAdd obj f))"
| step_update: "fifo_step key f (snd (fifoUpdate obj f))"
| step_delete: "fifo_step key f (snd (fifoDelete (Some known) obj f))"
| step_replace: "distinct (map key list) \<Longrightarrow> fifo_step key f (snd (fifoReplace (Some known) list f))"
| step_resync: "\<forall>(k, obj) \<in> set known. k = key obj \<Longrightarrow> fifo_step key f (snd (fifoResync (Some known) f))"
| step_pop: "Pop process f () = Some (r, f', ()) \<Longrightarrow> fifo_step key f f'"
| step_requeue: "\<forall>d \<in> set ds. deltaKeyOf key d = k \<Longrightarrow> fifo_step key f (snd (AddIfNotPresent ds f))"
| step_close: "fifo_step key f (fifoClose f)"

inductive fifo_reach :: "('o \<Rightarrow> string) \<Rightarrow> 'o DeltaFIFO \<Rightarrow> bool" for key where
  reach_new: "fifo_reach key (NewDeltaFIFO (\<lambda>obj. Inr (key obj)) None)"
| reach_step: "fifo_reach key f \<Longrightarrow> fifo_step key f f' \<Longrightarrow> fifo_reach key f'"

inductive_cases fifo_stepE: "fifo_step key f f'"

lemma fifo_inv_new [simp]: "fifo_inv key (NewDeltaFIFO (\<lambda>obj. Inr (key obj)) None)"
  by (simp add: fifo_inv_def NewDeltaFIFO_def)

lemma fifo_inv_close [simp]: "fifo_inv key (fifoClose f) \<longleftrightarrow> fifo_inv key f"
  by (simp add: fifo_inv_def fifoClose_def)

lemma fifo_inv_requeue:
  assumes "fifo_inv key f" and "\<forall>d \<in> set ds. deltaKeyOf key d = k"
  shows "fifo_inv key (snd (AddIfNotPresent ds f))"
proof (cases "Newest ds")
  case (Some d)
  then have "ds \<noteq> []" "deltaKeyOf key d = k" using assms(2) by (auto simp: Newest_last split: if_splits)
  then show ?thesis using Some addIfNotPresent_inv [OF assms(1) _ assms(2)] by (simp add: AddIfNotPresent_def KeyOf_total [OF assms(1)])
qed (simp add: AddIfNotPresent_def assms)

lemma fifo_inv_step: "fifo_step key f f' \<Longrightarrow> fifo_inv key f \<Longrightarrow> fifo_inv key f'"
proof (induction rule: fifo_step.induct)
  case (step_add f obj)
  then show ?case using fifoAdd_willHold by (metis snd_conv)
next
  case (step_update f obj)
  then show ?case using fifoUpdate_willHold by (metis snd_conv)
next
  case (step_delete f known obj)
  then show ?case using fifoDelete_willHold by (metis snd_conv)
next
  case (step_replace list f known)
  then show ?case using fifoReplace_fate by (metis snd_conv)
next
  case (step_resync known f)
  then show ?case using fifoResync_willHold by (metis snd_conv)
qed (auto intro: Pop_inv fifo_inv_requeue)

lemma fifo_reach_inv: "fifo_reach key f \<Longrightarrow> fifo_inv key f"
  by (induction rule: fifo_reach.induct) (auto intro: fifo_inv_step)

section \<open>Lists\<close>

abbreviation byKey :: "('o \<Rightarrow> string) \<Rightarrow> 'o list \<Rightarrow> string \<Rightarrow> 'o option" where
  "byKey key list \<equiv> map_of (map (\<lambda>obj. (key obj, obj)) list)"

lemma byKey_None: "byKey key list k = None \<longleftrightarrow> k \<notin> key ` set list"
  by (simp add: map_of_eq_None_iff image_image)

text \<open>
  When a list is safe: no deletion of a listed object is waiting, and no object that is gone is
  waiting to be added.
\<close>

definition list_safe :: "('o \<Rightarrow> string) \<Rightarrow> 'o DeltaFIFO \<Rightarrow> (string \<times> 'o) list \<Rightarrow> 'o list \<Rightarrow> bool" where
  "list_safe key f known list \<longleftrightarrow>
     list_all (\<lambda>obj. \<not> willObjectBeDeletedLocked f (key obj)) list \<and>
     list_all (\<lambda>k. k \<in> set (map key list) \<or> k \<in> set (map fst known) \<or> willObjectBeDeletedLocked f k) (fifoQueue f)"

lemma list_safe_empty: "fifo_inv key f \<Longrightarrow> fifoQueue f = [] \<Longrightarrow> list_safe key f known list"
  using fate_None [of key f] by (simp add: list_safe_def list_all_iff willObjectBeDeleted_fate)

lemma fifoReplace_willHold:
  assumes inv: "fifo_inv key f" and "distinct (map key list)"
    and new: "fifoReplace (Some known) list f = (e, f')"
  shows "willHold f' known = byKey key list \<longleftrightarrow> list_safe key f known list"
proof -
  from fifoReplace_fate [OF assms(1,2), of known] new have fate: "fate f' = (\<lambda>k. if k \<in> key ` set list
      then (if fate f k = Some None then Some None else Some (byKey key list k))
      else if k \<in> fst ` set known then Some None else fate f k)"
    by auto
  have gone: "k \<notin> fst ` set known \<Longrightarrow> map_of known k = None" for k by (simp add: map_of_eq_None_iff)
  have queued: "k \<in> set (fifoQueue f) \<longleftrightarrow> fate f k \<noteq> None" for k using fate_None [OF inv, of k] by simp
  have at: "willHold f' known k = byKey key list k \<longleftrightarrow>
      (if k \<in> key ` set list then fate f k \<noteq> Some None
       else k \<in> fst ` set known \<or> fate f k = None \<or> fate f k = Some None)" for k
  proof (cases "k \<in> key ` set list")
    case True
    moreover from this obtain v where "byKey key list k = Some v" using byKey_None [of key list k] by blast
    ultimately show ?thesis by (simp add: willHold_def fate)
  next
    case False
    moreover from this have "byKey key list k = None" by (simp add: byKey_None)
    ultimately show ?thesis using gone [of k] by (auto simp: willHold_def fate split: option.split)
  qed
  have "willHold f' known = byKey key list \<longleftrightarrow> (\<forall>k. willHold f' known k = byKey key list k)" by (rule fun_eq_iff)
  also have "\<dots> \<longleftrightarrow> (\<forall>k \<in> key ` set list. fate f k \<noteq> Some None) \<and>
      (\<forall>k \<in> set (fifoQueue f). k \<in> key ` set list \<or> k \<in> fst ` set known \<or> fate f k = Some None)"
    unfolding at Ball_def queued by (auto split: if_splits)
  finally show ?thesis by (simp add: list_safe_def list_all_iff willObjectBeDeleted_fate)
qed

end
