(* ===== verification/Informer.thy ===== *)
theory Informer
  imports Delta_FIFO
begin

text \<open>
  The informers of the controllers, from the requests to an API server to the calls of the handlers:
  the reflector (\<open>client-go/tools/cache/reflector.go\<close>), which lists and watches, feeds the queue of
  \<open>Delta_FIFO\<close>, and the loop of \<open>cache.NewInformer\<close> and \<open>cache.NewIndexerInformer\<close> (\<open>controller.go\<close>) processes
  it. The API server is outside: its answers are the inputs of the reflector.
\<close>

section \<open>The reflector\<close>

text \<open>The methods of \<open>cache.Store\<close> that a reflector calls.\<close>

record ('o, 'q) Store =
  storeAdd :: "'o \<Rightarrow> 'q \<Rightarrow> error option \<times> 'q"
  storeUpdate :: "'o \<Rightarrow> 'q \<Rightarrow> error option \<times> 'q"
  storeDelete :: "'o \<Rightarrow> 'q \<Rightarrow> error option \<times> 'q"
  storeReplace :: "'o list \<Rightarrow> string \<Rightarrow> 'q \<Rightarrow> error option \<times> 'q"
  storeResync :: "'q \<Rightarrow> error option \<times> 'q"

text \<open>\<open>watch.Event\<close>; the object is \<open>None\<close> when it is not of the type that the reflector expects.\<close>

record 'o watchEvent =
  evType :: string
  evObject :: "'o option"

text \<open>
  Where \<open>ListAndWatch\<close> is: it waits for a list, it asks for a watch from a resource version, or it
  receives from a watch (\<open>watchHandler\<close>, with the resource version, the start and the number of events).
\<close>

datatype phase = Listing | OpeningWatch string | Watching string int nat

record Reflector =
  rfPhase :: phase
  resyncPeriod :: int
  lastSyncResourceVersion :: string
  resyncerrc :: "error option"
  stopRequested :: bool

definition NewReflector :: "int \<Rightarrow> Reflector" where
  "NewReflector period =
     \<lparr>rfPhase = Listing, resyncPeriod = period, lastSyncResourceVersion = [], resyncerrc = None, stopRequested = False\<rparr>"

datatype watchFailure = ConnectionRefused | WatchFailed error

text \<open>
  What the reflector waits for: the answers to its requests, what its \<open>select\<close> statements receive, and
  the timer of the resync.
\<close>

datatype 'o rfInput =
  ListFailed error
| ListReturned "'o list" string
| WatchOpened int
| WatchRefused watchFailure
| Event "'o watchEvent"
| WatchClosed int
| ResyncError
| ResyncTick
| StopSignal
| StopRequested

text \<open>The switch of \<open>watchHandler\<close>. Errors of the store are logged.\<close>

definition storeEvent :: "('o, 'q) Store \<Rightarrow> string \<Rightarrow> 'o \<Rightarrow> 'q \<Rightarrow> 'q" where
  "storeEvent st eventType obj q =
     (if eventType = ''ADDED'' then snd (storeAdd st obj q)
      else if eventType = ''MODIFIED'' then snd (storeUpdate st obj q)
      else if eventType = ''DELETED'' then snd (storeDelete st obj q)
      else q)"

text \<open>
  One event: \<open>None\<close> when \<open>watchHandler\<close> returns the error that the server sent. An object of another
  type is skipped.
\<close>

definition receiveEvent ::
  "('o, 'q) Store \<Rightarrow> ('o \<Rightarrow> string) \<Rightarrow> 'o watchEvent \<Rightarrow> string \<times> nat \<times> 'q \<Rightarrow> (string \<times> nat \<times> 'q) option" where
  "receiveEvent st version ev = (\<lambda>(resourceVersion, eventCount, q).
     if evType ev = ''ERROR'' then None
     else case evObject ev of
       None \<Rightarrow> Some (resourceVersion, eventCount, q)
     | Some obj \<Rightarrow> Some (version obj, eventCount + 1, storeEvent st (evType ev) obj q))"

text \<open>
  \<open>ListAndWatch\<close> from one input to the next; \<open>None\<close> for an input that cannot occur. When the function
  returns, \<open>Run\<close> calls it again. The goroutine of the resync may still fire once after that; a stop
  closes the channel that the \<open>select\<close> of \<open>watchHandler\<close> reads. A watch is very short below a second.
\<close>

definition reflectorStep ::
  "('o, 'q) Store \<Rightarrow> ('o \<Rightarrow> string) \<Rightarrow> 'o rfInput \<Rightarrow> Reflector \<times> 'q \<Rightarrow> (Reflector \<times> 'q) option" where
  "reflectorStep st version inp = (\<lambda>(r, q).
     case inp of
       ListFailed err \<Rightarrow> if rfPhase r = Listing then Some (r, q) else None
     | ListReturned items resourceVersion \<Rightarrow>
         if rfPhase r = Listing
         then case storeReplace st items resourceVersion q of
           (Some err, q') \<Rightarrow> Some (r, q')
         | (None, q') \<Rightarrow>
             Some (r\<lparr>rfPhase := OpeningWatch resourceVersion, lastSyncResourceVersion := resourceVersion,
               resyncerrc := None\<rparr>, q')
         else None
     | WatchOpened start \<Rightarrow>
         (case rfPhase r of
            OpeningWatch resourceVersion \<Rightarrow> Some (r\<lparr>rfPhase := Watching resourceVersion start 0\<rparr>, q)
          | _ \<Rightarrow> None)
     | WatchRefused failure \<Rightarrow>
         (case rfPhase r of
            OpeningWatch resourceVersion \<Rightarrow>
              Some (if failure = ConnectionRefused then r else r\<lparr>rfPhase := Listing\<rparr>, q)
          | _ \<Rightarrow> None)
     | Event ev \<Rightarrow>
         (case rfPhase r of
            Watching resourceVersion start eventCount \<Rightarrow>
              (case receiveEvent st version ev (resourceVersion, eventCount, q) of
                 None \<Rightarrow> Some (r\<lparr>rfPhase := Listing\<rparr>, q)
               | Some (resourceVersion', eventCount', q') \<Rightarrow>
                   Some (r\<lparr>rfPhase := Watching resourceVersion' start eventCount',
                     lastSyncResourceVersion := resourceVersion'\<rparr>, q'))
          | _ \<Rightarrow> None)
     | WatchClosed now \<Rightarrow>
         (case rfPhase r of
            Watching resourceVersion start eventCount \<Rightarrow>
              Some (if now - start < 1000000000 \<and> eventCount = 0 then r\<lparr>rfPhase := Listing\<rparr>
                else r\<lparr>rfPhase := OpeningWatch resourceVersion\<rparr>, q)
          | _ \<Rightarrow> None)
     | ResyncError \<Rightarrow>
         (case (rfPhase r, resyncerrc r) of
            (Watching resourceVersion start eventCount, Some err) \<Rightarrow> Some (r\<lparr>rfPhase := Listing, resyncerrc := None\<rparr>, q)
          | _ \<Rightarrow> None)
     | ResyncTick \<Rightarrow>
         if resyncPeriod r = 0 \<or> \<not> Option.is_none (resyncerrc r) then None
         else (case storeResync st q of (err, q') \<Rightarrow> Some (r\<lparr>resyncerrc := err\<rparr>, q'))
     | StopSignal \<Rightarrow>
         (case rfPhase r of
            Watching resourceVersion start eventCount \<Rightarrow>
              if stopRequested r then Some (r\<lparr>rfPhase := Listing\<rparr>, q) else None
          | _ \<Rightarrow> None)
     | StopRequested \<Rightarrow> Some (r\<lparr>stopRequested := True\<rparr>, q))"

section \<open>The informer\<close>

fun deltaOf :: "'o Delta \<Rightarrow> 'o delta" where
  "deltaOf (Added obj) = Sync obj"
| "deltaOf (Updated obj) = Sync obj"
| "deltaOf (SyncDelta obj) = Sync obj"
| "deltaOf (DeletedDelta obj) = Removed obj"

text \<open>\<open>Process\<close> of the informer on all deltas of an object, from oldest to newest.\<close>

fun processDeltas ::
  "('o \<Rightarrow> string) \<Rightarrow> ('o, 's) ResourceEventHandlerFuncs \<Rightarrow> 'o Deltas \<Rightarrow> (string \<times> 'o) list \<times> 's
   \<Rightarrow> processed \<times> (string \<times> 'o) list \<times> 's" where
  "processDeltas key h [] st = (Processed, st)"
| "processDeltas key h (d # ds) st =
     (case processDelta key h (deltaOf d) st of
        (Some p, st') \<Rightarrow> (Panicked p, st')
      | (None, st') \<Rightarrow> processDeltas key h ds st')"

record ('o, 's) Informer =
  ifReflector :: Reflector
  ifQueue :: "'o DeltaFIFO"
  ifStore :: "(string \<times> 'o) list"
  ifOwner :: 's

definition NewInformer :: "('o \<Rightarrow> string) \<Rightarrow> int \<Rightarrow> 's \<Rightarrow> ('o, 's) Informer" where
  "NewInformer key period owner =
     \<lparr>ifReflector = NewReflector period, ifQueue = NewDeltaFIFO (\<lambda>obj. Inr (key obj)) None, ifStore = [], ifOwner = owner\<rparr>"

text \<open>The queue as the store of the reflector; it looks into the store of the informer.\<close>

definition fifoStore :: "(string \<times> 'o) list \<Rightarrow> ('o, 'o DeltaFIFO) Store" where
  "fifoStore known =
     \<lparr>storeAdd = fifoAdd, storeUpdate = fifoUpdate, storeDelete = fifoDelete (Some known),
      storeReplace = (\<lambda>items resourceVersion. fifoReplace (Some known) items), storeResync = fifoResync (Some known)\<rparr>"

text \<open>\<open>Run\<close> closes the queue when the informer is stopped.\<close>

definition informerInput ::
  "('o \<Rightarrow> string) \<Rightarrow> 'o rfInput \<Rightarrow> ('o, 's) Informer \<Rightarrow> ('o, 's) Informer option" where
  "informerInput version inp ifm =
     (case reflectorStep (fifoStore (ifStore ifm)) version inp (ifReflector ifm, ifQueue ifm) of
        None \<Rightarrow> None
      | Some (r, f) \<Rightarrow>
          Some (ifm\<lparr>ifReflector := r,
            ifQueue := (case inp of StopRequested \<Rightarrow> fifoClose f | _ \<Rightarrow> f)\<rparr>))"

text \<open>One turn of \<open>processLoop\<close>; \<open>RetryOnError\<close> is false, so an item that failed is not put back.\<close>

definition processNext ::
  "('o \<Rightarrow> string) \<Rightarrow> ('o, 's) ResourceEventHandlerFuncs \<Rightarrow> ('o, 's) Informer
   \<Rightarrow> ('o popped \<times> ('o, 's) Informer) option" where
  "processNext key h ifm =
     (case Pop (processDeltas key h) (ifQueue ifm) (ifStore ifm, ifOwner ifm) of
        None \<Rightarrow> None
      | Some (r, f, st, s) \<Rightarrow> Some (r, ifm\<lparr>ifQueue := f, ifStore := st, ifOwner := s\<rparr>))"

definition informerHasSynced :: "('o, 's) Informer \<Rightarrow> bool" where
  "informerHasSynced ifm = HasSynced (ifQueue ifm)"

section \<open>What the reflector expects from its store\<close>

text \<open>
  The store promises a view of the objects. Changes of single objects change the view accordingly, a
  list replaces it in the states where that is safe, and a resync keeps it. \<open>grew\<close> is what every operation
  on single objects does to the rest of the store.
\<close>

definition applyEvent :: "('o \<Rightarrow> string) \<Rightarrow> 'o watchEvent \<Rightarrow> (string \<Rightarrow> 'o option) \<Rightarrow> string \<Rightarrow> 'o option" where
  "applyEvent key ev m =
     (case evObject ev of
        None \<Rightarrow> m
      | Some obj \<Rightarrow>
          if evType ev = ''ADDED'' \<or> evType ev = ''MODIFIED'' then m(key obj \<mapsto> obj)
          else if evType ev = ''DELETED'' then m(key obj := None)
          else m)"

definition silent :: "'o rfInput \<Rightarrow> bool" where
  "silent inp \<longleftrightarrow>
     (case inp of
        ListReturned items rv \<Rightarrow> False
      | WatchOpened start \<Rightarrow> False
      | Event ev \<Rightarrow> evType ev = ''ERROR'' \<or> Option.is_none (evObject ev)
      | _ \<Rightarrow> True)"

definition at_version :: "string \<Rightarrow> phase \<Rightarrow> bool" where
  "at_version rv p \<longleftrightarrow>
     (case p of Listing \<Rightarrow> True | OpeningWatch rv' \<Rightarrow> rv' = rv | Watching rv' start n \<Rightarrow> rv' = rv)"

locale reflected_store =
  fixes st :: "('o, 'q) Store" and key :: "'o \<Rightarrow> string" and invar :: "'q \<Rightarrow> bool"
    and view :: "'q \<Rightarrow> string \<Rightarrow> 'o option" and safe :: "'o list \<Rightarrow> 'q \<Rightarrow> bool" and grew :: "'q \<Rightarrow> 'q \<Rightarrow> bool"
  assumes grew_refl: "grew q q"
    and store_add: "invar q \<Longrightarrow> invar (snd (storeAdd st obj q)) \<and> grew q (snd (storeAdd st obj q)) \<and>
      view (snd (storeAdd st obj q)) = (view q)(key obj \<mapsto> obj)"
    and store_update: "invar q \<Longrightarrow> invar (snd (storeUpdate st obj q)) \<and> grew q (snd (storeUpdate st obj q)) \<and>
      view (snd (storeUpdate st obj q)) = (view q)(key obj \<mapsto> obj)"
    and store_delete: "invar q \<Longrightarrow> invar (snd (storeDelete st obj q)) \<and> grew q (snd (storeDelete st obj q)) \<and>
      view (snd (storeDelete st obj q)) = (view q)(key obj := None)"
    and store_replace: "invar q \<Longrightarrow> distinct (map key items) \<Longrightarrow>
      \<exists>q'. storeReplace st items rv q = (None, q') \<and> invar q' \<and> (safe items q \<longrightarrow> view q' = byKey key items)"
    and store_resync: "invar q \<Longrightarrow> \<exists>q'. storeResync st q = (None, q') \<and> invar q' \<and> grew q q' \<and> view q' = view q"
begin

lemma storeEvent_view:
  assumes "invar q" and "evObject ev = Some obj"
  shows "invar (storeEvent st (evType ev) obj q) \<and> grew q (storeEvent st (evType ev) obj q) \<and>
    view (storeEvent st (evType ev) obj q) = applyEvent key ev (view q)"
  using assms store_add [of q obj] store_update [of q obj] store_delete [of q obj] grew_refl
  by (simp add: storeEvent_def applyEvent_def)

text \<open>An event moves the view and the resource version by one change.\<close>

lemma reflectorStep_event:
  assumes "invar q" and "evType ev \<noteq> ''ERROR''" and "evObject ev = Some obj"
    and "reflectorStep st version (Event ev) (r, q) = Some (r', q')"
  shows "invar q' \<and> grew q q' \<and> view q' = applyEvent key ev (view q) \<and> at_version (version obj) (rfPhase r') \<and>
    rfPhase r' \<noteq> Listing"
  using assms storeEvent_view [OF assms(1,3)]
  by (auto simp: reflectorStep_def receiveEvent_def at_version_def split: phase.splits)

lemma reflectorStep_list:
  assumes "invar q" and "distinct (map key items)"
    and "reflectorStep st version (ListReturned items rv) (r, q) = Some (r', q')"
  shows "invar q' \<and> (safe items q \<longrightarrow> view q' = byKey key items) \<and> rfPhase r' = OpeningWatch rv \<and>
    storeReplace st items rv q = (None, q') \<and> rfPhase r = Listing"
  using assms store_replace [OF assms(1,2), of rv] by (auto simp: reflectorStep_def split: if_splits)

text \<open>Nothing else changes the view; the resource version is kept or forgotten.\<close>

lemma reflectorStep_silent:
  assumes "invar q" and "silent inp" and "at_version rv (rfPhase r)"
    and "reflectorStep st version inp (r, q) = Some (r', q')"
  shows "invar q' \<and> grew q q' \<and> view q' = view q \<and> at_version rv (rfPhase r') \<and>
    (rfPhase r = Listing \<longrightarrow> rfPhase r' = Listing)"
  using assms store_resync [OF assms(1)] grew_refl
  by (cases inp)
    (auto simp: reflectorStep_def silent_def at_version_def receiveEvent_def Option.is_none_def
      split: phase.splits if_splits option.splits prod.splits)

end

text \<open>No delta of the queue reports a deletion that was missed.\<close>

definition no_missed :: "'o DeltaFIFO \<Rightarrow> bool" where
  "no_missed f \<longleftrightarrow> list_all (\<lambda>(k, ds). list_all (\<lambda>d. \<not> missed (deltaOf d)) ds) (fifoItems f)"

lemma no_missed_itemsAt:
  assumes "no_missed f" and "d \<in> set (itemsAt f k)"
  shows "\<not> missed (deltaOf d)"
proof (cases "map_of (fifoItems f) k")
  case (Some ds)
  then have "(k, ds) \<in> set (fifoItems f)" by (rule map_of_SomeD)
  with assms Some show ?thesis by (auto simp: no_missed_def itemsAt_def list_all_iff)
qed (use assms(2) in \<open>simp add: itemsAt_def\<close>)

lemma no_missed_action:
  assumes "fifo_inv key f" and "no_missed f" and "\<not> missed (deltaOf d)"
  shows "no_missed (snd (queueActionLocked d f))"
proof -
  let ?k = "deltaKeyOf key d"
  have "\<forall>d' \<in> set (dedupDeltas (itemsAt f ?k @ [d])). \<not> missed (deltaOf d')"
    using dedup_subset [of "itemsAt f ?k" d] assms(3) no_missed_itemsAt [OF assms(2)] by blast
  moreover have "deltaCompressor f = None" using assms(1) by (simp add: fifo_inv_def)
  ultimately show ?thesis
    using assms(2) by (auto simp: queueActionLocked_def KeyOf_total [OF assms(1)] no_missed_def list_all_iff Let_def dest!: set_map_putD)
qed

lemma no_missed_populated [simp]: "no_missed (f\<lparr>populated := b\<rparr>) = no_missed f"
  "no_missed (f\<lparr>initialPopulationCount := n\<rparr>) = no_missed f"
  by (simp_all add: no_missed_def)

lemma missed_simps [simp]: "\<not> missed (Sync obj)" "\<not> missed (Removed (Deleted obj))"
  "missed (Removed (DeletedFinalStateUnknown k v))"
  by (simp_all add: missed_def)

lemma no_missed_resync:
  assumes "fifo_inv key f" and "\<forall>(k, obj) \<in> set known. k = key obj" and "no_missed f"
  shows "no_missed (snd (fifoResync (Some known) f))"
proof -
  have "no_missed (snd (for_each_state (syncKeyLocked known) ks f))" for ks
    using assms(1,3)
  proof (induction ks arbitrary: f)
    case (Cons k ks)
    from syncKey_willHold [OF Cons.prems(1) assms(2), of k] obtain f1 where
      f1: "syncKeyLocked known k f = (None, f1)" "fifo_inv key f1" by blast
    have "no_missed (snd (syncKeyLocked known k f))"
      using Cons.prems no_missed_action [OF Cons.prems(1,2), of "SyncDelta (the (map_of known k))"]
      by (auto simp: syncKeyLocked_def split: option.split sum.split prod.split)
    then show ?case using f1 Cons.IH [OF f1(2)] by simp
  qed simp
  then show ?thesis by (simp add: fifoResync_def)
qed

lemma no_missed_single:
  assumes "fifo_inv key f" and "no_missed f"
  shows "no_missed (snd (fifoAdd obj f))" "no_missed (snd (fifoUpdate obj f))" "no_missed (snd (fifoDelete (Some known) obj f))"
  using no_missed_action [of key "f\<lparr>populated := True\<rparr>"] assms
  by (simp_all add: fifoAdd_def fifoUpdate_def fifoDelete_def Let_def split: sum.split)

abbreviation keyed :: "('o \<Rightarrow> string) \<Rightarrow> (string \<times> 'o) list \<Rightarrow> bool" where
  "keyed key m \<equiv> (\<forall>(k, obj) \<in> set m. k = key obj)"

text \<open>The queue keeps this contract over any store that is keyed by its objects.\<close>

interpretation fifo: reflected_store "fifoStore known" key "\<lambda>f. fifo_inv key f \<and> keyed key known"
    "\<lambda>f. willHold f known" "\<lambda>items f. list_safe key f known items"
    "\<lambda>f f'. extends f f' \<and> (populated f \<longrightarrow> populated f') \<and> (no_missed f \<longrightarrow> no_missed f')" for known key
proof (unfold_locales, goal_cases)
  case (2 q obj)
  then show ?case using fifoAdd_willHold [of key q obj known] no_missed_single(1) [of key q obj] by (auto simp: fifoStore_def)
next
  case (3 q obj)
  then show ?case using fifoUpdate_willHold [of key q obj known] no_missed_single(2) [of key q obj] by (auto simp: fifoStore_def)
next
  case (4 q obj)
  then show ?case using fifoDelete_willHold [of key q known obj] no_missed_single(3) [of key q known obj] by (auto simp: fifoStore_def)
next
  case (5 q items rv)
  then obtain q' where "fifoReplace (Some known) items q = (None, q')" "fifo_inv key q'"
    using fifoReplace_fate [of key q items known] by blast
  with 5 show ?case using fifoReplace_willHold [of key q items known None q'] by (auto simp: fifoStore_def)
next
  case (6 q)
  then obtain q' where "fifoResync (Some known) q = (None, q')" "fifo_inv key q'" "extends q q'"
      "populated q' = populated q" "willHold q' known = willHold q known"
    using fifoResync_willHold [of key q known] by blast
  with 6 show ?case using no_missed_resync [of key q known] by (auto simp: fifoStore_def)
qed simp

section \<open>Processing\<close>

lemma processDeltas_store:
  assumes "processDeltas key h ds (st, s) = (Processed, st', s')" and "ds \<noteq> []"
    and "\<forall>d \<in> set ds. deltaKeyOf key d = k" and "keyed key st"
  shows "map_of st' = (map_of st)(k := afterDelta (last ds))" and "keyed key st'"
proof -
  have step: "map_of st1 = (map_of st)(k := afterDelta d) \<and> keyed key st1"
    if "processDelta key h (deltaOf d) (st, s) = (p, st1, s1)" and "deltaKeyOf key d = k" and "keyed key st" for d st s p st1 s1
    using that by (cases d) (auto simp: processDelta_def Let_def split: deleted.splits option.splits prod.splits
        dest!: set_map_putD)
  have "map_of st' = (map_of st)(k := afterDelta (last ds)) \<and> keyed key st'"
    using assms
  proof (induction ds arbitrary: st s)
    case (Cons d ds)
    obtain st1 s1 where one: "processDelta key h (deltaOf d) (st, s) = (None, st1, s1)"
        and rest: "processDeltas key h ds (st1, s1) = (Processed, st', s')"
      using Cons.prems(1) by (auto split: prod.splits option.splits)
    have "deltaKeyOf key d = k" using Cons.prems(3) by simp
    note st1 = step [OF one this Cons.prems(4)]
    show ?case
    proof (cases "ds = []")
      case True
      then show ?thesis using rest st1 by simp
    next
      case False
      with Cons.IH [OF rest False] Cons.prems(3) st1 show ?thesis by (auto simp: fun_eq_iff)
    qed
  qed simp
  then show "map_of st' = (map_of st)(k := afterDelta (last ds))" and "keyed key st'" by blast+
qed

text \<open>The handler of the controllers panics on a missed deletion and on nothing else.\<close>

lemma processDeltas_trigger:
  assumes "list_all (\<lambda>d. \<not> missed (deltaOf d)) ds"
  shows "\<exists>st' s'. processDeltas key (NewTriggerOnAllChanges deepEqual trigger) ds (st, s) = (Processed, st', s')"
  using assms by (induction ds arbitrary: st s) (simp_all add: processDelta_trigger)

lemma processDeltas_panic:
  "fst (processDeltas key (NewTriggerOnAllChanges deepEqual trigger) ds st) = Panicked p \<Longrightarrow> p = TypeAssertion"
proof (induction ds arbitrary: st)
  case (Cons d ds)
  obtain m s where "st = (m, s)" by fastforce
  then show ?case using Cons.prems Cons.IH by (auto simp: processDelta_trigger split: if_splits)
qed simp

lemma processDeltas_result: "fst (processDeltas key h ds st) = Processed \<or> (\<exists>p. fst (processDeltas key h ds st) = Panicked p)"
  by (induction ds arbitrary: st) (auto split: prod.split option.split)

lemma processNext_first:
  assumes inv: "fifo_inv key (ifQueue ifm)" and queue: "fifoQueue (ifQueue ifm) = k # rest" and "keyed key (ifStore ifm)"
    and "processNext key h ifm = Some (Popped ds e, ifm')"
  shows "ds = itemsAt (ifQueue ifm) k \<and> e = None \<and> fifo_inv key (ifQueue ifm') \<and> fifoQueue (ifQueue ifm') = rest \<and>
    populated (ifQueue ifm') = populated (ifQueue ifm) \<and>
    initialPopulationCount (ifQueue ifm') = initialPopulationCount (ifQueue ifm) - 1 \<and>
    willHold (ifQueue ifm') (ifStore ifm') = willHold (ifQueue ifm) (ifStore ifm) \<and> keyed key (ifStore ifm') \<and>
    ifReflector ifm' = ifReflector ifm \<and> (no_missed (ifQueue ifm) \<longrightarrow> no_missed (ifQueue ifm'))"
proof -
  let ?f = "ifQueue ifm" and ?ds = "itemsAt (ifQueue ifm) k"
  have ds: "?ds \<noteq> []" "\<forall>d \<in> set ?ds. deltaKeyOf key d = k"
    using itemsAt_nonempty [OF inv] itemsAt_keys [OF inv] queue by auto
  then have "fate ?f k = Some (afterDelta (last ?ds))" by (simp add: fate_def Newest_last)
  obtain r st s where proc: "processDeltas key h ?ds (ifStore ifm, ifOwner ifm) = (r, st, s)" by (metis prod_cases3)
  then have "r = Processed \<or> (\<exists>p. r = Panicked p)" using processDeltas_result [of key h ?ds "(ifStore ifm, ifOwner ifm)"] by simp
  moreover from Pop_first [OF inv queue, of "processDeltas key h" "(ifStore ifm, ifOwner ifm)"] obtain f' where
    pop: "Pop (processDeltas key h) ?f (ifStore ifm, ifOwner ifm) = Some (case (r, st, s) of
        (Processed, s') \<Rightarrow> (Popped ?ds None, f', s')
      | (ProcessFailed err, s') \<Rightarrow> (Popped ?ds (Some err), f', s')
      | (ErrRequeue err, s') \<Rightarrow> (Popped ?ds (Some err), addIfNotPresent k ?ds f', s')
      | (Panicked p, s') \<Rightarrow> (PopPanic p, f', s'))"
    and f': "fifo_inv key f'" "fifoQueue f' = rest" "populated f' = populated ?f"
      "initialPopulationCount f' = initialPopulationCount ?f - 1" "fate f' = (fate ?f)(k := None)"
      "set (fifoItems f') \<subseteq> set (fifoItems ?f)"
    unfolding proc by (elim exE conjE) (rule that)
  ultimately have res: "r = Processed" "ds = ?ds" "e = None" "ifm' = ifm\<lparr>ifQueue := f', ifStore := st, ifOwner := s\<rparr>"
    using assms(4) by (auto simp: processNext_def)
  have st: "map_of st = (map_of (ifStore ifm))(k := afterDelta (last ?ds))" "keyed key st"
    using processDeltas_store [OF proc [unfolded res(1)] ds assms(3)] by simp_all
  have "willHold f' st = willHold ?f (ifStore ifm)"
    using st(1) f'(5) \<open>fate ?f k = _\<close> by (auto simp: willHold_def fun_eq_iff split: option.split)
  moreover have "no_missed ?f \<longrightarrow> no_missed f'" using f'(6) unfolding no_missed_def list_all_iff by blast
  ultimately show ?thesis using f' st(2) res by simp
qed

lemma processNext_state:
  assumes "fifo_inv key (ifQueue ifm)" and "fifoQueue (ifQueue ifm) = k # rest" and "processNext key h ifm = Some (r, ifm')"
  shows "\<exists>res. processDeltas key h (itemsAt (ifQueue ifm) k) (ifStore ifm, ifOwner ifm) = (res, ifStore ifm', ifOwner ifm')"
proof -
  obtain res st s where proc: "processDeltas key h (itemsAt (ifQueue ifm) k) (ifStore ifm, ifOwner ifm) = (res, st, s)"
    by (metis prod_cases3)
  then show ?thesis
    using Pop_first [OF assms(1,2), of "processDeltas key h" "(ifStore ifm, ifOwner ifm)"] assms(3)
    by (cases res) (auto simp: processNext_def)
qed

section \<open>Runs against an API server\<close>

text \<open>
  The server keeps a log of the changes of its objects. After \<open>n\<close> changes its resource version is
  \<open>ver n\<close>, and the object of the change that follows carries the version \<open>ver (n + 1)\<close>. A list returns
  the objects after some number of changes, not always the latest, because the reflector asks for
  version 0; a watch from a version delivers the changes after it, in order, until it ends.
  The history records how often the reflector listed, the keys of the first list, what was
  processed, and whether every list came at a moment when it was safe.
\<close>

record ('o, 's) world =
  wLog :: "'o watchEvent list"
  wPos :: nat
  wLists :: nat
  wInitial :: "string list"
  wProcessed :: "'o Deltas list"
  wSafe :: bool
  wInformer :: "('o, 's) Informer"

definition serverContents :: "('o \<Rightarrow> string) \<Rightarrow> 'o watchEvent list \<Rightarrow> string \<Rightarrow> 'o option" where
  "serverContents key log = foldl (\<lambda>m ev. applyEvent key ev m) Map.empty log"

definition newWorld :: "('o \<Rightarrow> string) \<Rightarrow> int \<Rightarrow> 's \<Rightarrow> ('o, 's) world" where
  "newWorld key period owner =
     \<lparr>wLog = [], wPos = 0, wLists = 0, wInitial = [], wProcessed = [], wSafe = True,
      wInformer = NewInformer key period owner\<rparr>"

inductive informer_run ::
  "('o \<Rightarrow> string) \<Rightarrow> ('o \<Rightarrow> string) \<Rightarrow> ('o, 's) ResourceEventHandlerFuncs \<Rightarrow> (nat \<Rightarrow> string) \<Rightarrow> ('o, 's) world \<Rightarrow> ('o, 's) world \<Rightarrow> bool"
  for key version h ver w0 where
  run_start: "informer_run key version h ver w0 w0"
| run_change: "informer_run key version h ver w0 w \<Longrightarrow> evType ev \<in> {''ADDED'', ''MODIFIED'', ''DELETED''} \<Longrightarrow>
    evObject ev = Some obj \<Longrightarrow> version obj = ver (Suc (length (wLog w))) \<Longrightarrow>
    informer_run key version h ver w0 (w\<lparr>wLog := wLog w @ [ev]\<rparr>)"
| run_list: "informer_run key version h ver w0 w \<Longrightarrow> n \<le> length (wLog w) \<Longrightarrow> distinct (map key items) \<Longrightarrow>
    byKey key items = serverContents key (take n (wLog w)) \<Longrightarrow>
    informerInput version (ListReturned items (ver n)) (wInformer w) = Some ifm \<Longrightarrow>
    informer_run key version h ver w0 (w\<lparr>wPos := n, wLists := Suc (wLists w),
      wInitial := (if wLists w = 0 then map key items else wInitial w),
      wSafe := (wSafe w \<and> list_safe key (ifQueue (wInformer w)) (ifStore (wInformer w)) items), wInformer := ifm\<rparr>)"
| run_watch: "informer_run key version h ver w0 w \<Longrightarrow> rfPhase (ifReflector (wInformer w)) = OpeningWatch (ver n) \<Longrightarrow>
    n \<le> length (wLog w) \<Longrightarrow> informerInput version (WatchOpened now) (wInformer w) = Some ifm \<Longrightarrow>
    informer_run key version h ver w0 (w\<lparr>wPos := n, wInformer := ifm\<rparr>)"
| run_event: "informer_run key version h ver w0 w \<Longrightarrow> wPos w < length (wLog w) \<Longrightarrow>
    informerInput version (Event (wLog w ! wPos w)) (wInformer w) = Some ifm \<Longrightarrow>
    informer_run key version h ver w0 (w\<lparr>wPos := Suc (wPos w), wInformer := ifm\<rparr>)"
| run_silent: "informer_run key version h ver w0 w \<Longrightarrow> silent inp \<Longrightarrow> informerInput version inp (wInformer w) = Some ifm \<Longrightarrow>
    informer_run key version h ver w0 (w\<lparr>wInformer := ifm\<rparr>)"
| run_process: "informer_run key version h ver w0 w \<Longrightarrow> processNext key h (wInformer w) = Some (Popped ds e, ifm) \<Longrightarrow>
    informer_run key version h ver w0 (w\<lparr>wProcessed := wProcessed w @ [ds], wInformer := ifm\<rparr>)"

subsection \<open>The invariant\<close>

definition log_ok :: "('o \<Rightarrow> string) \<Rightarrow> (nat \<Rightarrow> string) \<Rightarrow> 'o watchEvent list \<Rightarrow> bool" where
  "log_ok version ver log \<longleftrightarrow> (\<forall>i < length log. evType (log ! i) \<noteq> ''ERROR'' \<and>
     (\<exists>obj. evObject (log ! i) = Some obj \<and> version obj = ver (Suc i)))"

text \<open>Before the first list nothing happened, after it the queue is populated.\<close>

definition fresh :: "('o, 's) Informer \<Rightarrow> bool" where
  "fresh ifm \<longleftrightarrow> rfPhase (ifReflector ifm) = Listing \<and> fifoQueue (ifQueue ifm) = [] \<and> ifStore ifm = [] \<and> \<not> populated (ifQueue ifm)"

definition first_list_kept :: "('o \<Rightarrow> string) \<Rightarrow> ('o, 's) world \<Rightarrow> bool" where
  "first_list_kept key w \<longleftrightarrow> populated (ifQueue (wInformer w)) \<and>
     set (wInitial w) \<subseteq> (\<lambda>ds. deltaKeyOf key (hd ds)) ` set (wProcessed w) \<union>
       set (take (initialPopulationCount (ifQueue (wInformer w))) (fifoQueue (ifQueue (wInformer w))))"

definition world_inv :: "('o \<Rightarrow> string) \<Rightarrow> ('o \<Rightarrow> string) \<Rightarrow> (nat \<Rightarrow> string) \<Rightarrow> ('o, 's) world \<Rightarrow> bool" where
  "world_inv key version ver w \<longleftrightarrow>
     fifo_inv key (ifQueue (wInformer w)) \<and> keyed key (ifStore (wInformer w)) \<and>
     log_ok version ver (wLog w) \<and> wPos w \<le> length (wLog w) \<and>
     at_version (ver (wPos w)) (rfPhase (ifReflector (wInformer w))) \<and>
     (if wLists w = 0 then fresh (wInformer w) else first_list_kept key w) \<and>
     (wSafe w \<and> wLists w \<noteq> 0 \<longrightarrow>
        willHold (ifQueue (wInformer w)) (ifStore (wInformer w)) = serverContents key (take (wPos w) (wLog w))) \<and>
     (wLists w \<le> 1 \<longrightarrow> no_missed (ifQueue (wInformer w)) \<and> list_all (list_all (\<lambda>d. \<not> missed (deltaOf d))) (wProcessed w))"

lemma serverContents_snoc: "serverContents key (log @ [ev]) = applyEvent key ev (serverContents key log)"
  by (simp add: serverContents_def)

lemma world_inv_new: "world_inv key version ver (newWorld key period owner)"
  by (simp add: world_inv_def newWorld_def NewInformer_def fresh_def NewReflector_def log_ok_def at_version_def
      no_missed_def) (simp add: NewDeltaFIFO_def)

lemma world_inv_change:
  assumes "world_inv key version ver w" and "evType ev \<in> {''ADDED'', ''MODIFIED'', ''DELETED''}"
    and "evObject ev = Some obj" and "version obj = ver (Suc (length (wLog w)))"
  shows "world_inv key version ver (w\<lparr>wLog := wLog w @ [ev]\<rparr>)"
proof -
  have "log_ok version ver (wLog w @ [ev])"
    using assms by (auto simp: world_inv_def log_ok_def nth_append less_Suc_eq)
  then show ?thesis using assms(1) by (auto simp: world_inv_def first_list_kept_def fresh_def)
qed

lemma no_missed_close [simp]: "no_missed (fifoClose f) = no_missed f"
  by (simp add: no_missed_def fifoClose_def)

lemma first_list_extends:
  assumes "first_list_kept key w" and "extends (ifQueue (wInformer w)) (ifQueue ifm)"
    and "wInformer w' = ifm" and "wInitial w' = wInitial w" and "wProcessed w' = wProcessed w"
  shows "first_list_kept key w'"
  using assms by (auto simp: first_list_kept_def extends_def)

lemma informerInputE:
  assumes "informerInput version inp ifm = Some ifm'"
  obtains r f where "reflectorStep (fifoStore (ifStore ifm)) version inp (ifReflector ifm, ifQueue ifm) = Some (r, f)"
    "ifm' = ifm\<lparr>ifReflector := r, ifQueue := (if inp = StopRequested then fifoClose f else f)\<rparr>"
  using assms by (auto simp: informerInput_def split: option.splits rfInput.splits)

lemma fresh_silent:
  assumes "reflectorStep (fifoStore []) version inp (r, q) = Some (r', q')" and "silent inp" and "rfPhase r = Listing"
  shows "q' = q"
  using assms by (cases inp) (auto simp: reflectorStep_def fifoStore_def fifoResync_def silent_def split: if_splits)

lemma world_inv_silent:
  assumes inv: "world_inv key version ver w" and silent: "silent inp"
    and step: "informerInput version inp (wInformer w) = Some ifm"
  shows "world_inv key version ver (w\<lparr>wInformer := ifm\<rparr>)"
proof -
  let ?i = "wInformer w"
  from step obtain r f where r: "reflectorStep (fifoStore (ifStore ?i)) version inp (ifReflector ?i, ifQueue ?i) = Some (r, f)"
      "ifm = ?i\<lparr>ifReflector := r, ifQueue := (if inp = StopRequested then fifoClose f else f)\<rparr>"
    by (rule informerInputE)
  have view: "fifo_inv key f" "extends (ifQueue ?i) f" "no_missed (ifQueue ?i) \<longrightarrow> no_missed f"
      "willHold f (ifStore ?i) = willHold (ifQueue ?i) (ifStore ?i)" "at_version (ver (wPos w)) (rfPhase r)"
      "rfPhase (ifReflector ?i) = Listing \<longrightarrow> rfPhase r = Listing"
    using fifo.reflectorStep_silent [OF _ silent _ r(1), where rv = "ver (wPos w)"] inv by (auto simp: world_inv_def)
  have "fresh ?i \<Longrightarrow> f = ifQueue ?i" using fresh_silent [OF _ silent, of version "ifReflector ?i" "ifQueue ?i"] r(1) by (simp add: fresh_def)
  then have "fresh ?i \<Longrightarrow> fresh ifm" using r(2) view(6) by (simp add: fresh_def fifoClose_def)
  moreover have "first_list_kept key w \<Longrightarrow> first_list_kept key (w\<lparr>wInformer := ifm\<rparr>)"
    using first_list_extends [of key w ifm] view(2) by (simp add: r(2))
  ultimately show ?thesis using inv view r(2) by (auto simp: world_inv_def)
qed

lemma world_inv_watch:
  assumes inv: "world_inv key version ver w" and "rfPhase (ifReflector (wInformer w)) = OpeningWatch (ver n)"
    and "inj ver" and step: "informerInput version (WatchOpened now) (wInformer w) = Some ifm"
  shows "world_inv key version ver (w\<lparr>wPos := n, wInformer := ifm\<rparr>)"
proof -
  have "n = wPos w" using assms(1-3) by (auto simp: world_inv_def at_version_def dest: injD)
  moreover have "ifm = (wInformer w)\<lparr>ifReflector := (ifReflector (wInformer w))\<lparr>rfPhase := Watching (ver n) now 0\<rparr>\<rparr>"
    using step assms(2) by (simp add: informerInput_def reflectorStep_def)
  moreover have "wLists w \<noteq> 0" using inv assms(2) by (auto simp: world_inv_def fresh_def split: if_splits)
  ultimately show ?thesis
    using inv assms(2) by (simp add: world_inv_def at_version_def first_list_kept_def)
qed

lemma world_inv_event:
  assumes inv: "world_inv key version ver w" and pos: "wPos w < length (wLog w)"
    and step: "informerInput version (Event (wLog w ! wPos w)) (wInformer w) = Some ifm"
  shows "world_inv key version ver (w\<lparr>wPos := Suc (wPos w), wInformer := ifm\<rparr>)"
proof -
  let ?i = "wInformer w" and ?ev = "wLog w ! wPos w"
  obtain obj where obj: "evType ?ev \<noteq> ''ERROR''" "evObject ?ev = Some obj" "version obj = ver (Suc (wPos w))"
    using inv pos by (auto simp: world_inv_def log_ok_def)
  from step obtain r f where r: "reflectorStep (fifoStore (ifStore ?i)) version (Event ?ev) (ifReflector ?i, ifQueue ?i) = Some (r, f)"
      "ifm = ?i\<lparr>ifReflector := r, ifQueue := f\<rparr>"
    by (auto elim!: informerInputE)
  have view: "fifo_inv key f" "extends (ifQueue ?i) f" "no_missed (ifQueue ?i) \<longrightarrow> no_missed f"
      "willHold f (ifStore ?i) = applyEvent key ?ev (willHold (ifQueue ?i) (ifStore ?i))"
      "at_version (ver (Suc (wPos w))) (rfPhase r)"
    using fifo.reflectorStep_event [OF _ obj(1,2) r(1)] inv obj(3) by (auto simp: world_inv_def)
  have "wLists w \<noteq> 0"
    using r(1) inv by (auto simp: world_inv_def fresh_def reflectorStep_def split: if_splits)
  moreover have "first_list_kept key w \<Longrightarrow> first_list_kept key (w\<lparr>wPos := Suc (wPos w), wInformer := ifm\<rparr>)"
    using first_list_extends [of key w ifm] view(2) by (simp add: r(2))
  moreover have "serverContents key (take (Suc (wPos w)) (wLog w)) = applyEvent key ?ev (serverContents key (take (wPos w) (wLog w)))"
    using pos by (simp add: take_Suc_conv_app_nth serverContents_snoc)
  ultimately show ?thesis using inv view r(2) pos by (auto simp: world_inv_def)
qed

lemma no_missed_first_list:
  assumes "fifo_inv key f" and "no_missed f"
  shows "no_missed (snd (fifoReplace (Some []) items f))"
proof -
  have "no_missed (snd (snd (for_each_state replaceItem items (keys, f))))" for keys
    using assms
  proof (induction items arbitrary: f keys)
    case (Cons obj items)
    from queueActionE [OF Cons.prems(1), of "SyncDelta obj"] obtain f1 where
      f1: "queueActionLocked (SyncDelta obj) f = (None, f1)" "fifo_inv key f1" by metis
    moreover have "no_missed f1" using no_missed_action [OF Cons.prems, of "SyncDelta obj"] f1(1) by simp
    ultimately show ?case
      using Cons.IH [of f1] KeyOf_total [OF Cons.prems(1), of "SyncDelta obj"] by (simp add: replaceItem_def)
  qed simp
  then have loop: "no_missed g" if "for_each_state replaceItem items ([], f) = (e, keys, g)" for e keys g
    using that by (metis snd_conv)
  show ?thesis using loop by (auto simp: fifoReplace_def split: prod.split option.split)
qed

lemma world_inv_list:
  assumes inv: "world_inv key version ver w" and n: "n \<le> length (wLog w)" and dist: "distinct (map key items)"
    and contents: "byKey key items = serverContents key (take n (wLog w))"
    and step: "informerInput version (ListReturned items (ver n)) (wInformer w) = Some ifm"
  shows "world_inv key version ver (w\<lparr>wPos := n, wLists := Suc (wLists w),
    wInitial := (if wLists w = 0 then map key items else wInitial w),
    wSafe := (wSafe w \<and> list_safe key (ifQueue (wInformer w)) (ifStore (wInformer w)) items), wInformer := ifm\<rparr>)"
    (is "world_inv key version ver ?w")
proof -
  let ?i = "wInformer w"
  have pre: "fifo_inv key (ifQueue ?i)" "keyed key (ifStore ?i)" using inv by (auto simp: world_inv_def)
  from step obtain r f where
    r: "reflectorStep (fifoStore (ifStore ?i)) version (ListReturned items (ver n)) (ifReflector ?i, ifQueue ?i) = Some (r, f)"
      "ifm = ?i\<lparr>ifReflector := r, ifQueue := f\<rparr>"
    by (auto elim!: informerInputE)
  have view: "fifo_inv key f" "rfPhase r = OpeningWatch (ver n)" "fifoReplace (Some (ifStore ?i)) items (ifQueue ?i) = (None, f)"
      "list_safe key (ifQueue ?i) (ifStore ?i) items \<longrightarrow> willHold f (ifStore ?i) = byKey key items"
    using fifo.reflectorStep_list [OF _ dist r(1)] pre by (auto simp: fifoStore_def)
  from fifoReplace_fate [OF pre(1) dist, of "ifStore ?i"] view(3) obtain q where
    f: "populated f" "fifoQueue f = fifoQueue (ifQueue ?i) @ q" "key ` set items \<subseteq> set (fifoQueue f)"
      "initialPopulationCount f = (if populated (ifQueue ?i) then initialPopulationCount (ifQueue ?i)
         else length items + length (filter (\<lambda>k. k \<notin> key ` set items) (map fst (ifStore ?i))))"
      "length (fifoQueue f) \<le> length (fifoQueue (ifQueue ?i)) + length items +
         length (filter (\<lambda>k. k \<notin> key ` set items) (map fst (ifStore ?i)))"
    by auto
  have "first_list_kept key ?w"
  proof (cases "wLists w = 0")
    case True
    then have "fresh ?i" using inv by (simp add: world_inv_def)
    then show ?thesis using True f r(2) by (auto simp: first_list_kept_def fresh_def)
  next
    case False
    then have "first_list_kept key w" using inv by (simp add: world_inv_def)
    moreover have "extends (ifQueue ?i) f" using calculation f by (auto simp: extends_def first_list_kept_def)
    ultimately show ?thesis using False first_list_extends [of key w ifm ?w] r(2) by simp
  qed
  moreover have "no_missed f" if "wLists w = 0"
    using that inv no_missed_first_list [OF pre(1), of items] view(3) by (auto simp: world_inv_def fresh_def)
  ultimately show ?thesis
    using inv n view r(2) contents by (auto simp: world_inv_def at_version_def)
qed

lemma world_inv_process:
  assumes inv: "world_inv key version ver w" and step: "processNext key h (wInformer w) = Some (Popped ds e, ifm)"
  shows "world_inv key version ver (w\<lparr>wProcessed := wProcessed w @ [ds], wInformer := ifm\<rparr>)"
proof -
  let ?i = "wInformer w"
  have pre: "fifo_inv key (ifQueue ?i)" "keyed key (ifStore ?i)" using inv by (auto simp: world_inv_def)
  obtain k rest where queue: "fifoQueue (ifQueue ?i) = k # rest"
    using step Pop_empty [of "ifQueue ?i" "processDeltas key h"]
    by (cases "fifoQueue (ifQueue ?i)") (auto simp: processNext_def split: option.splits if_splits)
  note pop = processNext_first [OF pre(1) queue pre(2) step]
  then have "deltaKeyOf key (hd ds) = k"
    using itemsAt_nonempty [OF pre(1), of k] itemsAt_keys [OF pre(1), of "hd ds" k] queue by simp
  have "wLists w \<noteq> 0" using inv queue by (auto simp: world_inv_def fresh_def split: if_splits)
  moreover have "first_list_kept key w \<Longrightarrow> first_list_kept key (w\<lparr>wProcessed := wProcessed w @ [ds], wInformer := ifm\<rparr>)"
    using pop queue \<open>deltaKeyOf key (hd ds) = k\<close>
    by (cases "initialPopulationCount (ifQueue ?i)") (auto simp: first_list_kept_def)
  moreover have "no_missed (ifQueue ?i) \<Longrightarrow> list_all (\<lambda>d. \<not> missed (deltaOf d)) ds"
    using no_missed_itemsAt [of "ifQueue ?i" _ k] pop by (simp add: list_all_iff)
  ultimately show ?thesis using inv pop by (simp add: world_inv_def)
qed

lemma informer_run_inv:
  assumes "informer_run key version h ver (newWorld key period owner) w" and "inj ver"
  shows "world_inv key version ver w"
  using assms(1)
proof (induction rule: informer_run.induct)
  case run_start
  show ?case by (rule world_inv_new)
next
  case (run_change w ev obj)
  show ?case using world_inv_change [OF run_change.IH run_change.hyps(2-4)] .
next
  case (run_list w n items ifm)
  show ?case using world_inv_list [OF run_list.IH run_list.hyps(2-5)] .
next
  case (run_watch w n now ifm)
  show ?case using world_inv_watch [OF run_watch.IH run_watch.hyps(2) assms(2) run_watch.hyps(4)] .
next
  case (run_event w ifm)
  show ?case using world_inv_event [OF run_event.IH run_event.hyps(2,3)] .
next
  case (run_silent w inp ifm)
  show ?case using world_inv_silent [OF run_silent.IH run_silent.hyps(2,3)] .
next
  case (run_process w ds e ifm)
  show ?case using world_inv_process [OF run_process.IH run_process.hyps(2)] .
qed

section \<open>What the handlers get to see\<close>

lemma willHold_empty: "fifo_inv key f \<Longrightarrow> fifoQueue f = [] \<Longrightarrow> willHold f known = map_of known"
  using fate_None [of key f] by (simp add: fun_eq_iff willHold_def)

lemma first_list_safe:
  assumes "informer_run key version h ver (newWorld key period owner) w" and "inj ver" and "wLists w \<le> 1"
  shows "wSafe w"
  using assms(1,3)
proof (induction rule: informer_run.induct)
  case (run_list w n items ifm)
  then have "wLists w = 0" "wSafe w" by simp_all
  then have "fresh (wInformer w)" "fifo_inv key (ifQueue (wInformer w))"
    using informer_run_inv [OF run_list.hyps(1) assms(2)] by (auto simp: world_inv_def)
  then show ?case
    using list_safe_empty [of key "ifQueue (wInformer w)" "ifStore (wInformer w)" items] \<open>wSafe w\<close> by (simp add: fresh_def)
qed (simp_all add: newWorld_def)

lemma informer_run_trans:
  "informer_run key version h ver w1 w2 \<Longrightarrow> informer_run key version h ver w0 w1 \<Longrightarrow> informer_run key version h ver w0 w2"
  by (induction rule: informer_run.induct) (blast intro: informer_run.intros)+

lemma watching_event:
  assumes "rfPhase (ifReflector ifm) = Watching rv start n" and "evType ev \<noteq> ''ERROR''" and "evObject ev = Some obj"
  shows "\<exists>ifm' rv' n'. informerInput version (Event ev) ifm = Some ifm' \<and> rfPhase (ifReflector ifm') = Watching rv' start n'"
  using assms by (simp add: informerInput_def reflectorStep_def receiveEvent_def)

lemma deliver_all:
  assumes "world_inv key version ver w" and "rfPhase (ifReflector (wInformer w)) = Watching rv start n"
  shows "\<exists>w'. informer_run key version h ver w w' \<and> wLog w' = wLog w \<and> wPos w' = length (wLog w) \<and> wLists w' = wLists w \<and>
    wSafe w' = wSafe w"
  using assms
proof (induction "length (wLog w) - wPos w" arbitrary: w rv n)
  case 0
  then have "wPos w = length (wLog w)" by (simp add: world_inv_def)
  then show ?case using run_start by blast
next
  case (Suc m)
  let ?ev = "wLog w ! wPos w"
  have pos: "wPos w < length (wLog w)" using Suc.hyps(2) by simp
  then obtain obj where "evType ?ev \<noteq> ''ERROR''" "evObject ?ev = Some obj"
    using Suc.prems(1) by (auto simp: world_inv_def log_ok_def)
  with watching_event [OF Suc.prems(2), of ?ev obj version] obtain ifm rv' n' where
    step: "informerInput version (Event ?ev) (wInformer w) = Some ifm" "rfPhase (ifReflector ifm) = Watching rv' start n'" by blast
  let ?w = "w\<lparr>wPos := Suc (wPos w), wInformer := ifm\<rparr>"
  have "informer_run key version h ver w ?w" using run_event [OF run_start pos step(1)] .
  moreover have "m = length (wLog ?w) - wPos ?w" using Suc.hyps(2) by simp
  ultimately show ?case
    using Suc.hyps(1) [of ?w rv' n'] world_inv_event [OF Suc.prems(1) pos step(1)] step(2) informer_run_trans by fastforce
qed

lemma processNext_trigger:
  assumes inv: "fifo_inv key (ifQueue ifm)" and queue: "fifoQueue (ifQueue ifm) = k # rest" and "no_missed (ifQueue ifm)"
  shows "\<exists>ds ifm'. processNext key (NewTriggerOnAllChanges deepEqual trigger) ifm = Some (Popped ds None, ifm')"
proof -
  let ?h = "NewTriggerOnAllChanges deepEqual trigger" and ?ds = "itemsAt (ifQueue ifm) k"
  have "list_all (\<lambda>d. \<not> missed (deltaOf d)) ?ds" using no_missed_itemsAt [OF assms(3)] by (auto simp: list_all_iff)
  then obtain st s where "processDeltas key ?h ?ds (ifStore ifm, ifOwner ifm) = (Processed, st, s)"
    using processDeltas_trigger [of ?ds key deepEqual trigger "ifStore ifm" "ifOwner ifm"] by blast
  with Pop_first [OF inv queue, of "processDeltas key ?h" "(ifStore ifm, ifOwner ifm)"] show ?thesis
    by (auto simp: processNext_def)
qed

lemma drain_all:
  assumes "world_inv key version ver w" and "wLists w = 1"
  shows "\<exists>w'. informer_run key version (NewTriggerOnAllChanges deepEqual trigger) ver w w' \<and> wLog w' = wLog w \<and> wPos w' = wPos w \<and>
    wLists w' = 1 \<and> wSafe w' = wSafe w \<and> fifoQueue (ifQueue (wInformer w')) = [] \<and> world_inv key version ver w'"
  using assms
proof (induction "fifoQueue (ifQueue (wInformer w))" arbitrary: w)
  case Nil
  then show ?case using run_start by metis
next
  case (Cons k rest)
  let ?h = "NewTriggerOnAllChanges deepEqual trigger"
  have pre: "fifo_inv key (ifQueue (wInformer w))" "keyed key (ifStore (wInformer w))" "no_missed (ifQueue (wInformer w))"
    using Cons.prems by (auto simp: world_inv_def)
  from processNext_trigger [OF pre(1) Cons.hyps(2) [symmetric] pre(3)] obtain ds ifm where
    step: "processNext key ?h (wInformer w) = Some (Popped ds None, ifm)" by blast
  let ?w = "w\<lparr>wProcessed := wProcessed w @ [ds], wInformer := ifm\<rparr>"
  have "rest = fifoQueue (ifQueue (wInformer ?w))" using processNext_first [OF pre(1) Cons.hyps(2) [symmetric] pre(2) step] by simp
  moreover have "informer_run key version ?h ver w ?w" using run_process [OF run_start step] .
  ultimately show ?case
    using Cons.hyps(1) [of ?w] world_inv_process [OF Cons.prems(1) step] Cons.prems(2) informer_run_trans by fastforce
qed

lemma informer_mirror:
  assumes "world_inv key version ver w" and "wSafe w" and "wLists w \<noteq> 0" and "fifoQueue (ifQueue (wInformer w)) = []"
  shows "map_of (ifStore (wInformer w)) = serverContents key (take (wPos w) (wLog w))"
  using assms willHold_empty [of key "ifQueue (wInformer w)" "ifStore (wInformer w)"] by (simp add: world_inv_def)

section \<open>What the trigger has reported\<close>

text \<open>
  The last object that the trigger got for a key, up to the equality that the handler tests. It is
  always the object in the store, although updates that change nothing are not reported.
\<close>

definition last_reported :: "('o \<Rightarrow> string) \<Rightarrow> ('o \<Rightarrow> 'o \<Rightarrow> bool) \<Rightarrow> 'o list \<Rightarrow> 'o \<Rightarrow> bool" where
  "last_reported key deepEqual seen obj \<longleftrightarrow>
     (\<exists>xs c ys. seen = xs @ c # ys \<and> key c = key obj \<and> deepEqual c obj \<and> (\<forall>y \<in> set ys. key y \<noteq> key obj))"

definition all_reported :: "('o \<Rightarrow> string) \<Rightarrow> ('o \<Rightarrow> 'o \<Rightarrow> bool) \<Rightarrow> (string \<times> 'o) list \<times> 'o list \<Rightarrow> bool" where
  "all_reported key deepEqual = (\<lambda>(st, seen). \<forall>k obj. map_of st k = Some obj \<longrightarrow> k = key obj \<and> last_reported key deepEqual seen obj)"

lemma reportedD:
  "all_reported key deepEqual (st, seen) \<Longrightarrow> map_of st k = Some obj \<Longrightarrow> key obj = k \<and> last_reported key deepEqual seen obj"
  by (simp add: all_reported_def)

lemma last_reported_new: "deepEqual obj obj \<Longrightarrow> last_reported key deepEqual (seen @ [obj]) obj"
  unfolding last_reported_def by (intro exI [of _ seen] exI [of _ obj] exI [of _ "[]"]) simp

lemma last_reported_other:
  assumes "last_reported key deepEqual seen obj" and "key obj' \<noteq> key obj"
  shows "last_reported key deepEqual (seen @ [obj']) obj"
proof -
  obtain xs c ys where "seen = xs @ c # ys" "key c = key obj" "deepEqual c obj" "\<forall>y \<in> set ys. key y \<noteq> key obj"
    using assms(1) by (auto simp: last_reported_def)
  then have "seen @ [obj'] = xs @ c # (ys @ [obj'])" "\<forall>y \<in> set (ys @ [obj']). key y \<noteq> key obj" using assms(2) by auto
  with \<open>key c = key obj\<close> \<open>deepEqual c obj\<close> show ?thesis unfolding last_reported_def by blast
qed

lemma processDelta_reported:
  assumes "processDelta key (NewTriggerOnAllChanges deepEqual (\<lambda>obj seen. seen @ [obj])) d (st, seen) = (p, st', seen')"
    and "all_reported key deepEqual (st, seen)" and refl: "reflp deepEqual" and trans: "transp deepEqual"
  shows "all_reported key deepEqual (st', seen')"
proof (cases d)
  case (Sync obj)
  have kept: "last_reported key deepEqual (seen @ [obj]) o'" if "map_of st k = Some o'" "k \<noteq> key obj" for k o'
    using that assms(2) last_reported_other [of key deepEqual seen o' obj] by (simp add: all_reported_def)
  show ?thesis
  proof (cases "\<exists>old. map_of st (key obj) = Some old \<and> deepEqual old obj")
    case True
    then obtain old where old: "map_of st (key obj) = Some old" "deepEqual old obj" by blast
    then have "last_reported key deepEqual seen old" "key old = key obj" using assms(2) by (auto simp: all_reported_def)
    then have "last_reported key deepEqual seen obj" using old(2) transpD [OF trans] unfolding last_reported_def by metis
    then show ?thesis using assms(1,2) Sync old by (auto simp: processDelta_trigger storeDelta_def triggers_def all_reported_def split: if_splits)
  next
    case False
    then have "st' = map_put (key obj) obj st" "seen' = seen @ [obj]"
      using assms(1) Sync by (auto simp: processDelta_trigger storeDelta_def triggers_def split: option.splits)
    moreover have "last_reported key deepEqual (seen @ [obj]) obj" using last_reported_new reflpD [OF refl] by metis
    ultimately show ?thesis using assms(2) kept by (simp add: all_reported_def)
  qed
next
  case (Removed old)
  show ?thesis
  proof (cases old)
    case (Deleted obj)
    have "last_reported key deepEqual (seen @ [obj]) o'" if "map_of st k = Some o'" "k \<noteq> key obj" for k o'
      using that assms(2) last_reported_other [of key deepEqual seen o' obj] by (simp add: all_reported_def)
    then show ?thesis
      using assms(1,2) Removed Deleted by (auto simp: processDelta_trigger storeDelta_def triggers_def all_reported_def split: if_splits)
  qed (use assms(1,2) Removed in \<open>auto simp: processDelta_trigger storeDelta_def triggers_def all_reported_def split: if_splits\<close>)
qed

lemma processDeltas_reported:
  assumes "processDeltas key (NewTriggerOnAllChanges deepEqual (\<lambda>obj seen. seen @ [obj])) ds (st, seen) = (r, st', seen')"
    and "all_reported key deepEqual (st, seen)" and refl: "reflp deepEqual" and trans: "transp deepEqual"
  shows "all_reported key deepEqual (st', seen')"
  using assms(1,2)
proof (induction ds arbitrary: st seen)
  case (Cons d ds)
  obtain p st1 seen1 where one: "processDelta key (NewTriggerOnAllChanges deepEqual (\<lambda>obj seen. seen @ [obj])) (deltaOf d) (st, seen) = (p, st1, seen1)"
    by (metis prod_cases3)
  have "all_reported key deepEqual (st1, seen1)" by (rule processDelta_reported [OF one Cons.prems(2) refl trans])
  then show ?case using Cons.IH [of st1 seen1] Cons.prems(1) one by (cases p) auto
qed simp

lemma informer_reported:
  assumes "informer_run key version (NewTriggerOnAllChanges deepEqual (\<lambda>obj seen. seen @ [obj])) ver (newWorld key period []) w"
    and "inj ver" and refl: "reflp deepEqual" and trans: "transp deepEqual"
  shows "all_reported key deepEqual (ifStore (wInformer w), ifOwner (wInformer w))"
  using assms(1)
proof (induction rule: informer_run.induct)
  case run_start
  show ?case by (simp add: newWorld_def NewInformer_def all_reported_def)
next
  case (run_process w ds e ifm)
  let ?h = "NewTriggerOnAllChanges deepEqual (\<lambda>obj seen. seen @ [obj])"
  obtain k rest where "fifo_inv key (ifQueue (wInformer w))" "fifoQueue (ifQueue (wInformer w)) = k # rest"
    using informer_run_inv [OF run_process.hyps(1) assms(2)] run_process.hyps(2) Pop_empty [of "ifQueue (wInformer w)" "processDeltas key ?h"]
    by (cases "fifoQueue (ifQueue (wInformer w))") (auto simp: world_inv_def processNext_def split: option.splits if_splits)
  from processNext_state [OF this run_process.hyps(2)] obtain res where
    "processDeltas key ?h (itemsAt (ifQueue (wInformer w)) k) (ifStore (wInformer w), ifOwner (wInformer w)) =
      (res, ifStore ifm, ifOwner ifm)" by blast
  from processDeltas_reported [OF this run_process.IH refl trans] show ?case by simp
qed (auto elim!: informerInputE)

section \<open>Properties\<close>



text \<open>
  C17. A list replaces what the informer will hold by exactly the listed objects if and only if no deletion of
  a listed object and no addition of an object that is gone are waiting in the queue. Otherwise an
  object that was created again stays missing, or an object that was deleted stays in the store.
\<close>

theorem relist_exact:
  assumes "fifo_reach key f" and "distinct (map key items)" and "fifoReplace (Some known) items f = (e, f')"
  shows "willHold f' known = byKey key items \<longleftrightarrow> list_safe key f known items"
  using fifoReplace_willHold [OF fifo_reach_inv [OF assms(1)] assms(2,3)] .

text \<open>
  C18. The handlers of the controllers panic only on the failed type assertion of a missed deletion, and only
  when the reflector has listed again.
\<close>

theorem informer_panics:
  assumes "informer_run key version (NewTriggerOnAllChanges deepEqual trigger) ver (newWorld key period owner) w" and "inj ver"
    and "processNext key (NewTriggerOnAllChanges deepEqual trigger) (wInformer w) = Some (PopPanic p, ifm)"
  shows "p = TypeAssertion \<and> 2 \<le> wLists w"
proof -
  let ?h = "NewTriggerOnAllChanges deepEqual trigger" and ?i = "wInformer w"
  note inv = informer_run_inv [OF assms(1,2)]
  then have pre: "fifo_inv key (ifQueue ?i)" by (simp add: world_inv_def)
  obtain k rest where queue: "fifoQueue (ifQueue ?i) = k # rest"
    using assms(3) Pop_empty [of "ifQueue ?i" "processDeltas key ?h"]
    by (cases "fifoQueue (ifQueue ?i)") (auto simp: processNext_def split: option.splits if_splits)
  have "\<not> no_missed (ifQueue ?i)"
    using processNext_trigger [OF pre queue, of deepEqual trigger] assms(3) by auto
  then have "2 \<le> wLists w" using inv by (auto simp: world_inv_def)
  moreover have "p = TypeAssertion"
    using assms(3) by (auto simp: processNext_def split: option.splits dest!: Pop_panics [OF pre queue] processDeltas_panic)
  ultimately show ?thesis by blast
qed

text \<open>
  C19. Once an informer counts as synced, every object of its first list has been processed, so the
  controllers do not act on a store that is still being filled.
\<close>

theorem synced_after_first_list:
  assumes "informer_run key version h ver (newWorld key period owner) w" and "inj ver" and "informerHasSynced (wInformer w)"
  shows "wLists w \<noteq> 0 \<and> set (wInitial w) \<subseteq> (\<lambda>ds. deltaKeyOf key (hd ds)) ` set (wProcessed w)"
  using informer_run_inv [OF assms(1,2)] assms(3)
  by (auto simp: world_inv_def informerHasSynced_def HasSynced_def fresh_def first_list_kept_def split: if_splits)

section \<open>Examples\<close>

definition exIngressAt :: "string \<Rightarrow> Ingress" where
  "exIngressAt rv = zeroIngress\<lparr>inMeta := zeroMeta\<lparr>omName := ''web'', omNamespace := ''default'', omResourceVersion := rv\<rparr>\<rparr>"

abbreviation ingressKey :: "Ingress \<Rightarrow> string" where
  "ingressKey i \<equiv> MetaNamespaceKey (inMeta i)"

abbreviation ingressVersion :: "Ingress \<Rightarrow> string" where
  "ingressVersion i \<equiv> omResourceVersion (inMeta i)"

abbreviation exTrigger :: "(Ingress, Ingress list) ResourceEventHandlerFuncs" where
  "exTrigger \<equiv> NewTriggerOnAllChanges deepEqualIngress (\<lambda>i seen. seen @ [i])"

lemma inj_Uitoa: "inj Uitoa"
  by (rule injI) (metis Uitoa_ParseUint option.inject)

text \<open>An ingress is created, listed and processed.\<close>

definition exCreated :: "(Ingress, Ingress list) world" where
  "exCreated = (newWorld ingressKey 30000000000 [])\<lparr>wLog := [\<lparr>evType = ''ADDED'', evObject = Some (exIngressAt ''1'')\<rparr>]\<rparr>"

definition exListed :: "(Ingress, Ingress list) world" where
  "exListed = exCreated\<lparr>wPos := 1, wLists := 1, wInitial := [''default/web''],
     wInformer := the (informerInput ingressVersion (ListReturned [exIngressAt ''1''] (Uitoa 1)) (wInformer exCreated))\<rparr>"

definition exProcessed :: "(Ingress, Ingress list) world" where
  "exProcessed = exListed\<lparr>wProcessed := [[SyncDelta (exIngressAt ''1'')]],
     wInformer := snd (the (processNext ingressKey exTrigger (wInformer exListed)))\<rparr>"

text \<open>Informers hold functions and have no executable equality, so the examples compare what they answer.\<close>

lemma some_the: "Option.is_none x = False \<Longrightarrow> x = Some (the x)"
  by (cases x) auto

lemma some_fst: "map_option fst x = Some a \<Longrightarrow> x = Some (a, snd (the x))"
  by (cases x) auto

lemma exRun_created: "informer_run ingressKey ingressVersion exTrigger Uitoa (newWorld ingressKey 30000000000 []) exCreated"
proof -
  let ?ev = "\<lparr>evType = ''ADDED'', evObject = Some (exIngressAt ''1'')\<rparr>" and ?w = "newWorld ingressKey 30000000000 []"
  have "ingressVersion (exIngressAt ''1'') = Uitoa (Suc (length (wLog ?w)))" by code_simp
  from run_change [OF run_start, of ?ev "exIngressAt ''1''" ingressVersion Uitoa ?w] this
  show ?thesis by (simp add: exCreated_def) (simp add: newWorld_def)
qed

lemma exRun_listed: "informer_run ingressKey ingressVersion exTrigger Uitoa (newWorld ingressKey 30000000000 []) exListed"
proof -
  have "informerInput ingressVersion (ListReturned [exIngressAt ''1''] (Uitoa 1)) (wInformer exCreated) = Some (wInformer exListed)"
    unfolding exListed_def by simp (rule some_the, code_simp)
  moreover have "byKey ingressKey [exIngressAt ''1''] = serverContents ingressKey (take 1 (wLog exCreated))"
    by (simp add: exCreated_def serverContents_def applyEvent_def)
  moreover have "list_safe ingressKey (ifQueue (wInformer exCreated)) (ifStore (wInformer exCreated)) [exIngressAt ''1'']"
    by code_simp
  moreover have "map ingressKey [exIngressAt ''1''] = [''default/web'']" by code_simp
  ultimately show ?thesis
    using run_list [OF exRun_created, of 1 "[exIngressAt ''1'']" "wInformer exListed"]
    by (simp add: exListed_def exCreated_def newWorld_def)
qed

lemma exRun_processed: "informer_run ingressKey ingressVersion exTrigger Uitoa (newWorld ingressKey 30000000000 []) exProcessed"
proof -
  have "map_option fst (processNext ingressKey exTrigger (wInformer exListed)) = Some (Popped [SyncDelta (exIngressAt ''1'')] None)"
    by code_simp
  from run_process [OF exRun_listed some_fst [OF this]] show ?thesis
    by (simp add: exProcessed_def) (simp add: exListed_def exCreated_def newWorld_def)
qed

text \<open>The watch is opened and breaks, the ingress is deleted meanwhile, and the reflector lists again.\<close>

definition exWatching :: "(Ingress, Ingress list) world" where
  "exWatching = exProcessed\<lparr>wInformer := the (informerInput ingressVersion (WatchOpened 0) (wInformer exProcessed))\<rparr>"

definition exBroken :: "(Ingress, Ingress list) world" where
  "exBroken = exWatching\<lparr>wInformer :=
     the (informerInput ingressVersion (Event \<lparr>evType = ''ERROR'', evObject = None\<rparr>) (wInformer exWatching))\<rparr>"

definition exDeleted :: "(Ingress, Ingress list) world" where
  "exDeleted = exBroken\<lparr>wLog := wLog exBroken @ [\<lparr>evType = ''DELETED'', evObject = Some (exIngressAt ''2'')\<rparr>]\<rparr>"

definition exRelisted :: "(Ingress, Ingress list) world" where
  "exRelisted = exDeleted\<lparr>wPos := 2, wLists := 2,
     wInformer := the (informerInput ingressVersion (ListReturned [] (Uitoa 2)) (wInformer exDeleted))\<rparr>"

lemmas ex_worlds = exRelisted_def exDeleted_def exBroken_def exWatching_def exProcessed_def exListed_def exCreated_def newWorld_def

lemma exRun_watching: "informer_run ingressKey ingressVersion exTrigger Uitoa (newWorld ingressKey 30000000000 []) exWatching"
proof -
  have "informerInput ingressVersion (WatchOpened 0) (wInformer exProcessed) = Some (wInformer exWatching)"
    unfolding exWatching_def by simp (rule some_the, code_simp)
  moreover have "rfPhase (ifReflector (wInformer exProcessed)) = OpeningWatch (Uitoa 1)" by code_simp
  moreover have "1 \<le> length (wLog exProcessed)" by code_simp
  ultimately have "informer_run ingressKey ingressVersion exTrigger Uitoa (newWorld ingressKey 30000000000 [])
      (exProcessed\<lparr>wPos := 1, wInformer := wInformer exWatching\<rparr>)"
    by (intro run_watch [OF exRun_processed])
  then show ?thesis by (simp add: ex_worlds)
qed

lemma exRun_deleted: "informer_run ingressKey ingressVersion exTrigger Uitoa (newWorld ingressKey 30000000000 []) exDeleted"
proof -
  let ?err = "\<lparr>evType = ''ERROR'', evObject = None\<rparr>" and ?del = "\<lparr>evType = ''DELETED'', evObject = Some (exIngressAt ''2'')\<rparr>"
  have "informerInput ingressVersion (Event ?err) (wInformer exWatching) = Some (wInformer exBroken)"
    unfolding exBroken_def by simp (rule some_the, code_simp)
  moreover have "silent (Event ?err)" by (simp add: silent_def)
  ultimately have "informer_run ingressKey ingressVersion exTrigger Uitoa (newWorld ingressKey 30000000000 [])
      (exWatching\<lparr>wInformer := wInformer exBroken\<rparr>)"
    by (intro run_silent [OF exRun_watching])
  then have "informer_run ingressKey ingressVersion exTrigger Uitoa (newWorld ingressKey 30000000000 []) exBroken"
    by (simp add: exBroken_def)
  moreover have "ingressVersion (exIngressAt ''2'') = Uitoa (Suc (length (wLog exBroken)))" by code_simp
  ultimately show ?thesis
    unfolding exDeleted_def by (intro run_change [where ev = ?del]) simp_all
qed

lemma exRun_relisted: "informer_run ingressKey ingressVersion exTrigger Uitoa (newWorld ingressKey 30000000000 []) exRelisted"
proof -
  have "informerInput ingressVersion (ListReturned [] (Uitoa 2)) (wInformer exDeleted) = Some (wInformer exRelisted)"
    unfolding exRelisted_def by simp (rule some_the, code_simp)
  moreover have "ingressKey (exIngressAt ''2'') = ingressKey (exIngressAt ''1'')" by code_simp
  then have "byKey ingressKey [] = serverContents ingressKey (take 2 (wLog exDeleted))"
    by (simp add: ex_worlds serverContents_def applyEvent_def)
  moreover have "list_safe ingressKey (ifQueue (wInformer exDeleted)) (ifStore (wInformer exDeleted)) []" by code_simp
  moreover have "length (wLog exDeleted) = 2" by code_simp
  ultimately show ?thesis
    using run_list [OF exRun_deleted, of 2 "[]" "wInformer exRelisted"] by (simp add: ex_worlds numeral_2_eq_2)
qed



theorem informer_panics_witness:
  "\<exists>ifm. processNext ingressKey exTrigger (wInformer exRelisted) = Some (PopPanic TypeAssertion, ifm) \<and> 2 \<le> wLists exRelisted"
proof -
  have "map_option fst (processNext ingressKey exTrigger (wInformer exRelisted)) = Some (PopPanic TypeAssertion)" by code_simp
  from some_fst [OF this] informer_panics [OF exRun_relisted inj_Uitoa some_fst [OF this]] show ?thesis by blast
qed

theorem synced_after_first_list_witness:
  "informerHasSynced (wInformer exProcessed) \<and> ''default/web'' \<in> (\<lambda>ds. deltaKeyOf ingressKey (hd ds)) ` set (wProcessed exProcessed)"
proof -
  have "informerHasSynced (wInformer exProcessed)" "wInitial exProcessed = [''default/web'']" by code_simp+
  with synced_after_first_list [OF exRun_processed inj_Uitoa this(1)] show ?thesis by simp
qed

text \<open>
  An ingress that the watch reported is deleted while the watch is broken, and the next list comes
  before the queue is processed: the list is empty and the informer will hold the ingress all the same.
\<close>

definition exGhost :: "Ingress DeltaFIFO" where
  "exGhost = snd (fifoAdd (exIngressAt ''1'') (NewDeltaFIFO (\<lambda>i. Inr (ingressKey i)) None))"

theorem relist_exact_witness:
  "willHold (snd (fifoReplace (Some []) [] exGhost)) [] \<noteq> byKey ingressKey [] \<and> \<not> list_safe ingressKey exGhost [] []"
proof -
  have reach: "fifo_reach ingressKey exGhost"
    unfolding exGhost_def by (rule fifo_reach.reach_step [OF fifo_reach.reach_new fifo_step.step_add])
  have "\<not> list_safe ingressKey exGhost [] []" by code_simp
  then show ?thesis using relist_exact [OF reach _ prod.collapse [symmetric], of "[]" "[]"] by simp
qed

end
