(* ===== verification/DNS_System.thy ===== *)
theory DNS_System
  imports DNS_Publishing Informer
begin

text \<open>
  The ingress DNS controller as it runs: the informer that feeds the work queue and the one worker
  that \<open>StartFederatedIngressController\<close> of \<open>dns.go\<close> asks for. The queue holds pointers to ingresses,
  so an item is an address and the ingress at it. The informer and the worker run concurrently; a
  step is one delta of the informer or one item handled.
\<close>

section \<open>Events and steps\<close>

record ('s, 'z, 'r, 'c) dnsSystem =
  dsController :: "('s, 'z, 'r, 'c) IngressDNSController"
  dsStore :: "(string \<times> nat \<times> Ingress) list"
  dsDNS :: 's

definition deepEqualPtr :: "nat \<times> Ingress \<Rightarrow> nat \<times> Ingress \<Rightarrow> bool" where
  "deepEqualPtr a b \<longleftrightarrow> deepEqualIngress (snd a) (snd b)"

definition ptrKey :: "nat \<times> Ingress \<Rightarrow> string" where
  "ptrKey p = MetaNamespaceKey (inMeta (snd p))"

definition queueTrigger ::
  "(nat \<times> Ingress, ('s, 'z, 'r, 'c) IngressDNSController) ResourceEventHandlerFuncs" where
  "queueTrigger = NewTriggerOnAllChanges deepEqualPtr (\<lambda>obj d. d\<lparr>workQueue := wqAdd obj (workQueue d)\<rparr>)"

definition ingressDelta ::
  "(nat \<times> Ingress) delta \<Rightarrow> ('s, 'z, 'r, 'c) dnsSystem \<Rightarrow> panic option \<times> ('s, 'z, 'r, 'c) dnsSystem" where
  "ingressDelta d sys =
     (let (p, st, idc) = processDelta ptrKey queueTrigger d (dsStore sys, dsController sys)
      in (p, sys\<lparr>dsStore := st, dsController := idc\<rparr>))"

text \<open>
  One turn of the worker: \<open>None\<close> while it waits or when it has quit, otherwise the item it handled
  and the error it crashed with, if any.
\<close>

definition workerTurn ::
  "dns_env \<Rightarrow> ('s, 'z, 'r, 'c) dnsSystem \<Rightarrow> (error option \<times> ('s, 'z, 'r, 'c) dnsSystem) option" where
  "workerTurn env sys =
     (case workerFunction env (dsController sys) (dsDNS sys) of
        None \<Rightarrow> None
      | Some (Inl err, idc, s) \<Rightarrow> Some (Some err, sys\<lparr>dsController := idc, dsDNS := s\<rparr>)
      | Some (Inr quit, idc, s) \<Rightarrow> Some (None, sys\<lparr>dsController := idc, dsDNS := s\<rparr>))"

definition dnsControllerRun ::
  "('s, 'z, 'r, 'c) IngressDNSController \<Rightarrow> 's \<Rightarrow> ('s, 'z, 'r, 'c) dnsSystem" where
  "dnsControllerRun idc s = \<lparr>dsController = idc, dsStore = [], dsDNS = s\<rparr>"

section \<open>Runs\<close>

text \<open>
  \<open>changes\<close> are the objects that triggered the controller, in order, and \<open>handled\<close> what the worker
  handled, with the environment it found. The API client decodes every change into a new object, so
  the address of a change is fresh.
\<close>

inductive dns_run ::
  "('s, 'z, 'r, 'c) dnsSystem \<Rightarrow> (nat \<times> Ingress) list \<Rightarrow> (dns_env \<times> nat \<times> Ingress) list \<Rightarrow> ('s, 'z, 'r, 'c) dnsSystem \<Rightarrow> bool"
  for sys0 :: "('s, 'z, 'r, 'c) dnsSystem" where
  dns_refl: "dns_run sys0 [] [] sys0"
| dns_delta: "dns_run sys0 changes handled sys \<Longrightarrow> ingressDelta d sys = (None, sys') \<Longrightarrow>
    triggers ptrKey deepEqualPtr d (dsStore sys) = Some obj \<Longrightarrow> fst obj \<notin> fst ` set changes \<Longrightarrow>
    dns_run sys0 (changes @ [obj]) handled sys'"
| dns_resync: "dns_run sys0 changes handled sys \<Longrightarrow> ingressDelta d sys = (None, sys') \<Longrightarrow>
    triggers ptrKey deepEqualPtr d (dsStore sys) = None \<Longrightarrow> dns_run sys0 changes handled sys'"
| dns_work: "dns_run sys0 changes handled sys \<Longrightarrow> workerTurn env sys = Some (None, sys') \<Longrightarrow>
    queue (workQueue (dsController sys)) = item # rest \<Longrightarrow> dns_run sys0 changes (handled @ [(env, item)]) sys'"

text \<open>The sequential program: handle the changes one after the other.\<close>

definition handleAll ::
  "('s, 'z, 'r, 'c) IngressDNSController \<Rightarrow> (dns_env \<times> nat \<times> Ingress) list \<Rightarrow> 's \<Rightarrow> 's" where
  "handleAll idc handled s = foldl (\<lambda>s (env, item). snd (workItem env idc item s)) s handled"

lemma ingressDelta_trigger:
  "ingressDelta d sys =
     (if missed d then Some TypeAssertion else None,
      sys\<lparr>dsStore := storeDelta ptrKey d (dsStore sys),
        dsController := (case triggers ptrKey deepEqualPtr d (dsStore sys) of
            None \<Rightarrow> dsController sys
          | Some obj \<Rightarrow> (dsController sys)\<lparr>workQueue := wqAdd obj (workQueue (dsController sys))\<rparr>)\<rparr>)"
  by (simp add: ingressDelta_def queueTrigger_def processDelta_trigger)

text \<open>The state in which the worker is between two items.\<close>

definition at_rest :: "(nat \<times> Ingress) list \<Rightarrow> (nat \<times> Ingress) wq \<Rightarrow> bool" where
  "at_rest items q \<longleftrightarrow> quiet q \<and> queue q = items \<and> \<not> shuttingDown q"

lemma at_rest_add:
  assumes "at_rest items q" and "fst obj \<notin> fst ` set items"
  shows "at_rest (items @ [obj]) (wqAdd obj q)"
proof -
  have "obj \<notin> set items" using assms(2) by force
  then show ?thesis using assms(1) by (auto simp: at_rest_def quiet_def wq_inv_def wqAdd_def)
qed

lemma workerFunction_item:
  assumes "at_rest (item # rest) (workQueue idc)"
  shows "\<exists>q. workerFunction env idc s = Some (case workItem env idc item s of
      (Some err, s') \<Rightarrow> (Inl err, idc\<lparr>workQueue := q\<rparr>, s')
    | (None, s') \<Rightarrow> (Inr False, idc\<lparr>workQueue := q\<rparr>, s')) \<and> at_rest rest q"
proof -
  obtain q where "wqGet (workQueue idc) = Some (Some item, q)" "quiet (wqDone item q)" "queue (wqDone item q) = rest"
      "shuttingDown (wqDone item q) = shuttingDown (workQueue idc)"
    using one_worker.take_finish [of "workQueue idc" item rest] assms by (auto simp: at_rest_def)
  then show ?thesis
    using assms by (auto simp: workerFunction_def at_rest_def split: prod.split option.split)
qed

lemma dns_run_refines:
  assumes "dns_run (dnsControllerRun idc s) changes handled sys" and "workQueue idc = wqNew"
  shows "\<exists>q. changes = map snd handled @ queue q \<and> at_rest (queue q) q \<and> dsController sys = idc\<lparr>workQueue := q\<rparr> \<and>
    dsDNS sys = handleAll idc handled s"
  using assms(1)
proof (induction rule: dns_run.induct)
  case dns_refl
  then show ?case using assms(2) wq_inv_new
    by (intro exI [of _ wqNew]) (simp add: dnsControllerRun_def handleAll_def at_rest_def quiet_def wqNew_def)
next
  case (dns_delta changes handled sys d sys' obj)
  then obtain q where q: "changes = map snd handled @ queue q" "at_rest (queue q) q" "dsController sys = idc\<lparr>workQueue := q\<rparr>"
      "dsDNS sys = handleAll idc handled s" by blast
  have "at_rest (queue q @ [obj]) (wqAdd obj q)" using at_rest_add [OF q(2)] dns_delta.hyps(4) q(1) by (auto simp: image_Un)
  then show ?case
    using q dns_delta.hyps(2,3) by (intro exI [of _ "wqAdd obj q"]) (auto simp: ingressDelta_trigger at_rest_def split: if_splits)
next
  case (dns_resync changes handled sys d sys')
  then obtain q where "changes = map snd handled @ queue q" "at_rest (queue q) q" "dsController sys = idc\<lparr>workQueue := q\<rparr>"
      "dsDNS sys = handleAll idc handled s" by blast
  then show ?case using dns_resync.hyps(2,3) by (intro exI [of _ q]) (auto simp: ingressDelta_trigger split: if_splits)
next
  case (dns_work changes handled sys env sys' item rest)
  then obtain q where q: "changes = map snd handled @ queue q" "at_rest (queue q) q" "dsController sys = idc\<lparr>workQueue := q\<rparr>"
      "dsDNS sys = handleAll idc handled s" by blast
  have "at_rest (item # rest) (workQueue (dsController sys))" using q(2,3) dns_work.hyps(3) by simp
  from workerFunction_item [OF this, of env "dsDNS sys"] obtain q' where
    q': "workerFunction env (dsController sys) (dsDNS sys) = Some (case workItem env (dsController sys) item (dsDNS sys) of
      (Some err, s') \<Rightarrow> (Inl err, (dsController sys)\<lparr>workQueue := q'\<rparr>, s')
    | (None, s') \<Rightarrow> (Inr False, (dsController sys)\<lparr>workQueue := q'\<rparr>, s'))" "at_rest rest q'" by blast
  then have "sys' = sys\<lparr>dsController := idc\<lparr>workQueue := q'\<rparr>, dsDNS := snd (workItem env idc item (dsDNS sys))\<rparr>"
    using dns_work.hyps(2) q(3) by (auto simp: workerTurn_def split: prod.splits option.splits)
  then show ?case
    using q q'(2) dns_work.hyps(3) by (intro exI [of _ q']) (simp add: at_rest_def handleAll_def)
qed

lemma newIngressDNSController_queue:
  "newIngressDNSController sortSlice p federation sfx domainName s = Inr idc \<Longrightarrow> workQueue idc = wqNew"
  by (auto simp: newIngressDNSController_def validateConfig_def retrieveOrCreateDNSZone_def Let_def
      split: if_splits option.splits sum.splits)

section \<open>Properties\<close>

text \<open>
  C5. The informer, the queue and the worker together implement the sequential program that handles
  every change in the order in which it was reported: at any time the changes are those handled
  followed by those queued, and the state of the DNS service is what handling the former, one after
  the other, makes of it. So no change is lost or handled twice, and the last version of an
  ingress is handled last.
\<close>

theorem dns_controller_sequential:
  assumes "newIngressDNSController sortSlice p federation sfx domainName s = Inr idc"
    and "dns_run (dnsControllerRun idc s) changes handled sys"
  shows "changes = map snd handled @ queue (workQueue (dsController sys)) \<and>
    dsDNS sys = handleAll idc handled s"
  using dns_run_refines [OF assms(2) newIngressDNSController_queue [OF assms(1)]] by (auto simp: at_rest_def)

definition exDNSController :: "(unit, unit, unit, unit) IngressDNSController" where
  "exDNSController = \<lparr>dns = Some \<lparr>prZones = Some example_zones\<rparr>, domain = ''ex.com'', federationName = ''fed'',
     ingressDNSSuffix = ''ing'', dnsZone = Some (), dnsZones = Some example_zones, workQueue = wqNew\<rparr>"

lemma exDNSController_new:
  "newIngressDNSController id (Some \<lparr>prZones = Some example_zones\<rparr>) ''fed'' [] ''ex.com'' () = Inr exDNSController"
proof -
  have "firstContained (\<lambda>_. ''ex.com'') (TrimSuffix ''ex.com'' ''.'') [()] = Some ()" by code_simp
  then show ?thesis
    by (simp add: newIngressDNSController_def validateConfig_def retrieveOrCreateDNSZone_def GetDNSZone_def example_zones_def
        exDNSController_def defaultIngressSeperator_def Let_def)
qed

text \<open>One ingress reported and handled.\<close>

lemma exDNS_run:
  "\<exists>sys. dns_run (dnsControllerRun exDNSController ()) [(0, ing)] [(example_env_zoned, 0, ing)] sys"
proof -
  let ?sys = "dnsControllerRun exDNSController ()"
  define sys1 where "sys1 = snd (ingressDelta (Sync (0, ing)) ?sys)"
  have trig: "triggers ptrKey deepEqualPtr (Sync (0, ing)) (dsStore ?sys) = Some (0, ing)"
    by (simp add: triggers_def dnsControllerRun_def)
  then have q1: "ingressDelta (Sync (0, ing)) ?sys = (None, sys1)"
      "queue (workQueue (dsController sys1)) = [(0, ing)]"
    by (simp_all add: sys1_def ingressDelta_trigger missed_def dnsControllerRun_def exDNSController_def wqAdd_def wqNew_def)
  then have run1: "dns_run ?sys [(0, ing)] [] sys1"
    using dns_delta [OF dns_refl q1(1) trig] by simp
  have ctl: "dsController sys1 = exDNSController\<lparr>workQueue := wqAdd (0, ing) wqNew\<rparr>"
    by (simp add: sys1_def ingressDelta_trigger trig) (simp add: dnsControllerRun_def exDNSController_def)
  have "at_rest [] wqNew" using wq_inv_new by (simp add: at_rest_def quiet_def wqNew_def)
  from at_rest_add [OF this] have rest: "at_rest [(0, ing)] (workQueue (dsController sys1))"
    by (simp add: ctl)
  have "provider_safe example_env_zoned (dsController sys1)"
    by (simp add: provider_safe_def ctl exDNSController_def example_zones_def EnsureDNSRrsets_def)
  from workItem_no_panic [OF this example_env_zoned_ok]
  obtain s' where "workItem example_env_zoned (dsController sys1) (0, ing) (dsDNS sys1) = (None, s')"
    by (metis prod.collapse)
  with workerFunction_item [OF rest, of example_env_zoned "dsDNS sys1"] obtain q where
    "workerFunction example_env_zoned (dsController sys1) (dsDNS sys1) = Some (Inr False, (dsController sys1)\<lparr>workQueue := q\<rparr>, s')"
    by auto
  then obtain sys2 where "workerTurn example_env_zoned sys1 = Some (None, sys2)" by (simp add: workerTurn_def)
  from dns_work [OF run1 this q1(2)] show ?thesis by auto
qed

theorem dns_controller_sequential_witness:
  "\<exists>sys. dns_run (dnsControllerRun exDNSController ()) [(0, example_ingress)] [(example_env_zoned, 0, example_ingress)] sys \<and>
     queue (workQueue (dsController sys)) = []"
proof -
  obtain sys where run: "dns_run (dnsControllerRun exDNSController ()) [(0, example_ingress)] [(example_env_zoned, 0, example_ingress)] sys"
    using exDNS_run by blast
  with dns_controller_sequential [OF exDNSController_new run] show ?thesis by auto
qed

section \<open>From the API server to the worker\<close>

lemma deepEqualPtr_refl: "reflp deepEqualPtr"
  by (simp add: reflp_def deepEqualPtr_def)

lemma deepEqualPtr_trans: "transp deepEqualPtr"
  by (rule transpI) (auto simp: deepEqualPtr_def deepEqualIngress_def deepEqualMeta_def map_eq_iff)

abbreviation reportChanges :: "(nat \<times> Ingress, (nat \<times> Ingress) list) ResourceEventHandlerFuncs" where
  "reportChanges \<equiv> NewTriggerOnAllChanges deepEqualPtr (\<lambda>obj seen. seen @ [obj])"


text \<open>The same for one ingress, from the list of the server to the worker.\<close>

definition ptrVersion :: "nat \<times> Ingress \<Rightarrow> string" where
  "ptrVersion p = omResourceVersion (inMeta (snd p))"

definition exPtrCreated :: "(nat \<times> Ingress, (nat \<times> Ingress) list) world" where
  "exPtrCreated = (newWorld ptrKey 30000000000 [])\<lparr>wLog := [\<lparr>evType = ''ADDED'', evObject = Some (0, exIngressAt ''1'')\<rparr>]\<rparr>"

definition exPtrListed :: "(nat \<times> Ingress, (nat \<times> Ingress) list) world" where
  "exPtrListed = exPtrCreated\<lparr>wPos := 1, wLists := 1, wInitial := [''default/web''],
     wInformer := the (informerInput ptrVersion (ListReturned [(0, exIngressAt ''1'')] (Uitoa 1)) (wInformer exPtrCreated))\<rparr>"

definition exPtrProcessed :: "(nat \<times> Ingress, (nat \<times> Ingress) list) world" where
  "exPtrProcessed = exPtrListed\<lparr>wProcessed := [[SyncDelta (0, exIngressAt ''1'')]],
     wInformer := snd (the (processNext ptrKey reportChanges (wInformer exPtrListed)))\<rparr>"

lemma exPtrRun: "informer_run ptrKey ptrVersion reportChanges Uitoa (newWorld ptrKey 30000000000 []) exPtrProcessed"
proof -
  let ?obj = "(0, exIngressAt ''1'') :: nat \<times> Ingress"
  let ?ev = "\<lparr>evType = ''ADDED'', evObject = Some ?obj\<rparr>" and ?w = "newWorld ptrKey 30000000000 []"
  let ?run = "informer_run ptrKey ptrVersion reportChanges Uitoa ?w"
  have "ptrVersion ?obj = Uitoa (Suc (length (wLog ?w)))" by code_simp
  from run_change [OF run_start, of ?ev ?obj ptrVersion Uitoa ?w] this
  have created: "?run exPtrCreated" by (simp add: exPtrCreated_def) (simp add: newWorld_def)
  have "informerInput ptrVersion (ListReturned [?obj] (Uitoa 1)) (wInformer exPtrCreated) = Some (wInformer exPtrListed)"
    unfolding exPtrListed_def by simp (rule some_the, code_simp)
  moreover have "byKey ptrKey [?obj] = serverContents ptrKey (take 1 (wLog exPtrCreated))"
    by (simp add: exPtrCreated_def serverContents_def applyEvent_def)
  moreover have "list_safe ptrKey (ifQueue (wInformer exPtrCreated)) (ifStore (wInformer exPtrCreated)) [?obj]" by code_simp
  moreover have "map ptrKey [?obj] = [''default/web'']" by code_simp
  ultimately have listed: "?run exPtrListed"
    using run_list [OF created, of 1 "[?obj]" "wInformer exPtrListed"]
    by (simp add: exPtrListed_def exPtrCreated_def newWorld_def)
  have "map_option fst (processNext ptrKey reportChanges (wInformer exPtrListed)) = Some (Popped [SyncDelta ?obj] None)"
    by code_simp
  from run_process [OF listed some_fst [OF this]] show ?thesis
    by (simp add: exPtrProcessed_def) (simp add: exPtrListed_def exPtrCreated_def newWorld_def)
qed


end
