(* ===== verification/Startup.thy ===== *)
theory Startup
  imports Ingress_System DNS_System
begin

text \<open>
  The command line and the start of the process: \<open>options.go\<close>, \<open>main.go\<close> and the start functions of
  the two controllers. Parsing of the command line into a list of assignments (pflag), the client
  configuration and the API clients are third-party code and arguments of the model; the help texts
  of the flags are left out.
\<close>

section \<open>Options\<close>

record FederatedIngressControllerOptions =
  FkubeApiServer :: string
  FkubeName :: string
  DnsProvider :: string
  DnsProviderConfig :: string
  Domain :: string
  IngressDnsSuffix :: string

definition NewFICO :: FederatedIngressControllerOptions where
  "NewFICO =
     \<lparr>FkubeApiServer = ''https://mkube-apiserver'', FkubeName = ''akube'', DnsProvider = ''aws-route53'',
      DnsProviderConfig = [], Domain = ''d1.example.com'', IngressDnsSuffix = ''ing''\<rparr>"

text \<open>A string flag: its name, the variable it is bound to and its default. \<open>StringVar\<close> sets the variable to the default.\<close>

record stringFlag =
  flName :: string
  flBind :: "string \<Rightarrow> FederatedIngressControllerOptions \<Rightarrow> FederatedIngressControllerOptions"
  flRead :: "FederatedIngressControllerOptions \<Rightarrow> string"

definition AddFlags :: "stringFlag list \<Rightarrow> stringFlag list" where
  "AddFlags fs = fs @
     [\<lparr>flName = ''dnsProvider'', flBind = (\<lambda>v. DnsProvider_update (\<lambda>_. v)), flRead = DnsProvider\<rparr>,
      \<lparr>flName = ''dnsProviderConfig'', flBind = (\<lambda>v. DnsProviderConfig_update (\<lambda>_. v)), flRead = DnsProviderConfig\<rparr>,
      \<lparr>flName = ''domain'', flBind = (\<lambda>v. Domain_update (\<lambda>_. v)), flRead = Domain\<rparr>,
      \<lparr>flName = ''fkubeApiServer'', flBind = (\<lambda>v. FkubeApiServer_update (\<lambda>_. v)), flRead = FkubeApiServer\<rparr>,
      \<lparr>flName = ''fkubeName'', flBind = (\<lambda>v. FkubeName_update (\<lambda>_. v)), flRead = FkubeName\<rparr>,
      \<lparr>flName = ''ingressDnsSuffix'', flBind = (\<lambda>v. IngressDnsSuffix_update (\<lambda>_. v)), flRead = IngressDnsSuffix\<rparr>]"

text \<open>The assignments of the command line, in order; an unknown flag ends the process.\<close>

fun parseFlags ::
  "stringFlag list \<Rightarrow> (string \<times> string) list \<Rightarrow> FederatedIngressControllerOptions \<Rightarrow> FederatedIngressControllerOptions option" where
  "parseFlags fs [] o' = Some o'"
| "parseFlags fs ((name, v) # args) o' =
     (case find (\<lambda>f. flName f = name) fs of
        None \<Rightarrow> None
      | Some f \<Rightarrow> parseFlags fs args (flBind f v o'))"

section \<open>The process\<close>

text \<open>
  \<open>restclient.Config\<close> with the fields that the program sets. An exit carries the status of the process.
\<close>

record restConfig =
  rcQPS :: int
  rcBurst :: int
  rcUserAgent :: string

datatype 'p process = Exited int | Died error | Running 'p

record ('c, 'w, 's, 'z, 'r, 'h) procEnv =
  peBuildConfig :: "string \<Rightarrow> string \<Rightarrow> restConfig option res"
  peUserAgent :: string
  peNewForConfig :: "restConfig \<Rightarrow> error option"
  peIngressInformer :: "Cluster \<Rightarrow> 'c \<Rightarrow> Ingress informer"
  peConfigMapInformer :: "Cluster \<Rightarrow> 'c \<Rightarrow> ConfigMap informer"
  peClient :: "Cluster \<Rightarrow> 'c res"
  peInitDnsProvider :: "string \<Rightarrow> string \<Rightarrow> 's \<Rightarrow> ('s, 'z, 'r, 'h) provider option res"
  peSort :: "'z list \<Rightarrow> 'z list"
  peWorld :: 'w
  peDNS :: 's
  peNow :: int

definition AddUserAgent :: "string \<Rightarrow> string \<Rightarrow> restConfig \<Rightarrow> restConfig" where
  "AddUserAgent defaultAgent userAgent config = config\<lparr>rcUserAgent := defaultAgent @ ''/'' @ userAgent\<rparr>"

text \<open>\<open>NewForConfigOrDie\<close> panics when the client cannot be built; an error of the controller is fatal.\<close>

definition startDNSController ::
  "('c, 'w, 's, 'z, 'r, 'h) procEnv \<Rightarrow> restConfig \<Rightarrow> FederatedIngressControllerOptions
   \<Rightarrow> ('s, 'z, 'r, 'h) dnsSystem process" where
  "startDNSController pe config options =
     (case peNewForConfig pe (AddUserAgent (peUserAgent pe) ''federatedingress-controller'' config) of
        Some err \<Rightarrow> Died err
      | None \<Rightarrow>
          (case NewIngressDNSController (peInitDnsProvider pe) (peSort pe) (DnsProvider options) (DnsProviderConfig options)
                  (FkubeName options) (IngressDnsSuffix options) (Domain options) (peDNS pe) of
             Inl err \<Rightarrow> Exited 255
           | Inr controller \<Rightarrow> Running (dnsControllerRun controller (peDNS pe))))"

definition startIngressController ::
  "('c, 'w, 's, 'z, 'r, 'h) procEnv \<Rightarrow> restConfig \<Rightarrow> ('c, 'w) icSystem process" where
  "startIngressController pe config =
     (case peNewForConfig pe (AddUserAgent (peUserAgent pe) ''cluster-controller'' config) of
        Some err \<Rightarrow> Died err
      | None \<Rightarrow> Running (StartFederatedIngressController (peIngressInformer pe) (peConfigMapInformer pe) (peClient pe)
          (peWorld pe) (peNow pe)))"

definition startController ::
  "('c, 'w, 's, 'z, 'r, 'h) procEnv \<Rightarrow> restConfig \<Rightarrow> FederatedIngressControllerOptions
   \<Rightarrow> (('c, 'w) icSystem \<times> ('s, 'z, 'r, 'h) dnsSystem) process" where
  "startController pe config options =
     (case startIngressController pe config of
        Exited n \<Rightarrow> Exited n
      | Died err \<Rightarrow> Died err
      | Running ic \<Rightarrow>
          (case startDNSController pe (AddUserAgent (peUserAgent pe) ''cluster-controller'' config) options of
             Exited n \<Rightarrow> Exited n
           | Died err \<Rightarrow> Died err
           | Running dc \<Rightarrow> Running (ic, dc)))"

text \<open>\<open>run\<close> returns only without a client configuration, with an error or, when there is none, with nil.\<close>

definition run ::
  "('c, 'w, 's, 'z, 'r, 'h) procEnv \<Rightarrow> FederatedIngressControllerOptions
   \<Rightarrow> error option + (('c, 'w) icSystem \<times> ('s, 'z, 'r, 'h) dnsSystem) process" where
  "run pe options =
     (case peBuildConfig pe (FkubeApiServer options) ''/etc/federation/controller-manager/kubeconfig'' of
        Inl err \<Rightarrow> Inl (Some err)
      | Inr None \<Rightarrow> Inl None
      | Inr (Some restClientCfg) \<Rightarrow>
          Inr (startController pe (restClientCfg\<lparr>rcQPS := 20, rcBurst := 30\<rparr>) options))"

definition mainProgram ::
  "('c, 'w, 's, 'z, 'r, 'h) procEnv \<Rightarrow> bool \<Rightarrow> (string \<times> string) list
   \<Rightarrow> (('c, 'w) icSystem \<times> ('s, 'z, 'r, 'h) dnsSystem) process" where
  "mainProgram pe version args =
     (case parseFlags (AddFlags []) args NewFICO of
        None \<Rightarrow> Exited 2
      | Some options \<Rightarrow>
          if version then Exited 0
          else case run pe options of
            Inl (Some err) \<Rightarrow> Exited 1
          | Inl None \<Rightarrow> Exited 0
          | Inr p \<Rightarrow> p)"

section \<open>The flags\<close>

text \<open>Each flag is bound to a variable of its own, and the last assignment of a flag wins.\<close>

lemma AddFlags_names: "distinct (map flName (AddFlags []))"
  by (simp add: AddFlags_def)

lemma flag_binds:
  assumes "f \<in> set (AddFlags [])" and "g \<in> set (AddFlags [])"
  shows "flRead f (flBind g v o') = (if flName f = flName g then v else flRead f o')"
  using assms by (auto simp: AddFlags_def)

lemma find_flag:
  assumes "find (\<lambda>f. flName f = name) fs = Some g"
  shows "g \<in> set fs \<and> flName g = name"
  using assms by (auto simp: find_Some_iff in_set_conv_nth)

lemma parseFlags_value:
  assumes "f \<in> set (AddFlags [])" and "parseFlags (AddFlags []) args o0 = Some o1"
  shows "flRead f o1 = (case map_of (rev args) (flName f) of Some v \<Rightarrow> v | None \<Rightarrow> flRead f o0)"
  using assms(2)
proof (induction args arbitrary: o0)
  case (Cons arg args)
  obtain name v where arg: "arg = (name, v)" by fastforce
  with Cons.prems obtain g where g: "find (\<lambda>f. flName f = name) (AddFlags []) = Some g"
      "parseFlags (AddFlags []) args (flBind g v o0) = Some o1" by (auto split: option.splits)
  have "flRead f (flBind g v o0) = (if flName f = name then v else flRead f o0)"
    using flag_binds [OF assms(1)] find_flag [OF g(1)] by metis
  then show ?case using Cons.IH [OF g(2)] arg by (auto simp: map_add_def split: option.splits)
qed simp

definition given :: "(string \<times> string) list \<Rightarrow> string \<Rightarrow> string \<Rightarrow> string" where
  "given args name def = (case map_of (rev args) name of Some v \<Rightarrow> v | None \<Rightarrow> def)"

lemma parsed_options:
  assumes "parseFlags (AddFlags []) args NewFICO = Some options"
  shows "DnsProvider options = given args ''dnsProvider'' ''aws-route53''"
    and "DnsProviderConfig options = given args ''dnsProviderConfig'' []"
    and "Domain options = given args ''domain'' ''d1.example.com''"
    and "FkubeApiServer options = given args ''fkubeApiServer'' ''https://mkube-apiserver''"
    and "FkubeName options = given args ''fkubeName'' ''akube''"
    and "IngressDnsSuffix options = given args ''ingressDnsSuffix'' ''ing''"
proof -
  have "list_all (\<lambda>f. flRead f options = given args (flName f) (flRead f NewFICO)) (AddFlags [])"
    using parseFlags_value [OF _ assms] by (simp add: list_all_iff given_def)
  then show "DnsProvider options = given args ''dnsProvider'' ''aws-route53''"
      "DnsProviderConfig options = given args ''dnsProviderConfig'' []"
      "Domain options = given args ''domain'' ''d1.example.com''"
      "FkubeApiServer options = given args ''fkubeApiServer'' ''https://mkube-apiserver''"
      "FkubeName options = given args ''fkubeName'' ''akube''"
      "IngressDnsSuffix options = given args ''ingressDnsSuffix'' ''ing''"
    by (simp_all add: AddFlags_def NewFICO_def)
qed

lemma parseFlags_known:
  "list_all (\<lambda>(name, v). name \<in> flName ` set (AddFlags [])) args \<Longrightarrow> \<exists>o1. parseFlags (AddFlags []) args o0 = Some o1"
proof (induction args arbitrary: o0)
  case (Cons arg args)
  obtain name v where arg: "arg = (name, v)" by fastforce
  then obtain g where "find (\<lambda>f. flName f = name) (AddFlags []) = Some g"
    using Cons.prems by (cases "find (\<lambda>f. flName f = name) (AddFlags [])") (auto simp: find_None_iff)
  then show ?case using Cons arg by simp
qed simp

section \<open>Properties\<close>

text \<open>
  C11. The process started with known flags, a client configuration and a DynDNS provider that could be
  initialised runs both controllers exactly when a federation name and a domain are given (on the
  command line or by default) and one of the provider's zones occurs in the domain; otherwise it
  exits with status 255.
\<close>

theorem process_starts_iff:
  assumes "list_all (\<lambda>(name, v). name \<in> flName ` set (AddFlags [])) args"
    and "peBuildConfig pe (given args ''fkubeApiServer'' ''https://mkube-apiserver'')
      ''/etc/federation/controller-manager/kubeconfig'' = Inr (Some config)"
    and "\<And>c. peNewForConfig pe c = None"
    and "peInitDnsProvider pe (given args ''dnsProvider'' ''aws-route53'') (given args ''dnsProviderConfig'' []) (peDNS pe) =
      Inr (Some (dyn_provider intf))"
    and "newInterface ci api (peDNS pe) = Inr intf" and "sorts_by_length zoneName (peSort pe)"
  shows "if given args ''fkubeName'' ''akube'' \<noteq> [] \<and> given args ''domain'' ''d1.example.com'' \<noteq> [] \<and>
      (\<exists>zone \<in> set (Split (ciDNSZones ci) CHR '','').
         Contains (TrimSuffix (given args ''domain'' ''d1.example.com'') ''.'') (TrimSuffix zone ''.''))
    then \<exists>p. mainProgram pe False args = Running p
    else mainProgram pe False args = Exited 255"
proof -
  obtain options where o: "parseFlags (AddFlags []) args NewFICO = Some options"
    using parseFlags_known [OF assms(1)] by blast
  note val = parsed_options [OF o]
  let ?new = "newIngressDNSController (peSort pe) (Some (dyn_provider intf)) (FkubeName options) (IngressDnsSuffix options)
    (Domain options) (peDNS pe)"
  have main: "mainProgram pe False args = (case ?new of Inl err \<Rightarrow> Exited 255
    | Inr idc \<Rightarrow> Running (StartFederatedIngressController (peIngressInformer pe) (peConfigMapInformer pe) (peClient pe)
        (peWorld pe) (peNow pe), dnsControllerRun idc (peDNS pe)))"
    using assms(2-4) by (simp add: mainProgram_def o run_def val startController_def startIngressController_def startDNSController_def
        NewIngressDNSController_def split: sum.split)
  show ?thesis
  proof (cases ?new)
    case (Inl err)
    then show ?thesis
      using dyndns_controller_ok [OF assms(5,6), of "FkubeName options" "IngressDnsSuffix options" "Domain options"]
      unfolding main val by auto
  next
    case (Inr idc)
    then show ?thesis
      using dyndns_controller_ok [OF assms(5,6), of "FkubeName options" "IngressDnsSuffix options" "Domain options"]
      unfolding main val by auto
  qed
qed

definition exProcess :: "(string, unit, DynDNSAPIStub, Zone, ResourceRecordSet, ResourceRecordChangeset) procEnv" where
  "exProcess =
     \<lparr>peBuildConfig = (\<lambda>server path. Inr (Some \<lparr>rcQPS = 5, rcBurst = 10, rcUserAgent = []\<rparr>)),
      peUserAgent = ''fic'', peNewForConfig = (\<lambda>c. None),
      peIngressInformer = (\<lambda>c client. \<lparr>infStore = [], infHasSynced = True\<rparr>),
      peConfigMapInformer = (\<lambda>c client. \<lparr>infStore = [], infHasSynced = True\<rparr>), peClient = (\<lambda>c. Inr []),
      peInitDnsProvider = InitDnsProvider (\<lambda>path. Inr []) [(ProviderName, dyndns_factory
        (\<lambda>text. Inr \<lparr>ciDNSZones = ''ex.com,ex.org'', ciCustomer = ''cu'', ciUser = ''foo'', ciPassword = ''bar''\<rparr>) (\<lambda>customer. stub_api))],
      peSort = sortByLength zoneName, peWorld = (), peDNS = NewDynDNSAPIStub, peNow = 0\<rparr>"

theorem process_starts_iff_witness:
  "\<exists>p. mainProgram exProcess False
     [(''dnsProvider'', ''dyndns''), (''dnsProviderConfig'', ''/etc/dyn.conf''), (''domain'', ''a.ex.org'')] = Running p"
proof -
  let ?args = "[(''dnsProvider'', ''dyndns''), (''dnsProviderConfig'', ''/etc/dyn.conf''), (''domain'', ''a.ex.org'')]"
  let ?ci = "\<lparr>ciDNSZones = ''ex.com,ex.org'', ciCustomer = ''cu'', ciUser = ''foo'', ciPassword = ''bar''\<rparr>"
  obtain intf where i: "newInterface ?ci stub_api NewDynDNSAPIStub = Inr intf"
    by (simp add: newInterface_def stub_api_def stub_Login_def)
  have known: "list_all (\<lambda>(name, v). name \<in> flName ` set (AddFlags [])) ?args"
    by (simp add: AddFlags_def)
  have provider: "peInitDnsProvider exProcess (given ?args ''dnsProvider'' ''aws-route53'') (given ?args ''dnsProviderConfig'' [])
      (peDNS exProcess) = Inr (Some (dyn_provider intf))"
    using i by (simp add: exProcess_def given_def InitDnsProvider_def GetDnsProvider_def ProviderName_def dyndns_factory_def
        newDynDNSProviderInterface_def parseConfig_def)
  have "Contains (TrimSuffix ''a.ex.org'' ''.'') (TrimSuffix ''ex.org'' ''.'')" by code_simp
  then have "\<exists>zone \<in> set (Split (ciDNSZones ?ci) CHR '','').
      Contains (TrimSuffix (given ?args ''domain'' ''d1.example.com'') ''.'') (TrimSuffix zone ''.'')"
    by (simp add: given_def)
  moreover have "given ?args ''fkubeName'' ''akube'' \<noteq> []" "given ?args ''domain'' ''d1.example.com'' \<noteq> []" by (simp_all add: given_def)
  moreover have "peBuildConfig exProcess a b = Inr (Some \<lparr>rcQPS = 5, rcBurst = 10, rcUserAgent = []\<rparr>)"
      "peNewForConfig exProcess c = None" "sorts_by_length zoneName (peSort exProcess)" for a b c
    using sorts_by_length_sortByLength by (simp_all add: exProcess_def)
  moreover have "newInterface ?ci stub_api (peDNS exProcess) = Inr intf" using i by (simp add: exProcess_def)
  ultimately show ?thesis using process_starts_iff [OF known _ _ provider, of _ ?ci stub_api] by auto
qed

end
