(* ===== verification/Spec2Isabelle.thy ===== *)
theory Spec2Isabelle
  imports Federation_DNS Dynect_Client Ingress_Liveness Ingress_Channels Startup
begin

text \<open>
  Verification of the federated ingress controller (\<open>src/cmd\<close>, \<open>src/pkg\<close>).

  \<^bold>\<open>The program.\<close> The process runs two controllers over the API server of a federation of
  Kubernetes clusters. The ingress controller (\<open>pkg/controller/ingress/ingress_controller.go\<close>) copies
  every ingress of the federation into the member clusters its cluster selector admits, collects
  the addresses that the load balancers of the clusters got in an annotation of the federated
  ingress, and makes the ingress controllers in all clusters use one UID. The ingress DNS controller
  (\<open>pkg/controller/ingress/dns/dns.go\<close>) reads that annotation and publishes, through a DNS provider,
  names for the ingress at three levels: zone, region and global. The DynDNS provider
  (\<open>pkg/dnsprovider/providers/dyndns\<close>) stores the records with a REST service. The controllers talk
  through the API server only: the annotation is the one datum that passes from the first to the second.

  \<^bold>\<open>Conventions.\<close> A Go function is a HOL function of the same name where the name is free. Errors are
  the left side of a sum (\<open>res\<close>), panics are errors or results of their own (\<open>panic\<close>). Objects are
  records, maps are association lists (\<open>map_put\<close>, \<open>map_of\<close>) because the code iterates over them, and
  \<open>time.Duration\<close> is an integer, reduced to 64 bits where it is multiplied (\<open>Backoff\<close>). The parts of
  the standard library that the code relies on are modelled (strings, numbers, JSON, MD5). Code outside
  the repository (the network resolver, the file system, the parser of the configuration file, the REST
  service, the API servers, the command line parser) is an argument of the definitions that use it; the
  API servers are also instantiated by the object tracker that the tests of the controller use, so that
  the theorems about whole reconciliations speak about concrete states. Logs and events are left out.
  Loops that may wait for ever have fuel (\<open>worker\<close>: more than the number of queued items is enough);
  all other loops are total functions. Concurrency is interleaving: a step is the body of one critical
  section, one handler call or one round of a goroutine's loop.

  \<^bold>\<open>Theories.\<close>
  \<^item> \<open>Go_Prelude\<close>: errors, panics, loops with early return, strings, decimal numbers, sets of strings
    and maps as the code uses them.
  \<^item> \<open>Go_JSON\<close>, \<open>Go_MD5\<close>: \<open>encoding/json\<close> (printing, the scanner, decoding into slices, maps and structs,
    with the round trip between printing and parsing) and \<open>crypto/md5\<close> on 32-bit words.
  \<^item> \<open>Kube_Types\<close>: the API objects, and \<open>meta.go\<close>. \<open>LB_Annotation\<close>: the annotation with the statuses of
    the load balancers, as it is written and read.
  \<^item> \<open>Workqueue\<close>: the work queue and its runs as a step relation; the locale \<open>work_queue\<close>.
  \<^item> \<open>Dyndns_Records\<close>, \<open>Dyndns_API\<close>, \<open>Dyndns_Rrsets\<close>, \<open>Dyndns_Provider\<close>: the DynDNS provider. The locale
    \<open>dyn_service\<close> is what the provider expects from the service, interpreted on the in-memory
    service of \<open>stubs/dyndnsapi.go\<close>; a sublocale derives the interface of a provider.
  \<^item> \<open>Dynect_Client\<close>: the client of the REST service. The locale \<open>dynect_rest\<close> is what it expects from the
    two requests it makes, interpreted on the in-memory implementation of \<open>stubs/godynectapi.go\<close>.
  \<^item> \<open>DNS_Provider\<close>, \<open>DNS_Util\<close>: the provider interface as the locale \<open>rrset_provider\<close> and
    \<open>pkg/controller/util/dns.go\<close>, with \<open>EnsureDNSRrsets\<close> proved once in the locale.
  \<^item> \<open>Ingress_DNS\<close>, \<open>DNS_Publishing\<close>: the DNS controller, and what it publishes on DynDNS; \<open>DNS_System\<close>:
    its informer, queue and worker as they run together, from the API server to the item handled last.
  \<^item> \<open>Backoff\<close>, \<open>Deliverer\<close>: the backoff manager and the delaying deliverer, a heap with a key index.
  \<^item> \<open>Federated_Informer\<close>: the informers of the member clusters that follow the ready clusters;
    \<open>Event_Handlers\<close>: how an informer stores a change and triggers a controller.
  \<^item> \<open>Delta_FIFO\<close>, \<open>Informer\<close>: an informer from the requests to the API server to the handlers. The queue of
    deltas (\<open>delta_fifo.go\<close>), the reflector that lists and watches (\<open>reflector.go\<close>, a function from one input
    to the next), the loop that processes the queue (\<open>controller.go\<close>), and their runs against the log of
    an API server. The locale \<open>reflected_store\<close> is what the reflector expects from its store, interpreted
    on the queue.
  \<^item> \<open>Object_Tracker\<close>, \<open>Federated_Updater\<close>, \<open>Deletion_Helper\<close>, \<open>Ingress_Clients\<close>: requests to the API
    servers. The locales \<open>object_store\<close>, \<open>member_stores\<close> and \<open>ingress_members\<close> state what the updater and
    the deletion helper need from the servers; they are interpreted on the object tracker.
  \<^item> \<open>Cluster_Selector\<close>: the selector annotation and label selectors.
  \<^item> \<open>Ingress_Controller\<close>: the state and the handlers of the ingress controller;
    \<open>Ingress_Reconcile\<close>, \<open>Ingress_Deletion\<close> and \<open>Ingress_UID\<close>: what they achieve;
    \<open>Ingress_Examples\<close>: a federation of two clusters on which these theorems are applied.
  \<^item> \<open>Ingress_System\<close>, \<open>Ingress_Liveness\<close>: the running ingress controller, every interleaving of its informers,
    deliverers and handlers: the invariant, the panics, and what each change leads to.
  \<^item> \<open>Deliverer_Channels\<close>: the two goroutines of a deliverer and the bounded channels between them, which refine
    the unbounded deliverer; \<open>Ingress_Channels\<close>: the handlers of the ingress controller, which send to
    the deliverer that calls them, and the deadlock this allows.
  \<^item> \<open>Federation_DNS\<close>: both controllers in sequence, from the load balancers of the clusters to the
    endpoints that are published.
  \<^item> \<open>Startup\<close>: options, flags and the start of the process.

  \<^bold>\<open>Results.\<close> The DNS records of an ingress are exactly the healthy addresses, level by level, except in
  the stated cases (stale records of a shrinking set, CNAME records of deleted ingresses), and these
  addresses are the ones that the load balancers of the clusters report. A reconciliation brings all
  ready clusters in line with the federated ingress, does nothing when they are, never touches a
  cluster before the finalizers are set, and a deletion ends with no copy anywhere; failures are
  delivered again. The UID of a cluster is its own, the master's, or elected, and stays the same for all
  as long as the store of clusters is up to date. Work queue and deliverer lose no request, with the
  bounds of the channels too, up to the deadlock that takes 1102 requests: in the
  running system an informer mirrors the API server, a change of an ingress, and a cluster that becomes ready, are followed by the
  reconciliations they call for, and the DNS controller handles every change once and in order, the state
  that the API server has last. A list of an informer is exact in exactly the states where nothing
  contrary to it is queued. The
  process runs both controllers exactly when its configuration admits it. The remaining properties
  bound the behaviours that go wrong: split elections, masked failures, missed deletions, panics.

  \<^bold>\<open>Not modelled.\<close> The API server itself: what it answers is an input of the reflector, and the theorems about
  informers assume that a list returns the objects at some version and a watch the changes after a version.
  The bounds of the channels are modelled for one deliverer at a time; the theorems about the running ingress
  controller are about channels without bounds.
  The stop channels of the controllers (the program never stops them), the metrics and names of reflectors,
  the queries of the delta queue that nothing calls, the help texts of the flags, and the parts of
  third-party clients that the repository only calls (\<open>Login\<close>, \<open>CreateRecord\<close>, \<open>DeleteRecord\<close>,
  \<open>PublishZone\<close> of the DynECT client, which are arguments).
\<close>

end
